(* ===== verification/Prelude.thy ===== *)
theory Prelude
  imports Main "HOL-Library.AList" "HOL-Library.List_Lexorder" "HOL-Library.Char_ord"
    "HOL-Library.Product_Lexorder" "HOL-Library.Multiset"
begin

text \<open>
  Shared vocabulary of the development: Go's error values and their unwrapping, results of
  fallible calls, the functional-option idiom of the constructors, Go's built-in map together
  with its iteration order, decimal rendering, sorting and de-duplication of slices, and
  bounded reachability over a neighbour function. The lemmas are collected in named
  collections that the component theories pass to the simplifier.
\<close>

named_theorems result_simps \<open>case analysis of fallible results\<close>
named_theorems gomap_simps \<open>laws of the built-in map\<close>
named_theorems slice_simps \<open>sets and multisets of processed slices\<close>

section \<open>Errors and fallible results\<close>

text \<open>
  An error is either the value of \<open>errors.New\<close> (a sentinel, identified by its text), a
  formatted error (\<open>fmt.Errorf\<close> without \<open>%w\<close>: its format and its rendered arguments), or a
  formatted error that wraps another one with \<open>%w\<close>.
\<close>

datatype err = Errs string | Errorf string "string list" | Wrap string "string list" err

type_synonym 'a result = "err + 'a"

text \<open>\<open>errors.Is\<close>: the target occurs on the unwrap chain.\<close>

fun errors_is :: "err \<Rightarrow> err \<Rightarrow> bool" where
  "errors_is (Wrap f args e) t \<longleftrightarrow> Wrap f args e = t \<or> errors_is e t"
| "errors_is (Errs s) t \<longleftrightarrow> Errs s = t"
| "errors_is (Errorf f args) t \<longleftrightarrow> Errorf f args = t"

lemma errors_is_refl [simp]: "errors_is e e"
  by (cases e) auto

lemma errors_is_wrap [intro]: "errors_is e t \<Longrightarrow> errors_is (Wrap f args e) t"
  by simp

definition is_ok :: "'a result \<Rightarrow> bool" where
  "is_ok r \<longleftrightarrow> (case r of Inl _ \<Rightarrow> False | Inr _ \<Rightarrow> True)"

lemma is_ok_simps [simp, result_simps]: "is_ok (Inr x)" "\<not> is_ok (Inl e)"
  by (simp_all add: is_ok_def)

lemma is_ok_iff: "is_ok r \<longleftrightarrow> (\<exists>x. r = Inr x)"
  by (cases r) auto

text \<open>
  Running a fallible function over a slice and collecting the results; the first error
  aborts the loop, as an early \<open>return\<close> does.
\<close>

fun map_r :: "('a \<Rightarrow> 'b result) \<Rightarrow> 'a list \<Rightarrow> 'b list result" where
  "map_r f [] = Inr []"
| "map_r f (x # xs) =
     (case f x of Inl e \<Rightarrow> Inl e
      | Inr y \<Rightarrow> (case map_r f xs of Inl e \<Rightarrow> Inl e | Inr ys \<Rightarrow> Inr (y # ys)))"

lemma map_r_Inr: "map_r f xs = Inr ys \<Longrightarrow> list_all2 (\<lambda>x y. f x = Inr y) xs ys"
  by (induction xs arbitrary: ys) (auto split: sum.splits)

lemma map_r_Inr_iff: "map_r f xs = Inr ys \<longleftrightarrow> list_all2 (\<lambda>x y. f x = Inr y) xs ys"
proof
  assume "list_all2 (\<lambda>x y. f x = Inr y) xs ys"
  then show "map_r f xs = Inr ys"
    by (induction rule: list_all2_induct) auto
qed (rule map_r_Inr)

lemma map_r_total: "(\<And>x. x \<in> set xs \<Longrightarrow> f x = Inr (g x)) \<Longrightarrow> map_r f xs = Inr (map g xs)"
  by (induction xs) auto

lemma map_r_eq: "(\<And>x. x \<in> set xs \<Longrightarrow> f x = Inr (g x)) \<Longrightarrow> map_r f xs = Inr (map g xs)"
  by (induction xs) auto

lemma map_r_Inl: "map_r f xs = Inl e \<Longrightarrow> \<exists>x \<in> set xs. f x = Inl e"
  by (induction xs) (auto split: sum.splits)

section \<open>Functional options\<close>

text \<open>
  The constructors of the domain package take a list of options, each of which updates the
  object under construction or fails; the loop stops at the first failing option.
\<close>

fun apply_opts :: "('a \<Rightarrow> 'a result) list \<Rightarrow> 'a \<Rightarrow> 'a result" where
  "apply_opts [] x = Inr x"
| "apply_opts (opt # opts) x = (case opt x of Inl e \<Rightarrow> Inl e | Inr y \<Rightarrow> apply_opts opts y)"

text \<open>An option \<open>keeps\<close> a property when it holds of every result it produces.\<close>

definition opt_keeps :: "('a \<Rightarrow> bool) \<Rightarrow> ('a \<Rightarrow> 'a result) \<Rightarrow> bool" where
  "opt_keeps P opt \<longleftrightarrow> (\<forall>x y. P x \<longrightarrow> opt x = Inr y \<longrightarrow> P y)"

lemma opt_keepsI: "(\<And>x y. P x \<Longrightarrow> opt x = Inr y \<Longrightarrow> P y) \<Longrightarrow> opt_keeps P opt"
  by (simp add: opt_keeps_def)

lemma opt_keepsD: "opt_keeps P opt \<Longrightarrow> P x \<Longrightarrow> opt x = Inr y \<Longrightarrow> P y"
  by (simp add: opt_keeps_def)

lemma apply_opts_keeps:
  assumes "apply_opts opts x = Inr y" and "P x" and "\<And>opt. opt \<in> set opts \<Longrightarrow> opt_keeps P opt"
  shows "P y"
  using assms
proof (induction opts arbitrary: x)
  case Nil
  then show ?case by simp
next
  case (Cons opt opts)
  then obtain z where z: "opt x = Inr z" "apply_opts opts z = Inr y"
    by (auto split: sum.splits)
  have "P z" using Cons.prems z(1) by (auto dest: opt_keepsD)
  then show ?case using Cons.IH [OF z(2)] Cons.prems by simp
qed

lemma apply_opts_append:
  "apply_opts (xs @ ys) a = (case apply_opts xs a of Inl e \<Rightarrow> Inl e | Inr b \<Rightarrow> apply_opts ys b)"
  by (induction xs arbitrary: a) (auto split: sum.splits)

text \<open>
  The contract between a constructor and its options: each option the package offers keeps
  the invariant of the object under construction.
\<close>

locale option_builder =
  fixes is_option :: "('a \<Rightarrow> 'a result) \<Rightarrow> bool"
    and inv :: "'a \<Rightarrow> bool"
  assumes keeps: "is_option opt \<Longrightarrow> inv x \<Longrightarrow> opt x = Inr y \<Longrightarrow> inv y"
begin

lemma build_keeps:
  assumes "list_all is_option opts" and "inv x" and "apply_opts opts x = Inr y"
  shows "inv y"
  using assms(3,2)
proof (rule apply_opts_keeps [where P = inv])
  show "opt_keeps inv opt" if "opt \<in> set opts" for opt
    using assms(1) that by (intro opt_keepsI) (auto simp: list_all_iff intro: keeps)
qed

lemma build_prefix_keeps:
  assumes "list_all is_option (xs @ ys)" and "inv x" and "apply_opts xs x = Inr y"
  shows "inv y"
  using build_keeps [of xs x y] assms by simp

end

text \<open>Two runs of the same options from related objects end in related objects, or fail alike.\<close>

lemma apply_opts_rel:
  assumes "R x x'"
    and "\<And>opt a a'. opt \<in> set opts \<Longrightarrow> R a a' \<Longrightarrow> rel_sum (=) R (opt a) (opt a')"
  shows "rel_sum (=) R (apply_opts opts x) (apply_opts opts x')"
  using assms
proof (induction opts arbitrary: x x')
  case Nil
  then show ?case by simp
next
  case (Cons opt opts)
  have step: "rel_sum (=) R (opt x) (opt x')" using Cons.prems by simp
  show ?case
  proof (cases "opt x")
    case (Inl e)
    then show ?thesis using step by (cases "opt x'") auto
  next
    case (Inr y)
    then obtain y' where y': "opt x' = Inr y'" "R y y'" using step by (cases "opt x'") auto
    then show ?thesis using Inr Cons.IH [OF y'(2)] Cons.prems(2) by simp
  qed
qed

section \<open>Sequencing\<close>

text \<open>\<open>r, err := \<dots>; if err != nil { return err }\<close>, then the rest.\<close>

definition bind_r :: "'a result \<Rightarrow> ('a \<Rightarrow> 'b result) \<Rightarrow> 'b result" where
  "bind_r r f = (case r of Inl e \<Rightarrow> Inl e | Inr x \<Rightarrow> f x)"

text \<open>A loop whose body may fail: the first error ends it.\<close>

definition for_r :: "('a \<Rightarrow> 's \<Rightarrow> 's result) \<Rightarrow> 'a list \<Rightarrow> 's \<Rightarrow> 's result" where
  "for_r body xs = apply_opts (map body xs)"

lemma bind_r_Inr: "bind_r r f = Inr y \<longleftrightarrow> (\<exists>x. r = Inr x \<and> f x = Inr y)"
  by (cases r) (auto simp: bind_r_def)

lemma for_r_simps [simp]:
  "for_r body [] p = Inr p"
  "for_r body (x # xs) p = bind_r (body x p) (for_r body xs)"
  by (auto simp: for_r_def bind_r_def split: sum.splits)

lemma for_r_append: "for_r body (xs @ ys) p = bind_r (for_r body xs p) (for_r body ys)"
  by (induction xs arbitrary: p) (auto simp: bind_r_def split: sum.splits)

lemma for_r_keeps:
  assumes "for_r body xs p = Inr p'" and "P p"
    and "\<And>x q q'. x \<in> set xs \<Longrightarrow> P q \<Longrightarrow> body x q = Inr q' \<Longrightarrow> P q'"
  shows "P p'"
  using assms by (induction xs arbitrary: p) (auto simp: bind_r_Inr)

section \<open>The built-in map\<close>

text \<open>
  A Go map that the code iterates over is an association list with distinct keys. The list
  order stands for the order in which the runtime happens to iterate; every theorem is
  stated for all such lists, hence for every iteration order. A map that is only probed is a
  function into \<open>option\<close>.
\<close>

type_synonym ('k, 'v) gomap = "('k \<times> 'v) list"

definition gm_wf :: "('k, 'v) gomap \<Rightarrow> bool" where
  "gm_wf m \<longleftrightarrow> distinct (map fst m)"

definition gm_put :: "'k \<Rightarrow> 'v \<Rightarrow> ('k, 'v) gomap \<Rightarrow> ('k, 'v) gomap" where
  "gm_put k v m = AList.update k v m"

definition gm_del :: "'k \<Rightarrow> ('k, 'v) gomap \<Rightarrow> ('k, 'v) gomap" where
  "gm_del k m = AList.delete k m"

text \<open>The interface of the built-in map, and what every client may rely on.\<close>

locale go_map =
  fixes get :: "'m \<Rightarrow> 'k \<Rightarrow> 'v option"
    and put :: "'k \<Rightarrow> 'v \<Rightarrow> 'm \<Rightarrow> 'm"
    and del :: "'k \<Rightarrow> 'm \<Rightarrow> 'm"
    and emp :: 'm
    and wf :: "'m \<Rightarrow> bool"
  assumes get_emp: "get emp = Map.empty"
    and get_put: "get (put k v m) = (get m)(k \<mapsto> v)"
    and get_del: "wf m \<Longrightarrow> get (del k m) = (get m)(k := None)"
    and wf_emp: "wf emp"
    and wf_put: "wf m \<Longrightarrow> wf (put k v m)"
    and wf_del: "wf m \<Longrightarrow> wf (del k m)"
begin

lemma put_overwrites: "get (put k v (put k w m)) = get (put k v m)"
  by (simp add: get_put)

lemma put_commutes: "k \<noteq> l \<Longrightarrow> get (put k v (put l w m)) = get (put l w (put k v m))"
  by (simp add: get_put fun_upd_twist)

lemma del_put: "wf m \<Longrightarrow> get (del k (put k v m)) = get (del k m)"
  by (simp add: get_put get_del wf_put)

lemma dom_put: "dom (get (put k v m)) = insert k (dom (get m))"
  by (simp add: get_put)

lemma dom_del: "wf m \<Longrightarrow> dom (get (del k m)) = dom (get m) - {k}"
  by (simp add: get_del)

end

interpretation gm: go_map map_of gm_put gm_del "[]" gm_wf
proof unfold_locales
  show "map_of (gm_put k v m) = (map_of m)(k \<mapsto> v)" for k :: 'a and v :: 'b and m
    by (simp add: gm_put_def update_conv')
  show "map_of (gm_del k m) = (map_of m)(k := None)" for k :: 'a and m :: "('a \<times> 'b) list"
    by (simp add: gm_del_def delete_conv')
qed (auto simp: gm_wf_def gm_put_def gm_del_def distinct_update distinct_delete)

lemmas gomap_laws [gomap_simps] = gm.get_put gm.wf_put gm.wf_del

lemma gm_get_del [gomap_simps]: "map_of (gm_del k m) = (map_of m)(k := None)"
  by (simp add: gm_del_def delete_conv')

lemma gm_wf_Nil [simp]: "gm_wf []"
  by (rule gm.wf_emp)

lemma gm_wf_Cons [simp]: "gm_wf ((k, v) # m) \<longleftrightarrow> k \<notin> fst ` set m \<and> gm_wf m"
  by (simp add: gm_wf_def)

lemma gm_get_iff: "gm_wf m \<Longrightarrow> map_of m k = Some v \<longleftrightarrow> (k, v) \<in> set m"
  by (simp add: gm_wf_def)

lemma gm_keys_put [simp]: "fst ` set (gm_put k v m) = insert k (fst ` set m)"
  by (auto simp: gm_put_def dom_map_of_conv_image_fst [symmetric] update_conv')

lemma gm_wf_filter [simp]: "gm_wf m \<Longrightarrow> gm_wf (filter P m)"
  by (simp add: gm_wf_def distinct_map_filter)

lemma gm_get_filter:
  "gm_wf m \<Longrightarrow> map_of (filter (\<lambda>(k, v). P k) m) k = (if P k then map_of m k else None)"
  by (induction m) (auto simp: gm_wf_def split: if_splits)

lemma gm_get_filter_neg:
  "gm_wf m \<Longrightarrow> map_of (filter (\<lambda>(k, v). \<not> P k) m) k = (if P k then None else map_of m k)"
  using gm_get_filter [of m "\<lambda>k. \<not> P k" k] by simp

lemma gm_get_filter_row:
  "gm_wf m \<Longrightarrow> map_of (filter (\<lambda>(k, v). Q k v) m) k = (case map_of m k of None \<Rightarrow> None | Some v \<Rightarrow> if Q k v then Some v else None)"
  by (induction m) (auto simp: gm_wf_def map_of_eq_None_iff split: option.splits if_splits dest: map_of_SomeD)

lemma set_gm_put: "gm_wf m \<Longrightarrow> set (gm_put k v m) = insert (k, v) {p \<in> set m. fst p \<noteq> k}"
  by (auto simp: gm_get_iff [symmetric] gm.wf_put gm.get_put split: if_splits)

lemma in_gm_put: "gm_wf m \<Longrightarrow> (k', v') \<in> set (gm_put k v m) \<longleftrightarrow> k' = k \<and> v' = v \<or> k' \<noteq> k \<and> (k', v') \<in> set m"
  by (metis fun_upd_apply gm.get_put gm.wf_put gm_get_iff option.inject)

lemma gm_unique: "gm_wf m \<Longrightarrow> (k, v) \<in> set m \<Longrightarrow> (k, v') \<in> set m \<Longrightarrow> v = v'"
  by (metis gm_get_iff option.inject)

lemma gm_put_new: "map_of m k = None \<Longrightarrow> gm_put k v m = m @ [(k, v)]"
  by (induction m) (auto simp: gm_put_def split: if_splits)

lemma find_SomeD:
  assumes "find Q xs = Some x"
  shows "x \<in> set xs" and "Q x"
  using assms by (induction xs) (auto split: if_splits)

lemma find_append_case: "find Q (xs @ ys) = (case find Q xs of None \<Rightarrow> find Q ys | Some x \<Rightarrow> Some x)"
  by (induction xs) auto

text \<open>
  A SQL \<open>UPDATE\<close> of the rows that satisfy a condition, on a table kept as a map from its
  primary key to its rows.
\<close>

definition gm_update_where :: "('k \<Rightarrow> 'v \<Rightarrow> bool) \<Rightarrow> ('v \<Rightarrow> 'v) \<Rightarrow> ('k, 'v) gomap \<Rightarrow> ('k, 'v) gomap" where
  "gm_update_where P f m = map (\<lambda>(k, v). (k, if P k v then f v else v)) m"

lemma gm_get_update_where [gomap_simps]:
  "map_of (gm_update_where P f m) k = map_option (\<lambda>v. if P k v then f v else v) (map_of m k)"
  by (induction m) (auto simp: gm_update_where_def)

lemma gm_keys_update_where [simp]: "map fst (gm_update_where P f m) = map fst m"
  by (auto simp: gm_update_where_def)

lemma gm_wf_update_where [gomap_simps]: "gm_wf (gm_update_where P f m) = gm_wf m"
  by (simp add: gm_wf_def)

lemma gm_update_where_twice:
  assumes "\<And>k v. P k v \<Longrightarrow> Q k (f v) \<Longrightarrow> f (f v) = f v"
  shows "gm_update_where Q f (gm_update_where P f m)
    = gm_update_where (\<lambda>k v. P k v \<or> Q k v) f m"
  using assms by (auto simp: gm_update_where_def)

lemma gm_update_where_cong:
  "(\<And>k v. (k, v) \<in> set m \<Longrightarrow> P k v = Q k v) \<Longrightarrow> gm_update_where P f m = gm_update_where Q f m"
  by (auto simp: gm_update_where_def)

lemma gm_update_where_none [simp]: "gm_update_where (\<lambda>k v. False) f m = m"
  by (simp add: gm_update_where_def case_prod_beta)

section \<open>Slices\<close>

text \<open>\<open>sort.Strings\<close> and \<open>sort.Slice\<close> by a key.\<close>

lemmas sort_set [slice_simps] = set_sort
lemmas sort_mset [slice_simps] = mset_sort

text \<open>
  The idiom \<open>seen := map; for x { if seen[x] continue; seen[x] = {}; out = append(out, x) }\<close>:
  keeps the first occurrence of every element, in order.
\<close>

fun dedup_from :: "'a list \<Rightarrow> 'a list \<Rightarrow> 'a list" where
  "dedup_from seen [] = []"
| "dedup_from seen (x # xs) =
     (if x \<in> set seen then dedup_from seen xs else x # dedup_from (x # seen) xs)"

definition dedup :: "'a list \<Rightarrow> 'a list" where
  "dedup xs = dedup_from [] xs"

lemma set_dedup_from: "set (dedup_from seen xs) = set xs - set seen"
  by (induction seen xs rule: dedup_from.induct) auto

lemma set_dedup [simp, slice_simps]: "set (dedup xs) = set xs"
  by (simp add: dedup_def set_dedup_from)

lemma dedup_eq_Nil [simp]: "dedup xs = [] \<longleftrightarrow> xs = []"
  by (metis set_dedup set_empty)

lemma distinct_dedup_from: "distinct (dedup_from seen xs)"
  by (induction seen xs rule: dedup_from.induct) (auto simp: set_dedup_from)

lemma distinct_dedup [simp]: "distinct (dedup xs)"
  by (simp add: dedup_def distinct_dedup_from)

lemma sort_eq_Nil_iff [simp]: "sort xs = [] \<longleftrightarrow> xs = []"
  by (metis length_0_conv length_sort)

lemma sort_key_eq_Nil_iff [simp]: "sort_key f xs = [] \<longleftrightarrow> xs = []"
  by (metis length_0_conv length_sort)

lemma distinct_sort_dedup [simp]: "distinct (sort (dedup xs))"
  by simp

lemma sorted_distinct_unique:
  "sorted xs \<Longrightarrow> distinct xs \<Longrightarrow> sorted ys \<Longrightarrow> distinct ys \<Longrightarrow> set xs = set ys \<Longrightarrow> xs = ys"
  by (rule sorted_distinct_set_unique)

text \<open>Dropping the nil pointers of a slice of pointers.\<close>

fun somes :: "'a option list \<Rightarrow> 'a list" where
  "somes [] = []"
| "somes (None # xs) = somes xs"
| "somes (Some x # xs) = x # somes xs"

lemma set_somes [simp, slice_simps]: "set (somes xs) = {x. Some x \<in> set xs}"
  by (induction xs rule: somes.induct) auto

lemma bex_somes_map: "(\<exists>y \<in> set (somes (map f xs)). Q y) \<longleftrightarrow> (\<exists>x \<in> set xs. \<exists>y. f x = Some y \<and> Q y)"
  by (force simp: image_iff)

lemma somes_map_Nil: "somes (map f xs) = [] \<longleftrightarrow> (\<forall>x \<in> set xs. f x = None)"
proof (induction xs)
  case (Cons x xs)
  then show ?case by (cases "f x") auto
qed simp

lemma somes_append [simp]: "somes (xs @ ys) = somes xs @ somes ys"
  by (induction xs rule: somes.induct) auto

lemma somes_map_Some [simp]: "somes (map Some xs) = xs"
  by (induction xs) auto

section \<open>Strings\<close>

text \<open>\<open>strings.Join\<close>.\<close>

fun join :: "string \<Rightarrow> string list \<Rightarrow> string" where
  "join sep [] = []"
| "join sep [x] = x"
| "join sep (x # y # zs) = x @ sep @ join sep (y # zs)"

text \<open>\<open>strings.HasPrefix\<close>, \<open>strings.HasSuffix\<close>, \<open>strings.Split\<close> on one character.\<close>

definition HasPrefix :: "string \<Rightarrow> string \<Rightarrow> bool" where
  "HasPrefix s p \<longleftrightarrow> take (length p) s = p"

definition HasSuffix :: "string \<Rightarrow> string \<Rightarrow> bool" where
  "HasSuffix s p \<longleftrightarrow> length p \<le> length s \<and> drop (length s - length p) s = p"

lemma HasPrefix_iff: "HasPrefix s p \<longleftrightarrow> (\<exists>r. s = p @ r)"
  by (metis HasPrefix_def append_eq_conv_conj append_take_drop_id)

lemma HasSuffix_iff: "HasSuffix s p \<longleftrightarrow> (\<exists>r. s = r @ p)"
  by (auto simp: HasSuffix_def) (metis append_take_drop_id)

fun split_on :: "char \<Rightarrow> string \<Rightarrow> string list" where
  "split_on c [] = [[]]"
| "split_on c (x # xs) =
     (if x = c then [] # split_on c xs
      else case split_on c xs of [] \<Rightarrow> [[x]] | y # ys \<Rightarrow> (x # y) # ys)"

lemma split_on_not_Nil [simp]: "split_on c s \<noteq> []"
  by (cases s) (auto split: list.split)

lemma join_split_on: "join [c] (split_on c s) = s"
proof (induction s)
  case (Cons x xs)
  obtain y ys where "split_on c xs = y # ys" by (cases "split_on c xs") auto
  then show ?case using Cons by (cases ys) auto
qed simp

lemma split_on_no_sep: "seg \<in> set (split_on c s) \<Longrightarrow> c \<notin> set seg"
proof (induction s arbitrary: seg)
  case (Cons x xs)
  obtain y ys where "split_on c xs = y # ys" by (cases "split_on c xs") auto
  then show ?case using Cons by (auto split: if_splits)
qed simp

text \<open>The part of a string behind the last character that satisfies \<open>P\<close>; all of it if none does.\<close>

definition after_last :: "(char \<Rightarrow> bool) \<Rightarrow> string \<Rightarrow> string" where
  "after_last P s = rev (takeWhile (\<lambda>c. \<not> P c) (rev s))"

text \<open>Decimal rendering (\<open>%d\<close>).\<close>

fun nat_to_string :: "nat \<Rightarrow> string" where
  "nat_to_string n =
     (if n < 10 then [char_of (48 + n)] else nat_to_string (n div 10) @ [char_of (48 + n mod 10)])"

declare nat_to_string.simps [simp del]

definition int_to_string :: "int \<Rightarrow> string" where
  "int_to_string i = (if i < 0 then CHR ''-'' # nat_to_string (nat (- i)) else nat_to_string (nat i))"

text \<open>The NUL byte that separates the fields of a hashed identity.\<close>

definition NUL :: char where
  "NUL = char_of (0::nat)"

lemma split_at_first_unique:
  assumes "a @ c # x = b @ c # y" and "c \<notin> set a" and "c \<notin> set b"
  shows "a = b \<and> x = y"
  using assms
proof (induction a arbitrary: b)
  case Nil
  then show ?case by (cases b) auto
next
  case (Cons d a)
  then obtain b' where b: "b = d # b'" by (cases b) auto
  then show ?case using Cons.IH [of b'] Cons.prems by auto
qed

section \<open>Bounded reachability\<close>

text \<open>
  \<open>reach_in nb k s t\<close>: there is a walk of exactly \<open>k\<close> edges from \<open>s\<close> to \<open>t\<close> over the
  neighbour function \<open>nb\<close>.
\<close>

fun reach_in :: "('a \<Rightarrow> 'a list) \<Rightarrow> nat \<Rightarrow> 'a \<Rightarrow> 'a \<Rightarrow> bool" where
  "reach_in nb 0 s t \<longleftrightarrow> s = t"
| "reach_in nb (Suc k) s t \<longleftrightarrow> (\<exists>u. reach_in nb k s u \<and> t \<in> set (nb u))"

definition edge_rel :: "('a \<Rightarrow> 'a list) \<Rightarrow> ('a \<times> 'a) set" where
  "edge_rel nb = {(u, v). v \<in> set (nb u)}"

lemma reach_in_relpow: "reach_in nb k s t \<longleftrightarrow> (s, t) \<in> edge_rel nb ^^ k"
  by (induction k arbitrary: t) (auto simp: edge_rel_def relcomp_unfold)

lemma reach_in_rtrancl: "(\<exists>k. reach_in nb k s t) \<longleftrightarrow> (s, t) \<in> (edge_rel nb)\<^sup>*"
  by (simp add: reach_in_relpow rtrancl_is_UN_relpow)

end
