(* ===== verification/Domain_Task.thy ===== *)
theory Domain_Task
  imports Prelude
begin

text \<open>
  \<open>internal/core/domain/task.go\<close>: tasks and the task set. The set stores pointers, the two
  maps share them, and \<open>SetActive\<close> writes through a pointer obtained from one map; so tasks
  live in an explicit heap indexed by addresses. The invariant is the one the set promises:
  at most one active task per repository.
\<close>

record Task =
  t_ID :: string
  t_RepoID :: string
  t_Tracker :: "string option"
  t_TrackerRef :: "string option"
  t_Title :: string
  t_Active :: bool
  t_CreatedAt :: int

definition ErrDuplicateActiveTask :: err where
  "ErrDuplicateActiveTask = Errs ''task: a task is already active for this repo''"

type_synonym TaskOption = "Task \<Rightarrow> Task result"

definition WithTracker :: "string \<Rightarrow> string \<Rightarrow> TaskOption" where
  "WithTracker tracker ref t = Inr (t\<lparr>t_Tracker := Some tracker, t_TrackerRef := Some ref\<rparr>)"

definition WithActive :: TaskOption where
  "WithActive t = Inr (t\<lparr>t_Active := True\<rparr>)"

definition WithCreatedAt :: "int \<Rightarrow> TaskOption" where
  "WithCreatedAt at t = Inr (t\<lparr>t_CreatedAt := at\<rparr>)"

record TaskSpec =
  tsp_ID :: string
  tsp_RepoID :: string
  tsp_Title :: string

text \<open>The clock reading is an argument.\<close>

definition NewTask :: "int \<Rightarrow> TaskSpec \<Rightarrow> TaskOption list \<Rightarrow> Task result" where
  "NewTask now spec opts =
     (if tsp_ID spec = [] then Inl (Errs ''task: id must not be empty'')
      else if tsp_RepoID spec = [] then Inl (Errs ''task: repo_id must not be empty'')
      else if tsp_Title spec = [] then Inl (Errs ''task: title must not be empty'')
      else apply_opts opts
        \<lparr>t_ID = tsp_ID spec, t_RepoID = tsp_RepoID spec, t_Tracker = None, t_TrackerRef = None,
         t_Title = tsp_Title spec, t_Active = False, t_CreatedAt = now\<rparr>)"

type_synonym addr = nat
type_synonym task_heap = "addr \<Rightarrow> Task"

record TaskSet =
  ts_tasks :: "string \<rightharpoonup> addr"
  ts_activeByRepo :: "string \<rightharpoonup> addr"

definition NewTaskSet :: TaskSet where
  "NewTaskSet = \<lparr>ts_tasks = Map.empty, ts_activeByRepo = Map.empty\<rparr>"

definition TaskSet_Add :: "task_heap \<Rightarrow> TaskSet \<Rightarrow> addr option \<Rightarrow> TaskSet result" where
  "TaskSet_Add h ts tp =
     (case tp of
        None \<Rightarrow> Inl (Errs ''task: task must not be nil'')
      | Some a \<Rightarrow>
          let t = h a in
          if t_Active t then
            (case ts_activeByRepo ts (t_RepoID t) of
               Some existing \<Rightarrow>
                 if t_ID (h existing) \<noteq> t_ID t then Inl ErrDuplicateActiveTask
                 else Inr (ts\<lparr>ts_activeByRepo := (ts_activeByRepo ts)(t_RepoID t \<mapsto> a),
                              ts_tasks := (ts_tasks ts)(t_ID t \<mapsto> a)\<rparr>)
             | None \<Rightarrow> Inr (ts\<lparr>ts_activeByRepo := (ts_activeByRepo ts)(t_RepoID t \<mapsto> a),
                               ts_tasks := (ts_tasks ts)(t_ID t \<mapsto> a)\<rparr>))
          else Inr (ts\<lparr>ts_tasks := (ts_tasks ts)(t_ID t \<mapsto> a)\<rparr>))"

definition TaskSet_Active :: "TaskSet \<Rightarrow> string \<Rightarrow> addr option" where
  "TaskSet_Active ts repoID = ts_activeByRepo ts repoID"

definition TaskSet_SetActive :: "task_heap \<Rightarrow> TaskSet \<Rightarrow> addr \<Rightarrow> task_heap \<times> TaskSet" where
  "TaskSet_SetActive h ts a =
     (let t = h a;
          h1 = (case ts_activeByRepo ts (t_RepoID t) of
                  Some prev \<Rightarrow> if t_ID (h prev) \<noteq> t_ID t then h(prev := (h prev)\<lparr>t_Active := False\<rparr>) else h
                | None \<Rightarrow> h);
          h2 = h1(a := (h1 a)\<lparr>t_Active := True\<rparr>)
      in (h2, ts\<lparr>ts_activeByRepo := (ts_activeByRepo ts)(t_RepoID t \<mapsto> a),
                 ts_tasks := (ts_tasks ts)(t_ID t \<mapsto> a)\<rparr>))"

section \<open>The task set's invariant\<close>

inductive task_option :: "TaskOption \<Rightarrow> bool" where
  "task_option (WithTracker tr ref)"
| "task_option WithActive"
| "task_option (WithCreatedAt at)"

lemmas task_option_defs = WithTracker_def WithActive_def WithCreatedAt_def

definition task_wf :: "Task \<Rightarrow> bool" where
  "task_wf t \<longleftrightarrow> t_ID t \<noteq> [] \<and> t_RepoID t \<noteq> [] \<and> t_Title t \<noteq> []"

interpretation task_builder: option_builder task_option task_wf
proof unfold_locales
  show "task_wf y" if "task_option opt" "task_wf x" "opt x = Inr y" for opt x y
    using that by (induction rule: task_option.induct) (auto simp: task_option_defs task_wf_def)
qed

text \<open>
  Each task is filed under its own identifier, the per-repository index points to active
  tasks of that repository, and every active task of the set is the one its repository's
  index points to.
\<close>

definition tasks_inv :: "task_heap \<Rightarrow> TaskSet \<Rightarrow> bool" where
  "tasks_inv h ts \<longleftrightarrow>
     (\<forall>k a. ts_tasks ts k = Some a \<longrightarrow> t_ID (h a) = k)
     \<and> (\<forall>r a. ts_activeByRepo ts r = Some a \<longrightarrow> t_RepoID (h a) = r \<and> t_Active (h a))
     \<and> (\<forall>k a. ts_tasks ts k = Some a \<and> t_Active (h a) \<longrightarrow> ts_activeByRepo ts (t_RepoID (h a)) = Some a)"

lemma tasks_inv_New: "tasks_inv h NewTaskSet"
  by (simp add: tasks_inv_def NewTaskSet_def)

lemma tasks_inv_Add:
  assumes inv: "tasks_inv h ts" and add: "TaskSet_Add h ts (Some a) = Inr ts'"
  shows "tasks_inv h ts'"
proof (cases "t_Active (h a)")
  case False
  then have ts': "ts' = ts\<lparr>ts_tasks := (ts_tasks ts)(t_ID (h a) \<mapsto> a)\<rparr>"
    using add by (simp add: TaskSet_Add_def)
  show ?thesis using inv False unfolding tasks_inv_def ts' by auto
next
  case True
  let ?r = "t_RepoID (h a)" and ?k = "t_ID (h a)"
  have ok: "\<And>b. ts_activeByRepo ts ?r = Some b \<Longrightarrow> t_ID (h b) = ?k"
    and ts': "ts' = ts\<lparr>ts_activeByRepo := (ts_activeByRepo ts)(?r \<mapsto> a), ts_tasks := (ts_tasks ts)(?k \<mapsto> a)\<rparr>"
    using add True by (auto simp: TaskSet_Add_def Let_def split: option.splits if_splits)
  have "ts_activeByRepo ts (t_RepoID (h b)) = Some b \<and> t_RepoID (h b) \<noteq> ?r"
    if "ts_tasks ts k = Some b" "t_Active (h b)" "k \<noteq> ?k" for k b
    using inv that ok unfolding tasks_inv_def by metis
  then show ?thesis using inv True unfolding tasks_inv_def ts' by auto
qed

lemma SetActive_frame:
  assumes "TaskSet_SetActive h ts a = (h', ts')"
  shows "t_ID (h' b) = t_ID (h b)" "t_RepoID (h' b) = t_RepoID (h b)"
    and "ts_activeByRepo ts' = (ts_activeByRepo ts)(t_RepoID (h a) \<mapsto> a)"
    and "ts_tasks ts' = (ts_tasks ts)(t_ID (h a) \<mapsto> a)"
    and "t_Active (h' b) \<longleftrightarrow> b = a \<or> t_Active (h b) \<and>
      \<not> (ts_activeByRepo ts (t_RepoID (h a)) = Some b \<and> t_ID (h b) \<noteq> t_ID (h a))"
  using assms by (auto simp: TaskSet_SetActive_def Let_def split: option.splits if_splits)

lemma tasks_inv_SetActive:
  assumes inv: "tasks_inv h ts" and set: "TaskSet_SetActive h ts a = (h', ts')"
  shows "tasks_inv h' ts'"
proof -
  note fr = SetActive_frame [OF set]
  let ?r = "t_RepoID (h a)" and ?k = "t_ID (h a)"
  have ids: "t_ID (h' b) = k" if "ts_tasks ts' k = Some b" for k b
    using inv that unfolding tasks_inv_def by (auto simp: fr(1,4) split: if_splits)
  have idx: "t_RepoID (h' b) = r \<and> t_Active (h' b)" if "ts_activeByRepo ts' r = Some b" for r b
  proof (cases "r = ?r")
    case True
    then show ?thesis using that by (simp add: fr)
  next
    case False
    then have old: "ts_activeByRepo ts r = Some b" using that by (simp add: fr(3))
    then have "t_RepoID (h b) = r" "t_Active (h b)" using inv by (auto simp: tasks_inv_def)
    moreover have "ts_activeByRepo ts ?r \<noteq> Some b"
      using inv False calculation(1) unfolding tasks_inv_def by metis
    ultimately show ?thesis by (simp add: fr)
  qed
  have act: "ts_activeByRepo ts' (t_RepoID (h' b)) = Some b"
    if "ts_tasks ts' k = Some b" "t_Active (h' b)" for k b
  proof (cases "b = a")
    case False
    then have old: "ts_tasks ts k = Some b" "k \<noteq> ?k" "t_Active (h b)"
      and keep: "ts_activeByRepo ts ?r = Some b \<Longrightarrow> t_ID (h b) = ?k"
      using that by (auto simp: fr split: if_splits)
    then have "t_RepoID (h b) \<noteq> ?r" "ts_activeByRepo ts (t_RepoID (h b)) = Some b"
      using inv unfolding tasks_inv_def by metis+
    then show ?thesis by (simp add: fr)
  qed (simp add: fr)
  show ?thesis unfolding tasks_inv_def using ids idx act by blast
qed

lemma tasks_inv_one_active:
  assumes "tasks_inv h ts" and "ts_tasks ts k = Some a" and "ts_tasks ts l = Some b"
    and "t_Active (h a)" and "t_Active (h b)" and "t_RepoID (h a) = t_RepoID (h b)"
  shows "k = l \<and> a = b"
  using assms unfolding tasks_inv_def by (metis option.inject)

text \<open>
  A run of the set: additions and activations. The heap may gain tasks between the calls
  (\<open>alloc\<close>: a new task at an address no map points to); existing tasks change only through
  the set.
\<close>

inductive task_run :: "task_heap \<Rightarrow> TaskSet \<Rightarrow> bool" where
  start: "task_run h NewTaskSet"
| alloc: "task_run h ts \<Longrightarrow> a \<notin> ran (ts_tasks ts) \<Longrightarrow> a \<notin> ran (ts_activeByRepo ts)
    \<Longrightarrow> task_run (h(a := t)) ts"
| add: "task_run h ts \<Longrightarrow> TaskSet_Add h ts (Some a) = Inr ts' \<Longrightarrow> task_run h ts'"
| activate: "task_run h ts \<Longrightarrow> TaskSet_SetActive h ts a = (h', ts') \<Longrightarrow> task_run h' ts'"

lemma tasks_inv_alloc:
  assumes "tasks_inv h ts" and "a \<notin> ran (ts_tasks ts)" and "a \<notin> ran (ts_activeByRepo ts)"
  shows "tasks_inv (h(a := t)) ts"
proof -
  have "b \<noteq> a" if "ts_tasks ts k = Some b \<or> ts_activeByRepo ts k = Some b" for k b
    using that assms(2,3) by (auto simp: ran_def)
  then show ?thesis using assms(1) unfolding tasks_inv_def by auto
qed

lemma task_run_inv: "task_run h ts \<Longrightarrow> tasks_inv h ts"
  by (induction rule: task_run.induct)
    (blast intro: tasks_inv_New tasks_inv_alloc tasks_inv_Add tasks_inv_SetActive)+

section \<open>Properties\<close>

text \<open>
  At every point of a run of the task set two active tasks of one repository are the same
  task, and \<open>Active\<close> returns it.
\<close>

theorem one_active_task_per_repo:
  assumes "task_run h ts" and "ts_tasks ts k = Some a" and "t_Active (h a)"
  shows "TaskSet_Active ts (t_RepoID (h a)) = Some a
    \<and> (\<forall>l b. ts_tasks ts l = Some b \<and> t_Active (h b) \<and> t_RepoID (h b) = t_RepoID (h a) \<longrightarrow> l = k \<and> b = a)"
proof -
  have inv: "tasks_inv h ts" using assms(1) by (rule task_run_inv)
  then have "TaskSet_Active ts (t_RepoID (h a)) = Some a"
    using assms(2,3) by (simp add: tasks_inv_def TaskSet_Active_def)
  then show ?thesis using tasks_inv_one_active [OF inv _ assms(2) _ assms(3)] by blast
qed

definition sample_task :: "string \<Rightarrow> bool \<Rightarrow> Task" where
  "sample_task k act = \<lparr>t_ID = k, t_RepoID = ''r'', t_Tracker = None, t_TrackerRef = None,
     t_Title = ''t'', t_Active = act, t_CreatedAt = 0\<rparr>"

theorem one_active_task_per_repo_witness:
  "TaskSet_Active \<lparr>ts_tasks = [''t1'' \<mapsto> 0], ts_activeByRepo = [''r'' \<mapsto> 0]\<rparr> ''r'' = Some 0"
proof -
  let ?h = "\<lambda>_::nat. sample_task ''t1'' True"
  have "TaskSet_Add ?h NewTaskSet (Some 0) = Inr \<lparr>ts_tasks = [''t1'' \<mapsto> 0], ts_activeByRepo = [''r'' \<mapsto> 0]\<rparr>"
    by (simp add: TaskSet_Add_def NewTaskSet_def sample_task_def)
  then have "task_run ?h \<lparr>ts_tasks = [''t1'' \<mapsto> 0], ts_activeByRepo = [''r'' \<mapsto> 0]\<rparr>"
    by (rule task_run.add [OF task_run.start])
  then show ?thesis using one_active_task_per_repo [of ?h _ "''t1''" 0]
    by (simp add: sample_task_def)
qed

end
