(* ===== verification/Hashing.thy ===== *)
theory Hashing
  imports Prelude "HOL-Library.Word"
begin

unbundle bit_operations_syntax

text \<open>
  \<open>crypto/sha256\<close> and \<open>encoding/hex\<close>, as far as the identifiers of the domain package use
  them: SHA-256 over a byte string (FIPS 180-4, on 32-bit words with wrap-around addition),
  the hexadecimal rendering of the digest, and the 32-character identifier prefix. The
  lemmas bound the shape of the results; the injectivity lemma is about the pre-image
  encoding that the identifiers hash.
\<close>

type_synonym w32 = "32 word"

section \<open>SHA-256\<close>

text \<open>The round constants and the initial state, in decimal.\<close>

definition sha_K :: "w32 list" where
  "sha_K = [
    1116352408, 1899447441, 3049323471, 3921009573, 961987163, 1508970993, 2453635748, 2870763221,
    3624381080, 310598401, 607225278, 1426881987, 1925078388, 2162078206, 2614888103, 3248222580,
    3835390401, 4022224774, 264347078, 604807628, 770255983, 1249150122, 1555081692, 1996064986,
    2554220882, 2821834349, 2952996808, 3210313671, 3336571891, 3584528711, 113926993, 338241895,
    666307205, 773529912, 1294757372, 1396182291, 1695183700, 1986661051, 2177026350, 2456956037,
    2730485921, 2820302411, 3259730800, 3345764771, 3516065817, 3600352804, 4094571909, 275423344,
    430227734, 506948616, 659060556, 883997877, 958139571, 1322822218, 1537002063, 1747873779,
    1955562222, 2024104815, 2227730452, 2361852424, 2428436474, 2756734187, 3204031479, 3329325298]"

type_synonym sha_state = "w32 \<times> w32 \<times> w32 \<times> w32 \<times> w32 \<times> w32 \<times> w32 \<times> w32"

definition sha_H0 :: sha_state where
  "sha_H0 = (1779033703, 3144134277, 1013904242, 2773480762,
             1359893119, 2600822924, 528734635, 1541459225)"

definition rotr :: "nat \<Rightarrow> w32 \<Rightarrow> w32" where
  "rotr n x = drop_bit n x OR push_bit (32 - n) x"

definition small_sigma0 :: "w32 \<Rightarrow> w32" where
  "small_sigma0 x = rotr 7 x XOR rotr 18 x XOR drop_bit 3 x"

definition small_sigma1 :: "w32 \<Rightarrow> w32" where
  "small_sigma1 x = rotr 17 x XOR rotr 19 x XOR drop_bit 10 x"

definition big_sigma0 :: "w32 \<Rightarrow> w32" where
  "big_sigma0 x = rotr 2 x XOR rotr 13 x XOR rotr 22 x"

definition big_sigma1 :: "w32 \<Rightarrow> w32" where
  "big_sigma1 x = rotr 6 x XOR rotr 11 x XOR rotr 25 x"

text \<open>
  The message schedule, most recent word first: sixteen words of the block and then
  \<open>n\<close> derived ones.
\<close>

fun sha_schedule :: "nat \<Rightarrow> w32 list \<Rightarrow> w32 list" where
  "sha_schedule 0 ws = ws"
| "sha_schedule (Suc n) ws =
     sha_schedule n ((small_sigma1 (ws ! 1) + ws ! 6 + small_sigma0 (ws ! 14) + ws ! 15) # ws)"

fun sha_round :: "sha_state \<Rightarrow> w32 \<times> w32 \<Rightarrow> sha_state" where
  "sha_round (a, b, c, d, e, f, g, h) (k, w) =
     (let t1 = h + big_sigma1 e + ((e AND f) XOR (NOT e AND g)) + k + w;
          t2 = big_sigma0 a + ((a AND b) XOR (a AND c) XOR (b AND c))
      in (t1 + t2, a, b, c, d + t1, e, f, g))"

fun sha_add :: "sha_state \<Rightarrow> sha_state \<Rightarrow> sha_state" where
  "sha_add (a, b, c, d, e, f, g, h) (a', b', c', d', e', f', g', h') =
     (a + a', b + b', c + c', d + d', e + e', f + f', g + g', h + h')"

definition sha_block :: "sha_state \<Rightarrow> w32 list \<Rightarrow> sha_state" where
  "sha_block s ws = sha_add s (foldl sha_round s (zip sha_K (rev (sha_schedule 48 (rev ws)))))"

fun be_word :: "int list \<Rightarrow> w32" where
  "be_word bs = word_of_int (foldl (\<lambda>acc b. acc * 256 + b) 0 bs)"

fun chunk_words :: "int list \<Rightarrow> w32 list" where
  "chunk_words (a # b # c # d # rest) = be_word [a, b, c, d] # chunk_words rest"
| "chunk_words _ = []"

definition be_bytes :: "nat \<Rightarrow> int \<Rightarrow> int list" where
  "be_bytes n x = map (\<lambda>i. (x div 256 ^ (n - 1 - i)) mod 256) [0..<n]"

definition sha_pad :: "int list \<Rightarrow> int list" where
  "sha_pad bs = bs @ 128 # replicate ((119 - length bs mod 64) mod 64) 0
                @ be_bytes 8 (8 * int (length bs))"

fun sha_blocks :: "nat \<Rightarrow> sha_state \<Rightarrow> w32 list \<Rightarrow> sha_state" where
  "sha_blocks 0 s ws = s"
| "sha_blocks (Suc n) s ws = sha_blocks n (sha_block s (take 16 ws)) (drop 16 ws)"

fun state_bytes :: "sha_state \<Rightarrow> int list" where
  "state_bytes (a, b, c, d, e, f, g, h) =
     concat (map (\<lambda>w. be_bytes 4 (uint w)) [a, b, c, d, e, f, g, h])"

text \<open>\<open>sha256.Sum256\<close> of the bytes of a string.\<close>

definition sha256 :: "string \<Rightarrow> int list" where
  "sha256 s = (let p = sha_pad (map of_char s)
               in state_bytes (sha_blocks (length p div 64) sha_H0 (chunk_words p)))"

section \<open>Hexadecimal\<close>

definition hex_digit :: "int \<Rightarrow> char" where
  "hex_digit n = ''0123456789abcdef'' ! nat (n mod 16)"

text \<open>\<open>hex.EncodeToString\<close>.\<close>

definition hex_encode :: "int list \<Rightarrow> string" where
  "hex_encode bs = concat (map (\<lambda>b. [hex_digit (b div 16), hex_digit b]) bs)"

definition sha256_hex :: "string \<Rightarrow> string" where
  "sha256_hex s = hex_encode (sha256 s)"

section \<open>Shape of the results\<close>

lemma length_be_bytes [simp]: "length (be_bytes n x) = n"
  by (simp add: be_bytes_def)

lemma length_sha256 [simp]: "length (sha256 s) = 32"
proof -
  have "length (state_bytes st) = 32" for st
    by (cases st rule: state_bytes.cases) simp
  then show ?thesis by (simp add: sha256_def Let_def)
qed

lemma length_hex_encode [simp]: "length (hex_encode bs) = 2 * length bs"
  by (induction bs) (auto simp: hex_encode_def)

lemma length_sha256_hex [simp]: "length (sha256_hex s) = 64"
  by (simp add: sha256_hex_def)

lemma hex_digit_in: "hex_digit n \<in> set ''0123456789abcdef''"
  proof -
  have "nat (n mod 16) < length ''0123456789abcdef''"
    by (simp add: nat_less_iff)
  then show ?thesis unfolding hex_digit_def by (rule nth_mem)
qed

lemma set_hex_encode: "set (hex_encode bs) \<subseteq> set ''0123456789abcdef''"
proof -
  have "set (hex_encode bs) \<subseteq> range hex_digit"
    by (auto simp: hex_encode_def)
  also have "\<dots> \<subseteq> set ''0123456789abcdef''"
    using hex_digit_in by blast
  finally show ?thesis .
qed

text \<open>The separator-joined pre-image \<open>a \<^verbatim>\<open>\x00\<close> b \<^verbatim>\<open>\x00\<close> c\<close> determines its parts.\<close>

definition nul_join3 :: "string \<Rightarrow> string \<Rightarrow> string \<Rightarrow> string" where
  "nul_join3 a b c = a @ NUL # b @ NUL # c"

lemma nul_join3_inj:
  assumes "nul_join3 a b c = nul_join3 a' b' c'"
    and "NUL \<notin> set a" "NUL \<notin> set a'" "NUL \<notin> set b" "NUL \<notin> set b'"
  shows "a = a' \<and> b = b' \<and> c = c'"
proof -
  have 1: "a = a' \<and> b @ NUL # c = b' @ NUL # c'"
    using assms by (intro split_at_first_unique) (auto simp: nul_join3_def)
  then show ?thesis using assms split_at_first_unique [of b NUL c b' c'] by simp
qed

end
