(* ===== verification/Runes.thy ===== *)
theory Runes
  imports Prelude
begin

text \<open>
  \<open>unicode/utf8\<close> and the conversions between strings and rune slices: decoding with Go's
  treatment of ill-formed input (one replacement rune per offending byte), encoding, rune
  counts, and \<open>strings.TrimSpace\<close>. A string is its list of bytes. The round trip of encoding
  and decoding is what makes a clipped string have the number of runes it was clipped to.
\<close>

section \<open>Decoding and encoding one rune\<close>

definition RuneError :: nat where
  "RuneError = 0xFFFD"

definition is_cont :: "nat \<Rightarrow> bool" where
  "is_cont b \<longleftrightarrow> 0x80 \<le> b \<and> b \<le> 0xBF"

text \<open>The admissible second bytes for each lead byte (Go's \<open>acceptRanges\<close>).\<close>

definition accept2 :: "nat \<Rightarrow> nat \<Rightarrow> bool" where
  "accept2 b0 b1 \<longleftrightarrow>
     (if b0 = 0xE0 then 0xA0 \<le> b1 \<and> b1 \<le> 0xBF
      else if b0 = 0xED then 0x80 \<le> b1 \<and> b1 \<le> 0x9F
      else if b0 = 0xF0 then 0x90 \<le> b1 \<and> b1 \<le> 0xBF
      else if b0 = 0xF4 then 0x80 \<le> b1 \<and> b1 \<le> 0x8F
      else is_cont b1)"

text \<open>\<open>utf8.DecodeRune\<close>: the rune and the number of bytes it takes.\<close>

fun decode_rune :: "nat list \<Rightarrow> nat \<times> nat" where
  "decode_rune [] = (RuneError, 0)"
| "decode_rune (b0 # rest) =
     (if b0 < 0x80 then (b0, 1)
      else if 0xC2 \<le> b0 \<and> b0 \<le> 0xDF then
        (case rest of b1 # _ \<Rightarrow>
           if accept2 b0 b1 then ((b0 - 0xC0) * 64 + (b1 - 0x80), 2) else (RuneError, 1)
         | [] \<Rightarrow> (RuneError, 1))
      else if 0xE0 \<le> b0 \<and> b0 \<le> 0xEF then
        (case rest of b1 # b2 # _ \<Rightarrow>
           if accept2 b0 b1 \<and> is_cont b2
           then ((b0 - 0xE0) * 4096 + (b1 - 0x80) * 64 + (b2 - 0x80), 3) else (RuneError, 1)
         | _ \<Rightarrow> (RuneError, 1))
      else if 0xF0 \<le> b0 \<and> b0 \<le> 0xF4 then
        (case rest of b1 # b2 # b3 # _ \<Rightarrow>
           if accept2 b0 b1 \<and> is_cont b2 \<and> is_cont b3
           then ((b0 - 0xF0) * 262144 + (b1 - 0x80) * 4096 + (b2 - 0x80) * 64 + (b3 - 0x80), 4)
           else (RuneError, 1)
         | _ \<Rightarrow> (RuneError, 1))
      else (RuneError, 1))"

definition valid_rune :: "nat \<Rightarrow> bool" where
  "valid_rune r \<longleftrightarrow> r < 0xD800 \<or> (0xE000 \<le> r \<and> r \<le> 0x10FFFF)"

text \<open>\<open>utf8.AppendRune\<close> on a rune that need not be valid.\<close>

definition encode_rune :: "nat \<Rightarrow> nat list" where
  "encode_rune r =
     (if r < 0x80 then [r]
      else if r < 0x800 then [0xC0 + r div 64, 0x80 + r mod 64]
      else if \<not> valid_rune r then [0xEF, 0xBF, 0xBD]
      else if r < 0x10000 then [0xE0 + r div 4096, 0x80 + r div 64 mod 64, 0x80 + r mod 64]
      else [0xF0 + r div 262144, 0x80 + r div 4096 mod 64, 0x80 + r div 64 mod 64, 0x80 + r mod 64])"

lemma decode_size_bounds:
  "bs \<noteq> [] \<Longrightarrow> 1 \<le> snd (decode_rune bs) \<and> snd (decode_rune bs) \<le> length bs"
  by (cases bs) (auto split: list.splits)

lemma decode_pos: "(r, n) = decode_rune (b # bs) \<Longrightarrow> 0 < n"
  using decode_size_bounds [of "b # bs"] by (metis list.discI One_nat_def Suc_le_lessD snd_conv)

lemma valid_rune_RuneError [simp]: "valid_rune RuneError"
  by (simp add: valid_rune_def RuneError_def)

lemma valid_two:
  "b0 \<le> 0xDF \<Longrightarrow> b1 \<le> 0xBF \<Longrightarrow> valid_rune ((b0 - 0xC0) * 64 + (b1 - 0x80))"
  unfolding valid_rune_def by linarith

lemma valid_three:
  assumes "0xE0 \<le> b0" "b0 \<le> 0xEF" "accept2 b0 b1" "is_cont b2"
  shows "valid_rune ((b0 - 0xE0) * 4096 + (b1 - 0x80) * 64 + (b2 - 0x80))"
proof -
  have b1: "b1 \<le> 0xBF" "b0 = 0xED \<Longrightarrow> b1 \<le> 0x9F"
    using assms(3) by (auto simp: accept2_def is_cont_def split: if_splits)
  consider "b0 \<le> 0xEC" | "b0 = 0xED" | "0xEE \<le> b0" by linarith
  then show ?thesis
    by cases (use assms b1 in \<open>unfold valid_rune_def is_cont_def, linarith+\<close>)
qed

lemma valid_four:
  assumes "0xF0 \<le> b0" "b0 \<le> 0xF4" "accept2 b0 b1" "is_cont b2" "is_cont b3"
  shows "valid_rune ((b0 - 0xF0) * 262144 + (b1 - 0x80) * 4096 + (b2 - 0x80) * 64 + (b3 - 0x80))"
proof -
  have b1: "b1 \<le> 0xBF" "b0 = 0xF0 \<Longrightarrow> 0x90 \<le> b1" "b0 = 0xF4 \<Longrightarrow> b1 \<le> 0x8F"
    using assms(3) by (auto simp: accept2_def is_cont_def split: if_splits)
  consider "b0 = 0xF0" | "b0 = 0xF4" | "0xF1 \<le> b0" "b0 \<le> 0xF3" using assms by linarith
  then show ?thesis
    by cases (use assms b1 in \<open>unfold valid_rune_def is_cont_def, linarith+\<close>)
qed

lemma accept2_le: "accept2 b0 b1 \<Longrightarrow> b1 \<le> 0xBF"
  by (auto simp: accept2_def is_cont_def split: if_splits)

lemma decode_valid: "valid_rune (fst (decode_rune bs))"
proof (cases bs)
  case Nil
  then show ?thesis by simp
next
  case (Cons b0 rest)
  have small: "b0 < 0x80 \<Longrightarrow> valid_rune b0" by (simp add: valid_rune_def)
  show ?thesis unfolding Cons
    by (simp add: small valid_two valid_three valid_four accept2_le split: list.split)
qed

lemma encode_nonempty [simp]: "encode_rune r \<noteq> []"
  by (simp add: encode_rune_def)

lemma encode_bytes: "b \<in> set (encode_rune r) \<Longrightarrow> b < 256"
  by (auto simp: encode_rune_def valid_rune_def split: if_splits)

lemma decode_encode1: "r < 0x80 \<Longrightarrow> decode_rune (encode_rune r @ rest) = (r, 1)"
  by (simp add: encode_rune_def)

lemma decode_encode2:
  assumes "0x80 \<le> r" "r < 0x800"
  shows "decode_rune (encode_rune r @ rest) = (r, 2)"
proof -
  have b: "2 \<le> r div 64" "r div 64 \<le> 31" "r mod 64 \<le> 63"
    using assms by auto
  have "r div 64 * 64 + r mod 64 = r" by simp
  then show ?thesis using assms b
    by (simp add: encode_rune_def accept2_def is_cont_def)
qed

lemma mod64_le: "(x::nat) mod 64 \<le> 63"
  using mod_less_divisor [of 64 x] by linarith

lemma decode_encode3:
  assumes "0x800 \<le> r" "r < 0x10000" "valid_rune r"
  shows "decode_rune (encode_rune r @ rest) = (r, 3)"
proof -
  define q where "q = r div 64"
  have r: "r = 64 * q + r mod 64" and q: "q = 64 * (q div 64) + q mod 64"
    by (simp_all add: q_def)
  have p: "r div 4096 = q div 64" by (simp add: q_def div_mult2_eq [symmetric])
  have lt: "q mod 64 < 64" "r mod 64 < 64" by simp_all
  have qb: "32 \<le> q" "q < 1024" and qv: "q < 864 \<or> 896 \<le> q"
    using assms r lt(2) unfolding valid_rune_def by linarith+
  have hi: "q div 64 \<le> 15" using qb by simp
  have e0: "q div 64 = 0 \<Longrightarrow> 32 \<le> q mod 64" using q qb by linarith
  have ed: "q div 64 = 13 \<Longrightarrow> q mod 64 \<le> 31" using q qv lt by linarith
  have acc: "accept2 (0xE0 + q div 64) (0x80 + q mod 64)"
    using e0 ed hi lt unfolding accept2_def is_cont_def by auto
  have eq: "q div 64 * 4096 + q mod 64 * 64 + r mod 64 = r" using r q by linarith
  have enc: "encode_rune r = [0xE0 + q div 64, 0x80 + q mod 64, 0x80 + r mod 64]"
    using assms by (simp add: encode_rune_def p q_def)
  show ?thesis unfolding enc using hi acc eq by (simp add: is_cont_def mod64_le)
qed

lemma decode_encode4:
  assumes "0x10000 \<le> r" "valid_rune r"
  shows "decode_rune (encode_rune r @ rest) = (r, 4)"
proof -
  define q where "q = r div 64"
  define p where "p = q div 64"
  have r: "r = 64 * q + r mod 64" and q: "q = 64 * p + q mod 64" and p: "p = 64 * (p div 64) + p mod 64"
    by (simp_all add: q_def p_def)
  have d: "r div 4096 = p" "r div 262144 = p div 64"
    by (simp_all add: q_def p_def div_mult2_eq [symmetric])
  have lt: "p mod 64 < 64" "q mod 64 < 64" "r mod 64 < 64" by simp_all
  have top: "r \<le> 0x10FFFF" using assms by (auto simp: valid_rune_def)
  have pb: "16 \<le> p" "p < 272" using assms(1) top r q lt by linarith+
  have hi: "p div 64 \<le> 4" using pb by simp
  have f0: "p div 64 = 0 \<Longrightarrow> 16 \<le> p mod 64" using p pb by linarith
  have f4: "p div 64 = 4 \<Longrightarrow> p mod 64 \<le> 15" using p pb by linarith
  have acc: "accept2 (0xF0 + p div 64) (0x80 + p mod 64)"
    using f0 f4 hi lt unfolding accept2_def is_cont_def by auto
  have eq: "p div 64 * 262144 + p mod 64 * 4096 + q mod 64 * 64 + r mod 64 = r"
    using r q p by linarith
  have enc: "encode_rune r = [0xF0 + p div 64, 0x80 + p mod 64, 0x80 + q mod 64, 0x80 + r mod 64]"
    using assms by (simp add: encode_rune_def d q_def)
  show ?thesis unfolding enc using hi acc eq by (simp add: is_cont_def mod64_le)
qed

lemma decode_encode:
  assumes "valid_rune r"
  shows "decode_rune (encode_rune r @ rest) = (r, length (encode_rune r))"
proof -
  consider "r < 0x80" | "0x80 \<le> r" "r < 0x800" | "0x800 \<le> r" "r < 0x10000" | "0x10000 \<le> r"
    by linarith
  then show ?thesis
  proof cases
    case 1 then show ?thesis by (simp add: decode_encode1) (simp add: encode_rune_def)
  next
    case 2 then show ?thesis by (simp add: decode_encode2) (simp add: encode_rune_def)
  next
    case 3 then show ?thesis using assms by (simp add: decode_encode3) (simp add: encode_rune_def)
  next
    case 4 then show ?thesis using assms by (simp add: decode_encode4) (simp add: encode_rune_def)
  qed
qed

declare decode_rune.simps(2) [simp del]

section \<open>Rune slices\<close>

text \<open>\<open>[]rune(s)\<close> on bytes; \<open>utf8.RuneCountInString\<close> is its length.\<close>

function runes :: "nat list \<Rightarrow> nat list" where
  "runes [] = []"
| "runes (b # bs) = (case decode_rune (b # bs) of (r, n) \<Rightarrow> r # runes (drop n (b # bs)))"
  by pat_completeness auto
termination
  by (relation "measure length") (auto dest: decode_pos)

declare runes.simps(2) [simp del]

definition bytes_of :: "string \<Rightarrow> nat list" where
  "bytes_of s = map of_char s"

definition string_of_bytes :: "nat list \<Rightarrow> string" where
  "string_of_bytes bs = map char_of bs"

definition RuneCountInString :: "string \<Rightarrow> nat" where
  "RuneCountInString s = length (runes (bytes_of s))"

text \<open>\<open>string(rs)\<close> for a slice of runes.\<close>

definition string_of_runes :: "nat list \<Rightarrow> string" where
  "string_of_runes rs = string_of_bytes (concat (map encode_rune rs))"

lemma bytes_of_string_of_bytes: "(\<And>b. b \<in> set bs \<Longrightarrow> b < 256) \<Longrightarrow> bytes_of (string_of_bytes bs) = bs"
  by (induction bs) (auto simp: bytes_of_def string_of_bytes_def)

lemma runes_valid: "r \<in> set (runes bs) \<Longrightarrow> valid_rune r"
proof (induction bs rule: runes.induct)
  case 1
  then show ?case by simp
next
  case (2 b bs)
  obtain q n where q: "decode_rune (b # bs) = (q, n)" by fastforce
  have "valid_rune q" using decode_valid [of "b # bs"] q by simp
  then show ?case using 2 q by (auto simp: runes.simps(2))
qed

lemma runes_encode:
  "(\<And>r. r \<in> set rs \<Longrightarrow> valid_rune r) \<Longrightarrow> runes (concat (map encode_rune rs)) = rs"
proof (induction rs)
  case Nil
  then show ?case by simp
next
  case (Cons r rs)
  obtain b bs where b: "encode_rune r = b # bs" using encode_nonempty by (meson neq_Nil_conv)
  have d: "decode_rune (b # bs @ concat (map encode_rune rs)) = (r, Suc (length bs))"
    using decode_encode [of r "concat (map encode_rune rs)"] Cons.prems b by simp
  show ?case using Cons b d by (simp add: runes.simps(2))
qed

text \<open>Encoding a valid rune slice and counting its runes gives back the slice's length.\<close>

lemma runes_string_of_runes:
  assumes "\<And>r. r \<in> set rs \<Longrightarrow> valid_rune r"
  shows "runes (bytes_of (string_of_runes rs)) = rs"
proof -
  have "bytes_of (string_of_runes rs) = concat (map encode_rune rs)"
    unfolding string_of_runes_def by (rule bytes_of_string_of_bytes) (auto dest: encode_bytes)
  then show ?thesis using assms by (simp add: runes_encode)
qed

section \<open>Trimming white space\<close>

text \<open>\<open>unicode.IsSpace\<close>.\<close>

definition is_space :: "nat \<Rightarrow> bool" where
  "is_space r \<longleftrightarrow> (9 \<le> r \<and> r \<le> 13) \<or> r = 32 \<or> r = 0x85 \<or> r = 0xA0 \<or> r = 0x1680
     \<or> (0x2000 \<le> r \<and> r \<le> 0x200A) \<or> r = 0x2028 \<or> r = 0x2029 \<or> r = 0x202F \<or> r = 0x205F \<or> r = 0x3000"

function trim_left :: "nat list \<Rightarrow> nat list" where
  "trim_left [] = []"
| "trim_left (b # bs) =
     (case decode_rune (b # bs) of (r, n) \<Rightarrow>
        if is_space r then trim_left (drop n (b # bs)) else b # bs)"
  by pat_completeness auto
termination
  by (relation "measure length") (auto dest: decode_pos)

declare trim_left.simps(2) [simp del]

text \<open>\<open>utf8.DecodeLastRune\<close>: look back at most four bytes for the start of the last rune.\<close>

definition rune_start :: "nat \<Rightarrow> bool" where
  "rune_start b \<longleftrightarrow> \<not> is_cont b"

fun last_start :: "nat list \<Rightarrow> nat \<Rightarrow> nat \<Rightarrow> nat" where
  "last_start bs lim 0 = 0"
| "last_start bs lim (Suc i) =
     (if Suc i \<le> lim then i else if rune_start (bs ! i) then i else last_start bs lim i)"

definition decode_last :: "nat list \<Rightarrow> nat \<times> nat" where
  "decode_last bs =
     (if bs = [] then (RuneError, 0)
      else if last bs < 0x80 then (last bs, 1)
      else let e = length bs; start = last_start bs (e - 4) (e - 1);
               (r, n) = decode_rune (drop start bs)
           in if start + n \<noteq> e then (RuneError, 1) else (r, n))"

lemma last_start_le: "last_start bs lim k \<le> k"
  by (induction bs lim k rule: last_start.induct) auto

lemma decode_last_pos:
  assumes "(r, n) = decode_last bs" and "bs \<noteq> []"
  shows "0 < n"
proof -
  define st where "st = last_start bs (length bs - 4) (length bs - 1)"
  have "st < length bs"
    using last_start_le [of bs "length bs - 4" "length bs - 1"] assms(2) unfolding st_def
    by (simp add: le_less_trans)
  then obtain b cs where c: "drop st bs = b # cs"
    by (metis drop_eq_Nil list.exhaust not_le)
  obtain q m where d: "decode_rune (drop st bs) = (q, m)" by fastforce
  then have "0 < m" using c decode_pos by metis
  then show ?thesis
    using assms d by (auto simp: decode_last_def Let_def st_def split: if_splits)
qed

function trim_right :: "nat list \<Rightarrow> nat list" where
  "trim_right bs =
     (if bs = [] then []
      else case decode_last bs of (r, n) \<Rightarrow>
        if is_space r then trim_right (take (length bs - n) bs) else bs)"
  by pat_completeness auto
termination
  by (relation "measure length") (auto dest: decode_last_pos)

declare trim_right.simps [simp del]

definition TrimSpace :: "string \<Rightarrow> string" where
  "TrimSpace s = string_of_bytes (trim_right (trim_left (bytes_of s)))"

end
