(* ===== verification/Domain_Node.thy ===== *)
theory Domain_Node
  imports Hashing Runes
begin

text \<open>
  \<open>internal/core/domain\<close>: nodes and edges of the code graph with their validating
  constructors, the in-memory graph projection, the text projection used for embeddings and
  the output of the parser. Pointers that the code checks for nil are options. The graph
  keeps its nodes in an iterated map and its adjacency in probed maps.
\<close>

section \<open>Edges\<close>

type_synonym NodeID = string
type_synonym EdgeKind = string
type_synonym Confidence = int

definition EdgeCalls :: EdgeKind where
  "EdgeCalls = ''CALLS''"

definition EdgeImports :: EdgeKind where
  "EdgeImports = ''IMPORTS''"

definition EdgeContains :: EdgeKind where
  "EdgeContains = ''CONTAINS''"

definition EdgeTests :: EdgeKind where
  "EdgeTests = ''TESTS''"

definition EdgeDependsOn :: EdgeKind where
  "EdgeDependsOn = ''DEPENDS_ON''"

definition EdgeSimilarTo :: EdgeKind where
  "EdgeSimilarTo = ''SIMILAR_TO''"

definition EdgeRoutes :: EdgeKind where
  "EdgeRoutes = ''ROUTES''"

definition validEdgeKinds :: "EdgeKind list" where
  "validEdgeKinds = [EdgeCalls, EdgeImports, EdgeContains, EdgeTests, EdgeDependsOn,
     EdgeSimilarTo, EdgeRoutes]"

definition Unresolved :: Confidence where
  "Unresolved = 0"

definition Probable :: Confidence where
  "Probable = 1"

definition Strong :: Confidence where
  "Strong = 2"

definition Definite :: Confidence where
  "Definite = 3"

text \<open>The score is a \<open>float32\<close> that is only stored: its bit pattern.\<close>

record Edge =
  e_ID :: string
  e_Src :: NodeID
  e_Tgt :: NodeID
  e_Kind :: EdgeKind
  e_Confidence :: Confidence
  e_Resolved :: bool
  e_SourceLine :: "int option"
  e_Score :: "32 word option"

type_synonym EdgeOption = "Edge \<Rightarrow> Edge result"

definition WithConfidence :: "Confidence \<Rightarrow> EdgeOption" where
  "WithConfidence c e =
     (if c < Unresolved \<or> c > Definite then Inl (Errs ''edge: invalid confidence'')
      else Inr (e\<lparr>e_Confidence := c, e_Resolved := (c \<noteq> Unresolved)\<rparr>))"

definition WithSourceLine :: "int \<Rightarrow> EdgeOption" where
  "WithSourceLine line e = Inr (e\<lparr>e_SourceLine := Some line\<rparr>)"

definition WithScore :: "32 word \<Rightarrow> EdgeOption" where
  "WithScore score e = Inr (e\<lparr>e_Score := Some score\<rparr>)"

definition edgeID :: "NodeID \<Rightarrow> EdgeKind \<Rightarrow> NodeID \<Rightarrow> string" where
  "edgeID src kind tgt = take 32 (sha256_hex (nul_join3 src kind tgt))"

record EdgeSpec =
  es_Src :: NodeID
  es_Tgt :: NodeID
  es_Kind :: EdgeKind

definition blank_edge :: "EdgeSpec \<Rightarrow> Edge" where
  "blank_edge spec =
     \<lparr>e_ID = edgeID (es_Src spec) (es_Kind spec) (es_Tgt spec), e_Src = es_Src spec,
      e_Tgt = es_Tgt spec, e_Kind = es_Kind spec, e_Confidence = 0, e_Resolved = False,
      e_SourceLine = None, e_Score = None\<rparr>"

definition NewEdge :: "EdgeSpec \<Rightarrow> EdgeOption list \<Rightarrow> Edge result" where
  "NewEdge spec opts =
     (if es_Src spec = [] then Inl (Errs ''edge: src must not be empty'')
      else if es_Tgt spec = [] then Inl (Errs ''edge: tgt must not be empty'')
      else if es_Kind spec \<notin> set validEdgeKinds then Inl (Errs ''edge: invalid kind'')
      else apply_opts opts (blank_edge spec))"

section \<open>Nodes\<close>

type_synonym NodeKind = string
type_synonym ContentHash = string

definition KindFunction :: NodeKind where
  "KindFunction = ''function''"

definition KindMethod :: NodeKind where
  "KindMethod = ''method''"

definition KindFile :: NodeKind where
  "KindFile = ''file''"

definition KindPackage :: NodeKind where
  "KindPackage = ''package''"

definition KindChunk :: NodeKind where
  "KindChunk = ''chunk''"

definition validNodeKinds :: "NodeKind list" where
  "validNodeKinds = [KindFunction, KindMethod, ''type'', ''struct'', ''interface'', ''class'',
     ''module'', KindPackage, KindFile, ''field'', ''test'', ''variable'', ''command'', ''route'',
     KindChunk]"

record LineRange =
  lr_Start :: int
  lr_End :: int

record Node =
  n_ID :: NodeID
  n_Path :: string
  n_Name :: string
  n_Kind :: NodeKind
  n_Signature :: "string option"
  n_Lines :: "LineRange option"
  n_RawContent :: "string option"
  n_ContentHash :: "ContentHash option"
  n_StructuralHash :: "ContentHash option"
  n_Language :: "string option"
  n_Exported :: "bool option"
  n_External :: "bool option"
  n_ShortSummary :: "string option"

definition MaxShortSummaryRunes :: nat where
  "MaxShortSummaryRunes = 280"

type_synonym NodeOption = "Node \<Rightarrow> Node result"

definition WithSignature :: "string \<Rightarrow> NodeOption" where
  "WithSignature sig n = Inr (n\<lparr>n_Signature := Some sig\<rparr>)"

definition WithLines :: "LineRange \<Rightarrow> NodeOption" where
  "WithLines lr n =
     (if lr_Start lr < 1
      then Inl (Errorf ''node: LineRange.Start must be >= 1, got %d'' [int_to_string (lr_Start lr)])
      else if lr_End lr < 1
      then Inl (Errorf ''node: LineRange.End must be >= 1, got %d'' [int_to_string (lr_End lr)])
      else if lr_Start lr > lr_End lr
      then Inl (Errorf ''node: LineRange.Start (%d) must be <= End (%d)''
                  [int_to_string (lr_Start lr), int_to_string (lr_End lr)])
      else Inr (n\<lparr>n_Lines := Some lr\<rparr>))"

definition validateHashMatchesContent :: "ContentHash \<Rightarrow> string \<Rightarrow> unit result" where
  "validateHashMatchesContent h content =
     (let expected = sha256_hex content
      in if h \<noteq> expected
         then Inl (Errorf ''node: content_hash %q does not match sha256(raw_content) %q'' [h, expected])
         else Inr ())"

definition WithRawContent :: "string \<Rightarrow> NodeOption" where
  "WithRawContent raw n =
     (let n' = n\<lparr>n_RawContent := Some raw\<rparr>
      in case n_ContentHash n' of
           None \<Rightarrow> Inr n'
         | Some h \<Rightarrow> (case validateHashMatchesContent h raw of Inl e \<Rightarrow> Inl e | Inr _ \<Rightarrow> Inr n'))"

definition WithContentHash :: "ContentHash \<Rightarrow> NodeOption" where
  "WithContentHash h n =
     (case n_RawContent n of
        None \<Rightarrow> Inr (n\<lparr>n_ContentHash := Some h\<rparr>)
      | Some raw \<Rightarrow>
          (case validateHashMatchesContent h raw of
             Inl e \<Rightarrow> Inl e
           | Inr _ \<Rightarrow> Inr (n\<lparr>n_ContentHash := Some h\<rparr>)))"

definition WithStructuralHash :: "ContentHash \<Rightarrow> NodeOption" where
  "WithStructuralHash h n = Inr (n\<lparr>n_StructuralHash := Some h\<rparr>)"

definition WithLanguage :: "string \<Rightarrow> NodeOption" where
  "WithLanguage lang n = Inr (n\<lparr>n_Language := Some lang\<rparr>)"

definition WithExported :: "bool \<Rightarrow> NodeOption" where
  "WithExported exported n = Inr (n\<lparr>n_Exported := Some exported\<rparr>)"

definition WithExternal :: "bool \<Rightarrow> NodeOption" where
  "WithExternal external n = Inr (n\<lparr>n_External := Some external\<rparr>)"

definition TruncateRunes :: "string \<Rightarrow> nat \<Rightarrow> string" where
  "TruncateRunes s n =
     (if RuneCountInString s \<le> n then s else string_of_runes (take n (runes (bytes_of s))))"

definition HeuristicSummary :: "Node \<Rightarrow> string" where
  "HeuristicSummary n =
     (let s = (case n_Signature n of Some sig \<Rightarrow> TrimSpace sig | None \<Rightarrow> []);
          s' = (if s = [] then TrimSpace (n_Kind n @ '' '' @ n_Name n) else s)
      in TruncateRunes s' MaxShortSummaryRunes)"

definition WithShortSummary :: "string \<Rightarrow> NodeOption" where
  "WithShortSummary summary n =
     (let c = RuneCountInString summary
      in if c > MaxShortSummaryRunes
         then Inl (Errorf ''node: ShortSummary is %d runes, max is %d''
                [nat_to_string c, nat_to_string MaxShortSummaryRunes])
         else Inr (n\<lparr>n_ShortSummary := Some summary\<rparr>))"

record NodeSpec =
  ns_ID :: string
  ns_Path :: string
  ns_Name :: string
  ns_Kind :: NodeKind

definition blank_node :: "NodeSpec \<Rightarrow> Node" where
  "blank_node spec =
     \<lparr>n_ID = ns_ID spec, n_Path = ns_Path spec, n_Name = ns_Name spec, n_Kind = ns_Kind spec,
      n_Signature = None, n_Lines = None, n_RawContent = None, n_ContentHash = None,
      n_StructuralHash = None, n_Language = None, n_Exported = None, n_External = None,
      n_ShortSummary = None\<rparr>"

definition NewNode :: "NodeSpec \<Rightarrow> NodeOption list \<Rightarrow> Node result" where
  "NewNode spec opts =
     (if ns_ID spec = [] then Inl (Errs ''node: id must not be empty'')
      else if ns_Path spec = [] then Inl (Errs ''node: path must not be empty'')
      else if ns_Name spec = [] then Inl (Errs ''node: name must not be empty'')
      else if ns_Kind spec \<notin> set validNodeKinds then Inl (Errs ''node: invalid kind'')
      else case apply_opts opts (blank_node spec) of
        Inl e \<Rightarrow> Inl e
      | Inr n \<Rightarrow>
          (case (n_RawContent n, n_ContentHash n) of
             (Some raw, None) \<Rightarrow> Inr (n\<lparr>n_ContentHash := Some (sha256_hex raw)\<rparr>)
           | _ \<Rightarrow> Inr n))"

section \<open>Parser output\<close>

record UnresolvedCall =
  uc_CallerID :: NodeID
  uc_CalleeName :: string
  uc_PkgQualifier :: string
  uc_IsMethodCall :: bool
  uc_SrcLine :: int
  uc_EdgeKind :: EdgeKind

record ParseFailure =
  pf_Line :: int
  pf_Message :: string

record ParseTodo =
  pt_Line :: int
  pt_Message :: string

record ParseResult =
  pr_Nodes :: "Node option list"
  pr_Edges :: "Edge option list"
  pr_Failures :: "ParseFailure list"
  pr_Todos :: "ParseTodo list"
  pr_UnresolvedCalls :: "UnresolvedCall list"
  pr_Imports :: "(string, string) gomap"

section \<open>The text projection for embeddings\<close>

record EmbedTextInput =
  ei_Kind :: string
  ei_SymbolPath :: string
  ei_FilePath :: string
  ei_Language :: string
  ei_Signature :: string
  ei_Snippet :: string

datatype EmbedTextVariant =
  EmbedVariantBaseline | EmbedVariantSignature | EmbedVariantSnippet | EmbedVariantBoth

fun EmbedTextVariant_String :: "EmbedTextVariant \<Rightarrow> string" where
  "EmbedTextVariant_String EmbedVariantSignature = ''+signature''"
| "EmbedTextVariant_String EmbedVariantSnippet = ''+snippet''"
| "EmbedTextVariant_String EmbedVariantBoth = ''+both''"
| "EmbedTextVariant_String EmbedVariantBaseline = ''baseline''"

definition EmbedText :: "EmbedTextInput \<Rightarrow> EmbedTextVariant \<Rightarrow> string" where
  "EmbedText inp variant =
     join '' ''
       (filter (\<lambda>p. p \<noteq> []) [ei_Kind inp, ei_SymbolPath inp, ei_FilePath inp, ei_Language inp]
        @ (if variant = EmbedVariantSignature \<or> variant = EmbedVariantBoth
           then (if ei_Signature inp \<noteq> [] then [ei_Signature inp] else []) else [])
        @ (if variant = EmbedVariantSnippet \<or> variant = EmbedVariantBoth
           then (if ei_Snippet inp \<noteq> [] then [ei_Snippet inp] else []) else []))"

section \<open>The graph projection\<close>

record Graph =
  g_RepoID :: string
  g_Branch :: string
  g_nodes :: "(NodeID, Node) gomap"
  g_outgoing :: "NodeID \<rightharpoonup> Edge list"
  g_incoming :: "NodeID \<rightharpoonup> Edge list"

definition NewGraph :: "string \<Rightarrow> string \<Rightarrow> Graph result" where
  "NewGraph repoID branch =
     (if repoID = [] then Inl (Errs ''graph: repoID must not be empty'')
      else if branch = [] then Inl (Errs ''graph: branch must not be empty'')
      else Inr \<lparr>g_RepoID = repoID, g_Branch = branch, g_nodes = [],
                g_outgoing = Map.empty, g_incoming = Map.empty\<rparr>)"

definition AddNode :: "Graph \<Rightarrow> Node option \<Rightarrow> Graph result" where
  "AddNode g np =
     (case np of
        None \<Rightarrow> Inl (Errs ''graph: node must not be nil'')
      | Some n \<Rightarrow>
          if map_of (g_nodes g) (n_ID n) \<noteq> None
          then Inl (Errorf ''graph: node %q already exists in graph (%s@%s)''
                 [n_ID n, g_RepoID g, g_Branch g])
          else Inr (g\<lparr>g_nodes := gm_put (n_ID n) n (g_nodes g)\<rparr>))"

definition OutgoingEdges :: "Graph \<Rightarrow> NodeID \<Rightarrow> Edge list" where
  "OutgoingEdges g k = (case g_outgoing g k of Some edges \<Rightarrow> edges | None \<Rightarrow> [])"

definition IncomingEdges :: "Graph \<Rightarrow> NodeID \<Rightarrow> Edge list" where
  "IncomingEdges g k = (case g_incoming g k of Some edges \<Rightarrow> edges | None \<Rightarrow> [])"

text \<open>Appending to the entry of a missing key starts from the nil slice.\<close>

definition push_edge :: "NodeID \<Rightarrow> Edge \<Rightarrow> (NodeID \<rightharpoonup> Edge list) \<Rightarrow> (NodeID \<rightharpoonup> Edge list)" where
  "push_edge k e m = m(k \<mapsto> (case m k of Some es \<Rightarrow> es | None \<Rightarrow> []) @ [e])"

definition AddEdge :: "Graph \<Rightarrow> Edge option \<Rightarrow> Graph result" where
  "AddEdge g ep =
     (case ep of
        None \<Rightarrow> Inl (Errs ''graph: edge must not be nil'')
      | Some e \<Rightarrow>
          if map_of (g_nodes g) (e_Src e) = None
          then Inl (Errorf ''graph: edge src node %q not found in graph (%s@%s)''
                 [e_Src e, g_RepoID g, g_Branch g])
          else if map_of (g_nodes g) (e_Tgt e) = None
          then Inl (Errorf ''graph: edge tgt node %q not found in graph (%s@%s)''
                 [e_Tgt e, g_RepoID g, g_Branch g])
          else Inr (g\<lparr>g_outgoing := push_edge (e_Src e) e (g_outgoing g),
                      g_incoming := push_edge (e_Tgt e) e (g_incoming g)\<rparr>))"

definition Nodes :: "Graph \<Rightarrow> Node list" where
  "Nodes g = sort_key n_ID (map snd (g_nodes g))"

definition Graph_Node :: "Graph \<Rightarrow> NodeID \<Rightarrow> Node option" where
  "Graph_Node g k = map_of (g_nodes g) k"

section \<open>What the constructors guarantee\<close>

inductive edge_option :: "EdgeOption \<Rightarrow> bool" where
  "edge_option (WithConfidence c)"
| "edge_option (WithSourceLine l)"
| "edge_option (WithScore s)"

lemmas edge_option_defs = WithConfidence_def WithSourceLine_def WithScore_def
lemmas confidence_defs = Unresolved_def Probable_def Strong_def Definite_def

definition edge_wf :: "Edge \<Rightarrow> bool" where
  "edge_wf e \<longleftrightarrow> e_Src e \<noteq> [] \<and> e_Tgt e \<noteq> [] \<and> e_Kind e \<in> set validEdgeKinds
     \<and> e_ID e = edgeID (e_Src e) (e_Kind e) (e_Tgt e)
     \<and> Unresolved \<le> e_Confidence e \<and> e_Confidence e \<le> Definite
     \<and> (e_Resolved e \<longleftrightarrow> e_Confidence e \<noteq> Unresolved)"

interpretation edge_builder: option_builder edge_option edge_wf
proof unfold_locales
  show "edge_wf y" if "edge_option opt" "edge_wf x" "opt x = Inr y" for opt x y
    using that by (induction rule: edge_option.induct)
      (auto simp: edge_option_defs edge_wf_def confidence_defs split: if_splits)
qed

lemma NewEdge_edge_wf:
  assumes "list_all edge_option opts" and "NewEdge spec opts = Inr e"
  shows "edge_wf e"
proof -
  have "apply_opts opts (blank_edge spec) = Inr e" and "edge_wf (blank_edge spec)"
    using assms(2) by (auto simp: NewEdge_def edge_wf_def blank_edge_def confidence_defs
        split: if_splits)
  then show ?thesis using edge_builder.build_keeps [OF assms(1)] by blast
qed

inductive node_option :: "NodeOption \<Rightarrow> bool" where
  "node_option (WithSignature s)"
| "node_option (WithLines lr)"
| "node_option (WithRawContent raw)"
| "node_option (WithContentHash h)"
| "node_option (WithStructuralHash h)"
| "node_option (WithLanguage l)"
| "node_option (WithExported b)"
| "node_option (WithExternal b)"
| "node_option (WithShortSummary s)"

lemmas node_option_defs = WithSignature_def WithLines_def WithRawContent_def WithContentHash_def
  WithStructuralHash_def WithLanguage_def WithExported_def WithExternal_def WithShortSummary_def
  validateHashMatchesContent_def

definition node_draft :: "Node \<Rightarrow> bool" where
  "node_draft n \<longleftrightarrow> n_ID n \<noteq> [] \<and> n_Path n \<noteq> [] \<and> n_Name n \<noteq> [] \<and> n_Kind n \<in> set validNodeKinds
     \<and> (\<forall>raw h. n_RawContent n = Some raw \<longrightarrow> n_ContentHash n = Some h \<longrightarrow> h = sha256_hex raw)
     \<and> (\<forall>lr. n_Lines n = Some lr \<longrightarrow> 1 \<le> lr_Start lr \<and> lr_Start lr \<le> lr_End lr)
     \<and> (\<forall>s. n_ShortSummary n = Some s \<longrightarrow> RuneCountInString s \<le> MaxShortSummaryRunes)"

interpretation node_builder: option_builder node_option node_draft
proof unfold_locales
  show "node_draft y" if "node_option opt" "node_draft x" "opt x = Inr y" for opt x y
    using that by (induction rule: node_option.induct)
      (auto simp: node_option_defs node_draft_def Let_def split: if_splits option.splits)
qed

text \<open>In a finished node the content hash is the digest of the raw content.\<close>

definition node_wf :: "Node \<Rightarrow> bool" where
  "node_wf n \<longleftrightarrow> node_draft n \<and>
     (\<forall>raw. n_RawContent n = Some raw \<longrightarrow> n_ContentHash n = Some (sha256_hex raw))"

lemma NewNode_node_wf:
  assumes "list_all node_option opts" and "NewNode spec opts = Inr n"
  shows "node_wf n"
proof -
  obtain d where d: "apply_opts opts (blank_node spec) = Inr d"
    and fin: "n = (case (n_RawContent d, n_ContentHash d) of
             (Some raw, None) \<Rightarrow> d\<lparr>n_ContentHash := Some (sha256_hex raw)\<rparr> | _ \<Rightarrow> d)"
    using assms(2) by (auto simp: NewNode_def split: if_splits sum.splits option.splits)
  have "node_draft (blank_node spec)"
    using assms(2) by (simp add: NewNode_def node_draft_def blank_node_def split: if_splits)
  then have "node_draft d" using node_builder.build_keeps [OF assms(1) _ d] by blast
  then show ?thesis
    by (auto simp: fin node_wf_def node_draft_def split: option.splits)
qed

section \<open>Clipping to a number of runes\<close>

lemma TruncateRunes_count: "RuneCountInString (TruncateRunes s k) \<le> k"
proof (cases "RuneCountInString s \<le> k")
  case True
  then show ?thesis by (simp add: TruncateRunes_def)
next
  case False
  have "runes (bytes_of (string_of_runes (take k (runes (bytes_of s))))) = take k (runes (bytes_of s))"
    by (rule runes_string_of_runes) (auto dest: in_set_takeD intro: runes_valid)
  then show ?thesis using False by (simp add: TruncateRunes_def RuneCountInString_def)
qed

lemma TruncateRunes_exact:
  "k \<le> RuneCountInString s \<Longrightarrow> runes (bytes_of (TruncateRunes s k)) = take k (runes (bytes_of s))"
proof (cases "RuneCountInString s \<le> k")
  case False
  have "runes (bytes_of (string_of_runes (take k (runes (bytes_of s))))) = take k (runes (bytes_of s))"
    by (rule runes_string_of_runes) (auto dest: in_set_takeD intro: runes_valid)
  then show ?thesis using False by (simp add: TruncateRunes_def)
qed (simp add: TruncateRunes_def RuneCountInString_def)

section \<open>The graph invariant\<close>

text \<open>
  Every edge stored under a node has that node as its endpoint, both endpoints are nodes of
  the graph, and the two adjacency maps list the same edges between two nodes in the same
  order.
\<close>

definition graph_inv :: "Graph \<Rightarrow> bool" where
  "graph_inv g \<longleftrightarrow> gm_wf (g_nodes g) \<and> (\<forall>k n. (k, n) \<in> set (g_nodes g) \<longrightarrow> n_ID n = k)
     \<and> (\<forall>s. \<forall>e \<in> set (OutgoingEdges g s). e_Src e = s \<and> Graph_Node g s \<noteq> None \<and> Graph_Node g (e_Tgt e) \<noteq> None)
     \<and> (\<forall>t. \<forall>e \<in> set (IncomingEdges g t). e_Tgt e = t \<and> Graph_Node g t \<noteq> None \<and> Graph_Node g (e_Src e) \<noteq> None)
     \<and> (\<forall>s t. filter (\<lambda>e. e_Tgt e = t) (OutgoingEdges g s) = filter (\<lambda>e. e_Src e = s) (IncomingEdges g t))"

lemma graph_inv_NewGraph: "NewGraph r b = Inr g \<Longrightarrow> graph_inv g"
  by (auto simp: NewGraph_def graph_inv_def OutgoingEdges_def IncomingEdges_def split: if_splits)

lemma set_gm_put_fresh: "map_of m k = None \<Longrightarrow> set (gm_put k v m) = insert (k, v) (set m)"
  by (induction m) (auto simp: gm_put_def split: if_splits)

lemma graph_inv_AddNode:
  assumes "graph_inv g" and "AddNode g np = Inr h"
  shows "graph_inv h"
proof -
  obtain n where n: "np = Some n" "map_of (g_nodes g) (n_ID n) = None"
    and h: "h = g\<lparr>g_nodes := gm_put (n_ID n) n (g_nodes g)\<rparr>"
    using assms(2) by (auto simp: AddNode_def split: option.splits if_splits)
  have out: "OutgoingEdges h = OutgoingEdges g" "IncomingEdges h = IncomingEdges g"
    by (simp_all add: h OutgoingEdges_def IncomingEdges_def fun_eq_iff)
  have nodes: "Graph_Node h = (Graph_Node g)(n_ID n \<mapsto> n)"
    by (simp add: h Graph_Node_def fun_eq_iff gm.get_put)
  have "gm_wf (g_nodes h)" "\<forall>k m. (k, m) \<in> set (g_nodes h) \<longrightarrow> n_ID m = k"
    using assms(1) n by (auto simp: h graph_inv_def gomap_simps set_gm_put_fresh)
  then show ?thesis
    using assms(1) unfolding graph_inv_def out nodes by auto
qed

lemma OutgoingEdges_AddEdge:
  assumes "AddEdge g (Some e) = Inr h"
  shows "OutgoingEdges h s = OutgoingEdges g s @ (if s = e_Src e then [e] else [])"
    and "IncomingEdges h t = IncomingEdges g t @ (if t = e_Tgt e then [e] else [])"
    and "Graph_Node h = Graph_Node g" and "g_nodes h = g_nodes g"
    and "Graph_Node g (e_Src e) \<noteq> None" and "Graph_Node g (e_Tgt e) \<noteq> None"
  using assms
  by (auto simp: AddEdge_def OutgoingEdges_def IncomingEdges_def push_edge_def Graph_Node_def
      fun_eq_iff split: if_splits option.splits)

lemma graph_inv_AddEdge:
  assumes "graph_inv g" and "AddEdge g ep = Inr h"
  shows "graph_inv h"
proof -
  obtain e where e: "ep = Some e" using assms(2) by (auto simp: AddEdge_def split: option.splits)
  note upd = OutgoingEdges_AddEdge [OF assms(2) [unfolded e]]
  have dual: "filter (\<lambda>d. e_Tgt d = t) (OutgoingEdges h s) = filter (\<lambda>d. e_Src d = s) (IncomingEdges h t)"
    for s t using assms(1) unfolding graph_inv_def by (auto simp: upd(1,2))
  have out: "\<forall>d \<in> set (OutgoingEdges h s). e_Src d = s \<and> Graph_Node h s \<noteq> None \<and> Graph_Node h (e_Tgt d) \<noteq> None"
    for s using assms(1) upd(5,6) unfolding graph_inv_def by (auto simp: upd(1,3))
  have inc: "\<forall>d \<in> set (IncomingEdges h t). e_Tgt d = t \<and> Graph_Node h t \<noteq> None \<and> Graph_Node h (e_Src d) \<noteq> None"
    for t using assms(1) upd(5,6) unfolding graph_inv_def by (auto simp: upd(2,3))
  show ?thesis
    using assms(1) dual out inc unfolding graph_inv_def upd(4) by blast
qed

text \<open>A projection built by the code: a new graph and a sequence of successful additions.\<close>

inductive built_graph :: "Graph \<Rightarrow> bool" where
  new: "NewGraph r b = Inr g \<Longrightarrow> built_graph g"
| add_node: "built_graph g \<Longrightarrow> AddNode g np = Inr h \<Longrightarrow> built_graph h"
| add_edge: "built_graph g \<Longrightarrow> AddEdge g ep = Inr h \<Longrightarrow> built_graph h"

lemma built_graph_inv: "built_graph g \<Longrightarrow> graph_inv g"
  by (induction rule: built_graph.induct)
    (blast intro: graph_inv_NewGraph graph_inv_AddNode graph_inv_AddEdge)+

lemma Nodes_sorted: "sorted (map n_ID (Nodes g))"
  by (simp add: Nodes_def)

lemma graph_inv_nodes:
  "graph_inv g \<Longrightarrow> gm_wf (g_nodes g) \<and> (\<forall>(k, n) \<in> set (g_nodes g). n_ID n = k)"
  by (auto simp: graph_inv_def)

lemma Nodes_distinct:
  assumes "graph_inv g"
  shows "distinct (map n_ID (Nodes g))"
proof -
  have "map n_ID (map snd (g_nodes g)) = map fst (g_nodes g)"
    using graph_inv_nodes [OF assms] by auto
  then have "distinct (map n_ID (map snd (g_nodes g)))"
    using graph_inv_nodes [OF assms] unfolding gm_wf_def by (metis)
  moreover have "mset (map n_ID (Nodes g)) = mset (map n_ID (map snd (g_nodes g)))"
    unfolding Nodes_def by (simp add: multiset.map_comp)
  ultimately show ?thesis using mset_eq_imp_distinct_iff by blast
qed

lemma set_Nodes:
  assumes "graph_inv g"
  shows "n \<in> set (Nodes g) \<longleftrightarrow> Graph_Node g (n_ID n) = Some n"
proof -
  note inv = graph_inv_nodes [OF assms]
  have "n \<in> set (Nodes g) \<longleftrightarrow> (\<exists>k. (k, n) \<in> set (g_nodes g))"
    by (force simp: Nodes_def)
  also have "\<dots> \<longleftrightarrow> (n_ID n, n) \<in> set (g_nodes g)" using inv by auto
  also have "\<dots> \<longleftrightarrow> Graph_Node g (n_ID n) = Some n"
    using inv by (simp add: Graph_Node_def gm_get_iff)
  finally show ?thesis .
qed

section \<open>Properties\<close>

text \<open>
  A node that \<open>NewNode\<close> returns carries a content hash that matches its raw content: present
  whenever the raw content is, and equal to its SHA-256 digest, in whatever order the options
  set the two; its line range is ordered and its summary within the rune limit.
\<close>

theorem new_node_integrity:
  assumes "list_all node_option opts" and "NewNode spec opts = Inr n"
  shows "(\<forall>raw. n_RawContent n = Some raw \<longrightarrow> n_ContentHash n = Some (sha256_hex raw))
    \<and> (\<forall>lr. n_Lines n = Some lr \<longrightarrow> 1 \<le> lr_Start lr \<and> lr_Start lr \<le> lr_End lr)
    \<and> (\<forall>s. n_ShortSummary n = Some s \<longrightarrow> RuneCountInString s \<le> MaxShortSummaryRunes)
    \<and> n_ID n \<noteq> [] \<and> n_Path n \<noteq> [] \<and> n_Name n \<noteq> [] \<and> n_Kind n \<in> set validNodeKinds"
  using NewNode_node_wf [OF assms] unfolding node_wf_def node_draft_def by blast

definition sample_node :: Node where
  "sample_node = (blank_node \<lparr>ns_ID = ''n1'', ns_Path = ''a.go'', ns_Name = ''f'', ns_Kind = KindFunction\<rparr>)
     \<lparr>n_RawContent := Some ''x'', n_ContentHash := Some (sha256_hex ''x'')\<rparr>"

theorem new_node_integrity_witness:
  "n_ContentHash sample_node = Some (sha256_hex ''x'') \<and> n_RawContent sample_node = Some ''x''"
proof -
  have "NewNode \<lparr>ns_ID = ''n1'', ns_Path = ''a.go'', ns_Name = ''f'', ns_Kind = KindFunction\<rparr> [WithRawContent ''x'']
      = Inr sample_node"
    by (simp add: NewNode_def WithRawContent_def blank_node_def sample_node_def validNodeKinds_def)
  moreover have "list_all node_option [WithRawContent ''x'']" by (simp add: node_option.intros)
  ultimately show ?thesis using new_node_integrity [of "[WithRawContent ''x'']"]
    by (simp add: sample_node_def blank_node_def)
qed

text \<open>
  \<open>TruncateRunes\<close> never yields more than the limit, keeps a string within the limit as it is,
  and otherwise decodes to exactly the first runes of the input, so a multi-byte rune is never
  cut in half.
\<close>

theorem truncate_runes_correct:
  "RuneCountInString (TruncateRunes s k) \<le> k
   \<and> (RuneCountInString s \<le> k \<longrightarrow> TruncateRunes s k = s)
   \<and> (k \<le> RuneCountInString s \<longrightarrow> runes (bytes_of (TruncateRunes s k)) = take k (runes (bytes_of s)))"
  using TruncateRunes_count TruncateRunes_exact by (auto simp: TruncateRunes_def)

theorem truncate_runes_correct_witness: "TruncateRunes ''ab'' 5 = ''ab''"
proof -
  have "RuneCountInString ''ab'' \<le> 5" by code_simp
  then show ?thesis using truncate_runes_correct [of "''ab''" 5] by blast
qed

text \<open>
  In every graph built by \<open>NewGraph\<close>, \<open>AddNode\<close> and \<open>AddEdge\<close> the two adjacency maps agree:
  the edges from \<open>s\<close> to \<open>t\<close> are the same in both and in the same order, every stored edge joins
  two nodes of the graph, and \<open>Nodes\<close> lists each node once, ordered by identifier.
\<close>

theorem built_graph_consistent:
  assumes "built_graph g"
  shows "filter (\<lambda>e. e_Tgt e = t) (OutgoingEdges g s) = filter (\<lambda>e. e_Src e = s) (IncomingEdges g t)
    \<and> (\<forall>e \<in> set (OutgoingEdges g s). e_Src e = s \<and> Graph_Node g s \<noteq> None \<and> Graph_Node g (e_Tgt e) \<noteq> None)
    \<and> sorted (map n_ID (Nodes g)) \<and> distinct (map n_ID (Nodes g))
    \<and> (n \<in> set (Nodes g) \<longleftrightarrow> Graph_Node g (n_ID n) = Some n)"
proof -
  have inv: "graph_inv g" using assms by (rule built_graph_inv)
  then have "filter (\<lambda>e. e_Tgt e = t) (OutgoingEdges g s) = filter (\<lambda>e. e_Src e = s) (IncomingEdges g t)"
    and "\<forall>e \<in> set (OutgoingEdges g s). e_Src e = s \<and> Graph_Node g s \<noteq> None \<and> Graph_Node g (e_Tgt e) \<noteq> None"
    unfolding graph_inv_def by blast+
  then show ?thesis using inv Nodes_sorted Nodes_distinct set_Nodes by blast
qed

definition sample_graph :: Graph where
  "sample_graph = \<lparr>g_RepoID = ''r'', g_Branch = ''main'', g_nodes = [(''n1'', sample_node)],
     g_outgoing = Map.empty, g_incoming = Map.empty\<rparr>"

theorem built_graph_consistent_witness:
  "distinct (map n_ID (Nodes sample_graph)) \<and> Graph_Node sample_graph ''n1'' = Some sample_node"
proof -
  obtain g where g: "NewGraph ''r'' ''main'' = Inr g" "AddNode g (Some sample_node) = Inr sample_graph"
    by (auto simp: NewGraph_def AddNode_def sample_graph_def sample_node_def blank_node_def gm_put_def)
  then have "built_graph sample_graph" by (blast intro: built_graph.intros)
  then show ?thesis using built_graph_consistent [of sample_graph]
    by (simp add: Graph_Node_def sample_graph_def)
qed

end
