(* ===== verification/Staging.thy ===== *)
theory Staging
  imports Domain_Node
begin

text \<open>
  \<open>internal/application/staging\<close>: the in-memory overlay of parse results that are staged but
  not promoted, and the gate that guards it with a 64-bit generation counter. The overlay is
  a map keyed by repository, branch and file. The locale \<open>staged_overlay\<close> states what the
  ingester, the promoter and the diff gate rely on; it is interpreted on the area.
\<close>

section \<open>The area\<close>

record key =
  k_repoID :: string
  k_branch :: string
  k_filePath :: string

record entry =
  en_nodes :: "Node option list"
  en_edges :: "Edge option list"
  en_unresolved :: "UnresolvedCall list"
  en_imports :: "(string, string) gomap"

record File =
  sf_Nodes :: "Node option list"
  sf_Edges :: "Edge option list"
  sf_UnresolvedCalls :: "UnresolvedCall list"
  sf_Imports :: "(string, string) gomap"

record Area =
  ar_entries :: "(key, entry) gomap"

definition mk_key :: "string \<Rightarrow> string \<Rightarrow> string \<Rightarrow> key" where
  "mk_key r b p = \<lparr>k_repoID = r, k_branch = b, k_filePath = p\<rparr>"

definition NewArea :: Area where
  "NewArea = \<lparr>ar_entries = []\<rparr>"

text \<open>The zero value \<open>staging.File{}\<close>.\<close>

definition empty_file :: File where
  "empty_file = \<lparr>sf_Nodes = [], sf_Edges = [], sf_UnresolvedCalls = [], sf_Imports = []\<rparr>"

section \<open>The gate\<close>

record Gate =
  gt_gen :: "64 word"
  gt_paused :: bool

definition NewGate :: Gate where
  "NewGate = \<lparr>gt_gen = 0, gt_paused = False\<rparr>"

definition Generation :: "Gate \<Rightarrow> 64 word" where
  "Generation g = gt_gen g"

definition BumpGeneration :: "Gate \<Rightarrow> Gate" where
  "BumpGeneration g = g\<lparr>gt_gen := gt_gen g + 1\<rparr>"

definition IsPaused :: "Gate \<Rightarrow> bool" where
  "IsPaused g = gt_paused g"

definition Pause :: "Gate \<Rightarrow> Gate" where
  "Pause g = g\<lparr>gt_paused := True\<rparr>"

definition Resume :: "Gate \<Rightarrow> Gate" where
  "Resume g = g\<lparr>gt_paused := False\<rparr>"

section \<open>Operations of the area\<close>

text \<open>
  The options of a \<open>Stage\<close> call. The guard refers to a gate; the model passes the state the
  gate has when the call reads its generation.
\<close>

record config =
  cf_guard :: bool
  cf_gen :: "64 word"
  cf_gate :: Gate

type_synonym Option = "config \<Rightarrow> config"

definition WithGenerationGuard :: "64 word \<Rightarrow> Gate \<Rightarrow> Option" where
  "WithGenerationGuard gen gate c = c\<lparr>cf_guard := True, cf_gen := gen, cf_gate := gate\<rparr>"

definition zero_config :: config where
  "zero_config = \<lparr>cf_guard = False, cf_gen = 0, cf_gate = NewGate\<rparr>"

definition entry_of :: "File \<Rightarrow> entry" where
  "entry_of f = \<lparr>en_nodes = sf_Nodes f, en_edges = sf_Edges f,
                 en_unresolved = sf_UnresolvedCalls f, en_imports = sf_Imports f\<rparr>"

definition Stage :: "Area \<Rightarrow> string \<Rightarrow> string \<Rightarrow> string \<Rightarrow> File \<Rightarrow> Option list \<Rightarrow> Area \<times> bool" where
  "Stage s repoID branch filePath f opts =
     (let cfg = foldl (\<lambda>c opt. opt c) zero_config opts
      in if cf_guard cfg \<and> cf_gen cfg \<noteq> Generation (cf_gate cfg) then (s, False)
         else (s\<lparr>ar_entries := gm_put (mk_key repoID branch filePath) (entry_of f) (ar_entries s)\<rparr>, True))"

definition GetStagedNodes :: "Area \<Rightarrow> string \<Rightarrow> string \<Rightarrow> string \<Rightarrow> Node option list option" where
  "GetStagedNodes s r b p =
     (case map_of (ar_entries s) (mk_key r b p) of None \<Rightarrow> None | Some e \<Rightarrow> Some (en_nodes e))"

definition GetStagedEdges :: "Area \<Rightarrow> string \<Rightarrow> string \<Rightarrow> string \<Rightarrow> Edge option list option" where
  "GetStagedEdges s r b p =
     (case map_of (ar_entries s) (mk_key r b p) of None \<Rightarrow> None | Some e \<Rightarrow> Some (en_edges e))"

definition DeleteStagedFile :: "Area \<Rightarrow> string \<Rightarrow> string \<Rightarrow> string \<Rightarrow> Area" where
  "DeleteStagedFile s r b p = s\<lparr>ar_entries := gm_del (mk_key r b p) (ar_entries s)\<rparr>"

definition in_scope :: "string \<Rightarrow> string \<Rightarrow> key \<Rightarrow> bool" where
  "in_scope r b k \<longleftrightarrow> k_repoID k = r \<and> k_branch k = b"

definition StagedFiles :: "Area \<Rightarrow> string \<Rightarrow> string \<Rightarrow> string list" where
  "StagedFiles s r b = map (\<lambda>(k, e). k_filePath k) (filter (\<lambda>(k, e). in_scope r b k) (ar_entries s))"

definition Clear :: "Area \<Rightarrow> string \<Rightarrow> string \<Rightarrow> Area" where
  "Clear s r b = s\<lparr>ar_entries := filter (\<lambda>(k, e). \<not> in_scope r b k) (ar_entries s)\<rparr>"

definition file_of :: "entry \<Rightarrow> File" where
  "file_of e = \<lparr>sf_Nodes = en_nodes e, sf_Edges = en_edges e,
                sf_UnresolvedCalls = en_unresolved e, sf_Imports = en_imports e\<rparr>"

definition Snapshot :: "Area \<Rightarrow> string \<Rightarrow> string \<Rightarrow> (string, File) gomap" where
  "Snapshot s r b = map (\<lambda>(k, e). (k_filePath k, file_of e))
     (filter (\<lambda>(k, e). in_scope r b k) (ar_entries s))"

text \<open>
  How the drain callback of a branch switch ends: it returns an optional error, or panics;
  the deferred \<open>Resume\<close> runs in both cases.
\<close>

datatype drain_outcome = Returns "err option" | Panics string

definition BranchSwitch ::
  "Area \<Rightarrow> Gate \<Rightarrow> string \<Rightarrow> string \<Rightarrow> (Area \<Rightarrow> Gate \<Rightarrow> drain_outcome) \<Rightarrow> Area \<times> Gate \<times> drain_outcome" where
  "BranchSwitch s g repoID prevBranch drainFn =
     (let g1 = BumpGeneration g;
          g2 = Pause g1;
          s1 = Clear s repoID prevBranch;
          out = drainFn s1 g2
      in (s1, Resume g2, out))"

section \<open>What the overlay promises\<close>

locale staged_overlay =
  fixes get :: "'a \<Rightarrow> key \<Rightarrow> entry option"
    and put :: "'a \<Rightarrow> key \<Rightarrow> entry \<Rightarrow> 'a"
    and drop_file :: "'a \<Rightarrow> key \<Rightarrow> 'a"
    and clear :: "'a \<Rightarrow> string \<Rightarrow> string \<Rightarrow> 'a"
    and snap :: "'a \<Rightarrow> string \<Rightarrow> string \<Rightarrow> (string, File) gomap"
    and wf :: "'a \<Rightarrow> bool"
  assumes get_put: "get (put a k e) = (get a)(k \<mapsto> e)"
    and get_drop: "get (drop_file a k) = (get a)(k := None)"
    and get_clear: "wf a \<Longrightarrow> get (clear a r b) k = (if in_scope r b k then None else get a k)"
    and get_snap: "wf a \<Longrightarrow> map_of (snap a r b) p = map_option file_of (get a (mk_key r b p))"
    and wf_snap: "wf a \<Longrightarrow> gm_wf (snap a r b)"
    and wf_put: "wf a \<Longrightarrow> wf (put a k e)"
    and wf_drop: "wf a \<Longrightarrow> wf (drop_file a k)"
    and wf_clear: "wf a \<Longrightarrow> wf (clear a r b)"
begin

lemma snap_put:
  "wf a \<Longrightarrow> map_of (snap (put a (mk_key r b p) e) r b) = (map_of (snap a r b))(p \<mapsto> file_of e)"
  by (auto simp: fun_eq_iff get_snap wf_put get_put mk_key_def)

lemma snap_put_other:
  "wf a \<Longrightarrow> \<not> in_scope r b k \<Longrightarrow> map_of (snap (put a k e) r b) = map_of (snap a r b)"
  by (auto simp: fun_eq_iff get_snap wf_put get_put in_scope_def mk_key_def)

lemma snap_drop:
  "wf a \<Longrightarrow> map_of (snap (drop_file a (mk_key r b p)) r b) = (map_of (snap a r b))(p := None)"
  by (auto simp: fun_eq_iff get_snap wf_drop get_drop mk_key_def)

lemma snap_clear_same: "wf a \<Longrightarrow> snap (clear a r b) r b = []"
proof -
  assume wf: "wf a"
  then have "map_of (snap (clear a r b) r b) = Map.empty"
    by (auto simp: fun_eq_iff get_snap wf_clear get_clear in_scope_def mk_key_def)
  then show ?thesis by (metis map_of_eq_empty_iff)
qed

text \<open>Deleting a list of files removes exactly those files of the scope.\<close>

lemma wf_drop_list: "wf a \<Longrightarrow> wf (foldl (\<lambda>a p. drop_file a (mk_key r b p)) a ps)"
  by (induction ps arbitrary: a) (auto intro: wf_drop)

lemma get_drop_list:
  "get (foldl (\<lambda>a p. drop_file a (mk_key r b p)) a ps) k =
     (if in_scope r b k \<and> k_filePath k \<in> set ps then None else get a k)"
  by (induction ps arbitrary: a) (auto simp: get_drop mk_key_def in_scope_def)

lemma drop_snapshot:
  assumes "wf a"
  shows "get (foldl (\<lambda>a p. drop_file a (mk_key r b p)) a (map fst (snap a r b))) k =
     (if in_scope r b k then None else get a k)"
proof -
  have "k_filePath k \<in> fst ` set (snap a r b)" if "in_scope r b k" "get a k \<noteq> None"
  proof -
    have "k = mk_key r b (k_filePath k)" using that(1) by (cases k) (simp add: mk_key_def in_scope_def)
    then have "map_of (snap a r b) (k_filePath k) \<noteq> None"
      using assms that(2) by (simp add: get_snap)
    then show ?thesis by (simp add: map_of_eq_None_iff)
  qed
  then show ?thesis by (cases "get a k") (auto simp: get_drop_list)
qed

end

definition area_wf :: "Area \<Rightarrow> bool" where
  "area_wf a \<longleftrightarrow> gm_wf (ar_entries a)"

definition area_get :: "Area \<Rightarrow> key \<Rightarrow> entry option" where
  "area_get a k = map_of (ar_entries a) k"

definition area_put :: "Area \<Rightarrow> key \<Rightarrow> entry \<Rightarrow> Area" where
  "area_put a k e = a\<lparr>ar_entries := gm_put k e (ar_entries a)\<rparr>"

definition area_drop :: "Area \<Rightarrow> key \<Rightarrow> Area" where
  "area_drop a k = DeleteStagedFile a (k_repoID k) (k_branch k) (k_filePath k)"

lemma mk_key_sel [simp]: "k_repoID (mk_key r b p) = r" "k_branch (mk_key r b p) = b"
  "k_filePath (mk_key r b p) = p" "mk_key (k_repoID k) (k_branch k) (k_filePath k) = k"
  by (simp_all add: mk_key_def)

lemma mk_key_inj [simp]: "mk_key r b p = mk_key r' b' p' \<longleftrightarrow> r = r' \<and> b = b' \<and> p = p'"
  by (simp add: mk_key_def)

lemma mk_key_eq_iff: "mk_key r b p = k \<longleftrightarrow> k_repoID k = r \<and> k_branch k = b \<and> k_filePath k = p"
  by (cases k) (auto simp: mk_key_def)

lemma in_scope_mk_key [simp]: "in_scope r b (mk_key r' b' p) \<longleftrightarrow> r' = r \<and> b' = b"
  by (simp add: in_scope_def)

lemma in_scope_key: "in_scope r b k \<Longrightarrow> k = mk_key r b (k_filePath k)"
  by (cases k) (simp add: in_scope_def mk_key_def)

lemma in_scope_filePath_inj: "in_scope r b k \<Longrightarrow> in_scope r b l \<Longrightarrow> k_filePath k = k_filePath l \<Longrightarrow> k = l"
  by (metis in_scope_key)

lemma Snapshot_wf:
  assumes "area_wf a"
  shows "gm_wf (Snapshot a r b)"
proof -
  define es where "es = filter (\<lambda>(k, e). in_scope r b k) (ar_entries a)"
  have d: "distinct (map fst es)" using assms by (simp add: es_def area_wf_def gm_wf_def distinct_map_filter)
  have "inj_on k_filePath (set (map fst es))"
    by (rule inj_onI) (auto simp: es_def intro: in_scope_filePath_inj)
  then have "distinct (map k_filePath (map fst es))" using d by (simp only: distinct_map)
  moreover have "map fst (Snapshot a r b) = map k_filePath (map fst es)"
    by (auto simp: Snapshot_def es_def)
  ultimately show ?thesis by (simp add: gm_wf_def)
qed

lemma Snapshot_get:
  assumes "area_wf a"
  shows "map_of (Snapshot a r b) p = map_option file_of (area_get a (mk_key r b p))"
proof -
  have "map_of (map (\<lambda>(k, e). (k_filePath k, file_of e)) (filter (\<lambda>(k, e). in_scope r b k) es)) p
      = map_option file_of (map_of es (mk_key r b p))" for es :: "(key, entry) gomap"
    by (induction es) (auto simp: in_scope_def mk_key_eq_iff)
  then show ?thesis by (simp add: Snapshot_def area_get_def)
qed

interpretation overlay: staged_overlay area_get area_put area_drop Clear Snapshot area_wf
proof unfold_locales
  show "area_get (area_put a k e) = (area_get a)(k \<mapsto> e)" for a k e
    by (simp add: area_get_def area_put_def fun_eq_iff gomap_simps)
  show "area_get (area_drop a k) = (area_get a)(k := None)" for a k
    by (simp add: area_get_def area_drop_def DeleteStagedFile_def fun_eq_iff gomap_simps)
  show "area_get (Clear a r b) k = (if in_scope r b k then None else area_get a k)" if "area_wf a" for a r b k
    using that by (simp add: area_get_def Clear_def area_wf_def gm_get_filter_neg)
  show "map_of (Snapshot a r b) p = map_option file_of (area_get a (mk_key r b p))" if "area_wf a" for a r b p
    using that by (rule Snapshot_get)
  show "gm_wf (Snapshot a r b)" if "area_wf a" for a r b using that by (rule Snapshot_wf)
qed (auto simp: area_wf_def area_put_def area_drop_def DeleteStagedFile_def Clear_def gomap_simps)

section \<open>Operations in terms of the overlay\<close>

lemma file_of_entry_of [simp]: "file_of (entry_of f) = f"
  by (simp add: file_of_def entry_of_def)

lemma DeleteStagedFile_drop: "DeleteStagedFile a r b p = area_drop a (mk_key r b p)"
  by (simp add: area_drop_def)

lemma area_wf_New [simp]: "area_wf NewArea"
  by (simp add: area_wf_def NewArea_def)

lemma area_get_New [simp]: "area_get NewArea k = None"
  by (simp add: area_get_def NewArea_def)

lemma Stage_unguarded: "Stage a r b p f [] = (area_put a (mk_key r b p) (entry_of f), True)"
  by (simp add: Stage_def zero_config_def area_put_def)

lemma Stage_guarded:
  "Stage a r b p f [WithGenerationGuard gen gate] =
     (if gen = Generation gate then (area_put a (mk_key r b p) (entry_of f), True) else (a, False))"
  by (simp add: Stage_def zero_config_def WithGenerationGuard_def area_put_def)

lemma Stage_wf: "area_wf a \<Longrightarrow> area_wf (fst (Stage a r b p f opts))"
  by (simp add: Stage_def Let_def area_wf_def gomap_simps)

lemma GetStagedNodes_eq: "GetStagedNodes a r b p = map_option en_nodes (area_get a (mk_key r b p))"
  by (simp add: GetStagedNodes_def area_get_def split: option.split)

lemma GetStagedEdges_eq: "GetStagedEdges a r b p = map_option en_edges (area_get a (mk_key r b p))"
  by (simp add: GetStagedEdges_def area_get_def split: option.split)

lemma StagedFiles_keys: "StagedFiles a r b = map fst (Snapshot a r b)"
  by (auto simp: StagedFiles_def Snapshot_def)

lemma StagedFiles_iff:
  assumes "area_wf a"
  shows "p \<in> set (StagedFiles a r b) \<longleftrightarrow> area_get a (mk_key r b p) \<noteq> None"
proof -
  have "p \<in> set (StagedFiles a r b) \<longleftrightarrow> map_of (Snapshot a r b) p \<noteq> None"
    by (simp add: StagedFiles_keys map_of_eq_None_iff)
  then show ?thesis using assms by (simp add: Snapshot_get)
qed

lemma StagedFiles_distinct: "area_wf a \<Longrightarrow> distinct (StagedFiles a r b)"
  using Snapshot_wf by (simp add: StagedFiles_keys gm_wf_def)

lemma BranchSwitch_eq:
  "BranchSwitch a g r b d = (Clear a r b, g\<lparr>gt_gen := gt_gen g + 1, gt_paused := False\<rparr>,
     d (Clear a r b) (g\<lparr>gt_gen := gt_gen g + 1, gt_paused := True\<rparr>))"
  by (simp add: BranchSwitch_def Let_def Pause_def Resume_def BumpGeneration_def)

section \<open>Properties\<close>

text \<open>
  C28. A branch switch always resumes the gate, however its drain callback ends, advances the
  generation, empties the previous branch and leaves every other entry alone; and a save that
  read its generation before the switch is discarded when it stages afterwards, even when the
  64-bit counter wraps.
\<close>

theorem branch_switch_discards_stale_saves:
  assumes "area_wf a"
  shows "case BranchSwitch a g r b drain of (a', g', out) \<Rightarrow>
      \<not> IsPaused g' \<and> Generation g' = Generation g + 1
      \<and> (\<forall>k. area_get a' k = (if in_scope r b k then None else area_get a k))
      \<and> (\<forall>q c p f. Stage a' q c p f [WithGenerationGuard (Generation g) g'] = (a', False))"
proof -
  have "Generation g \<noteq> Generation g + 1" by simp
  then show ?thesis
    using overlay.get_clear [OF assms, of r b]
    by (simp add: BranchSwitch_eq IsPaused_def Generation_def Stage_guarded)
qed

theorem branch_switch_discards_stale_saves_witness:
  "case BranchSwitch NewArea NewGate ''r'' ''main'' (\<lambda>_ _. Panics ''boom'') of (a', g', out) \<Rightarrow> \<not> IsPaused g'"
  using branch_switch_discards_stale_saves [OF area_wf_New, of NewGate "''r''" "''main''" "\<lambda>_ _. Panics ''boom''"]
  by (auto split: prod.splits)

end
