(* ===== verification/Staging_Interleaving.thy ===== *)
theory Staging_Interleaving
  imports Staging
begin

text \<open>
  The gate protocol under concurrency. Savers run \<open>Ingester.save\<close> and switchers run
  \<open>Gate.BranchSwitch\<close> or the gate part of \<open>BranchReconciler.Reconcile\<close>; a step is one
  synchronised action of one goroutine. \<open>Area.Stage\<close> is two steps, because the generation is
  compared before the mutex is taken. Ghost fields count the generations, record the epoch
  at which the save behind an entry read its generation, and the epoch of the last clear of
  a branch.
\<close>

section \<open>Program counters and the system state\<close>

datatype save_pc =
    SIdle
  | SWait key \<comment> \<open>before \<open>WaitIfPaused\<close>\<close>
  | SGo key \<comment> \<open>past the wait, before reading the generation\<close>
  | SGen key "64 word" nat \<comment> \<open>holds a generation, parsing\<close>
  | SParsed key "64 word" nat File \<comment> \<open>entering \<open>Stage\<close>\<close>
  | SChecked key nat File \<comment> \<open>guard passed, mutex not yet taken\<close>
  | SDone bool

datatype switch_pc =
    WIdle
  | WBumped string string bool \<comment> \<open>after \<open>BumpGeneration\<close>; the flag: a pausing \<open>BranchSwitch\<close>\<close>
  | WPaused string string
  | WCleared bool

record sys =
  y_area :: Area
  y_gate :: Gate
  y_savers :: "nat \<Rightarrow> save_pc"
  y_switch :: "nat \<Rightarrow> switch_pc"
  y_epoch :: nat
  y_tag :: "key \<Rightarrow> nat"
  y_cleared :: "string \<Rightarrow> string \<Rightarrow> nat"

definition init_sys :: sys where
  "init_sys = \<lparr>y_area = NewArea, y_gate = NewGate, y_savers = (\<lambda>_. SIdle), y_switch = (\<lambda>_. WIdle),
     y_epoch = 0, y_tag = (\<lambda>_. 0), y_cleared = (\<lambda>_ _. 0)\<rparr>"

definition set_saver :: "nat \<Rightarrow> save_pc \<Rightarrow> sys \<Rightarrow> sys" where
  "set_saver i pc s = s\<lparr>y_savers := (y_savers s)(i := pc)\<rparr>"

definition set_switch :: "nat \<Rightarrow> switch_pc \<Rightarrow> sys \<Rightarrow> sys" where
  "set_switch j pc s = s\<lparr>y_switch := (y_switch s)(j := pc)\<rparr>"

inductive sys_step :: "sys \<Rightarrow> sys \<Rightarrow> bool" where
  save_call: "y_savers s i \<in> {SIdle, SDone ok} \<Longrightarrow> sys_step s (set_saver i (SWait k) s)"
| save_wait: "y_savers s i = SWait k \<Longrightarrow> \<not> IsPaused (y_gate s) \<Longrightarrow> sys_step s (set_saver i (SGo k) s)"
| save_gen: "y_savers s i = SGo k \<Longrightarrow>
    sys_step s (set_saver i (SGen k (Generation (y_gate s)) (y_epoch s)) s)"
| save_parsed: "y_savers s i = SGen k g e \<Longrightarrow> sys_step s (set_saver i (SParsed k g e f) s)"
| save_parse_error: "y_savers s i = SGen k g e \<Longrightarrow> sys_step s (set_saver i (SDone False) s)"
| stage_check: "y_savers s i = SParsed k g e f \<Longrightarrow> g = Generation (y_gate s) \<Longrightarrow>
    sys_step s (set_saver i (SChecked k e f) s)"
| stage_stale: "y_savers s i = SParsed k g e f \<Longrightarrow> g \<noteq> Generation (y_gate s) \<Longrightarrow>
    sys_step s (set_saver i (SDone False) s)"
| stage_write: "y_savers s i = SChecked k e f \<Longrightarrow>
    sys_step s (set_saver i (SDone True)
      (s\<lparr>y_area := area_put (y_area s) k (entry_of f), y_tag := (y_tag s)(k := e)\<rparr>))"
| switch_bump: "y_switch s j = WIdle \<Longrightarrow>
    sys_step s (set_switch j (WBumped r b pausing)
      (s\<lparr>y_gate := BumpGeneration (y_gate s), y_epoch := Suc (y_epoch s)\<rparr>))"
| switch_pause: "y_switch s j = WBumped r b True \<Longrightarrow>
    sys_step s (set_switch j (WPaused r b) (s\<lparr>y_gate := Pause (y_gate s)\<rparr>))"
| switch_clear: "y_switch s j = WPaused r b \<Longrightarrow>
    sys_step s (set_switch j (WCleared True)
      (s\<lparr>y_area := Clear (y_area s) r b, y_cleared := (y_cleared s)(r := (y_cleared s r)(b := y_epoch s))\<rparr>))"
| reconcile_clear: "y_switch s j = WBumped r b False \<Longrightarrow>
    sys_step s (set_switch j (WCleared False)
      (s\<lparr>y_area := Clear (y_area s) r b, y_cleared := (y_cleared s)(r := (y_cleared s r)(b := y_epoch s))\<rparr>))"
| switch_resume: "y_switch s j = WCleared True \<Longrightarrow>
    sys_step s (set_switch j WIdle (s\<lparr>y_gate := Resume (y_gate s)\<rparr>))"
| reconcile_done: "y_switch s j = WCleared False \<Longrightarrow> sys_step s (set_switch j WIdle s)"

inductive sys_reach :: "sys \<Rightarrow> bool" where
  init: "sys_reach init_sys"
| step: "sys_reach s \<Longrightarrow> sys_step s t \<Longrightarrow> sys_reach t"

text \<open>
  A quiet step: a clear does not happen while a saver of that branch sits between the
  generation check and the write.
\<close>

definition window_open :: "sys \<Rightarrow> string \<Rightarrow> string \<Rightarrow> bool" where
  "window_open s r b \<longleftrightarrow> (\<exists>i k e f. y_savers s i = SChecked k e f \<and> in_scope r b k)"

definition clears :: "sys \<Rightarrow> sys \<Rightarrow> string \<Rightarrow> string \<Rightarrow> bool" where
  "clears s t r b \<longleftrightarrow> (\<exists>j. (y_switch s j = WPaused r b \<or> y_switch s j = WBumped r b False)
     \<and> y_switch t j \<in> {WCleared True, WCleared False})"

definition quiet_step :: "sys \<Rightarrow> sys \<Rightarrow> bool" where
  "quiet_step s t \<longleftrightarrow> sys_step s t \<and> (\<forall>r b. clears s t r b \<longrightarrow> \<not> window_open s r b)"

inductive quiet_reach :: "sys \<Rightarrow> bool" where
  init: "quiet_reach init_sys"
| step: "quiet_reach s \<Longrightarrow> quiet_step s t \<Longrightarrow> quiet_reach t"

section \<open>The invariant of quiet runs\<close>

text \<open>What each saver's program counter knows about the epochs.\<close>

fun saver_ok :: "sys \<Rightarrow> save_pc \<Rightarrow> bool" where
  "saver_ok s (SGen k g e) \<longleftrightarrow> g = of_nat e \<and> e \<le> y_epoch s"
| "saver_ok s (SParsed k g e f) \<longleftrightarrow> g = of_nat e \<and> e \<le> y_epoch s"
| "saver_ok s (SChecked k e f) \<longleftrightarrow> e \<le> y_epoch s \<and> y_cleared s (k_repoID k) (k_branch k) \<le> e"
| "saver_ok s _ \<longleftrightarrow> True"

definition stage_inv :: "sys \<Rightarrow> bool" where
  "stage_inv s \<longleftrightarrow> area_wf (y_area s) \<and> gt_gen (y_gate s) = of_nat (y_epoch s)
     \<and> (\<forall>r b. y_cleared s r b \<le> y_epoch s) \<and> (\<forall>i. saver_ok s (y_savers s i))
     \<and> (\<forall>k. area_get (y_area s) k \<noteq> None \<longrightarrow> y_cleared s (k_repoID k) (k_branch k) \<le> y_tag s k)"

lemma stage_inv_init: "stage_inv init_sys"
  by (simp add: stage_inv_def init_sys_def NewGate_def)

lemma epoch_mono: "sys_step s t \<Longrightarrow> y_epoch s \<le> y_epoch t"
  by (induction rule: sys_step.induct) (auto simp: set_saver_def set_switch_def)

lemma of_nat_epoch_eq:
  fixes e n :: nat
  assumes "(of_nat e :: 64 word) = of_nat n" and "e \<le> n" and "n < 2 ^ 64"
  shows "e = n"
proof -
  have "unat (of_nat e :: 64 word) = e" "unat (of_nat n :: 64 word) = n"
    using assms(2,3) by (simp_all add: unat_of_nat)
  then show ?thesis by (metis assms(1))
qed

lemma saver_ok_cong:
  "y_epoch t = y_epoch s \<Longrightarrow> y_cleared t = y_cleared s \<Longrightarrow> saver_ok t pc = saver_ok s pc"
  by (cases pc) auto

lemma saver_ok_bump: "y_epoch t = Suc (y_epoch s) \<Longrightarrow> y_cleared t = y_cleared s \<Longrightarrow> saver_ok s pc \<Longrightarrow> saver_ok t pc"
  by (cases pc) auto

text \<open>Moving one saver while gate, area and epochs stay as they are.\<close>

lemma stage_inv_set_saver: "stage_inv s \<Longrightarrow> saver_ok s pc \<Longrightarrow> stage_inv (set_saver i pc s)"
proof -
  assume inv: "stage_inv s" and ok: "saver_ok s pc"
  have "saver_ok (set_saver i pc s) q = saver_ok s q" for q
    by (rule saver_ok_cong) (simp_all add: set_saver_def)
  then show ?thesis using inv ok by (auto simp: stage_inv_def set_saver_def)
qed

lemma stage_inv_set_switch: "stage_inv s \<Longrightarrow> stage_inv (set_switch j pc s)"
proof -
  assume inv: "stage_inv s"
  have "saver_ok (set_switch j pc s) q = saver_ok s q" for q
    by (rule saver_ok_cong) (simp_all add: set_switch_def)
  then show ?thesis using inv by (auto simp: stage_inv_def set_switch_def)
qed

lemma stage_inv_bump:
  assumes "stage_inv s"
  shows "stage_inv (s\<lparr>y_gate := BumpGeneration (y_gate s), y_epoch := Suc (y_epoch s)\<rparr>)"
    (is "stage_inv ?t")
proof -
  have "saver_ok ?t pc" if "saver_ok s pc" for pc
    using that by (rule saver_ok_bump [rotated 2]) simp_all
  then show ?thesis using assms by (auto simp: stage_inv_def BumpGeneration_def le_SucI)
qed

lemma stage_inv_pause_resume:
  assumes "stage_inv s"
  shows "stage_inv (s\<lparr>y_gate := Pause (y_gate s)\<rparr>)" "stage_inv (s\<lparr>y_gate := Resume (y_gate s)\<rparr>)"
proof -
  have "saver_ok (s\<lparr>y_gate := g\<rparr>) pc = saver_ok s pc" for g pc
    by (rule saver_ok_cong) simp_all
  then show "stage_inv (s\<lparr>y_gate := Pause (y_gate s)\<rparr>)" "stage_inv (s\<lparr>y_gate := Resume (y_gate s)\<rparr>)"
    using assms by (auto simp: stage_inv_def Pause_def Resume_def)
qed

lemma stage_inv_clear:
  assumes inv: "stage_inv s" and quiet: "\<not> window_open s r b"
  shows "stage_inv (s\<lparr>y_area := Clear (y_area s) r b,
      y_cleared := (y_cleared s)(r := (y_cleared s r)(b := y_epoch s))\<rparr>)" (is "stage_inv ?t")
proof -
  have sav: "saver_ok ?t (y_savers s i)" for i
  proof -
    have old: "saver_ok s (y_savers s i)" using inv by (simp add: stage_inv_def)
    show ?thesis
    proof (cases "y_savers s i")
      case (SChecked k e f)
      then have "\<not> in_scope r b k" using quiet by (auto simp: window_open_def)
      then show ?thesis using old SChecked by (auto simp: in_scope_def)
    qed (use old in auto)
  qed
  have wf: "area_wf (y_area s)" using inv by (simp add: stage_inv_def)
  have tags: "y_cleared ?t (k_repoID k) (k_branch k) \<le> y_tag s k"
    if "area_get (Clear (y_area s) r b) k \<noteq> None" for k
    using that inv wf by (auto simp: overlay.get_clear in_scope_def stage_inv_def split: if_splits)
  show ?thesis
    using inv sav tags wf by (auto simp: stage_inv_def overlay.wf_clear)
qed

lemma stage_inv_write:
  assumes inv: "stage_inv s" and pc: "y_savers s i = SChecked k e f"
  shows "stage_inv (s\<lparr>y_area := area_put (y_area s) k (entry_of f), y_tag := (y_tag s)(k := e)\<rparr>)"
    (is "stage_inv ?t")
proof -
  have "saver_ok s (y_savers s i)" using inv by (simp add: stage_inv_def)
  then have e: "y_cleared s (k_repoID k) (k_branch k) \<le> e" by (simp add: pc)
  have "saver_ok ?t q = saver_ok s q" for q by (rule saver_ok_cong) simp_all
  then show ?thesis
    using inv e by (auto simp: stage_inv_def overlay.wf_put overlay.get_put)
qed

lemma stage_inv_step:
  assumes inv: "stage_inv s" and step: "quiet_step s t" and bound: "y_epoch s < 2 ^ 64"
  shows "stage_inv t"
proof -
  have gen: "Generation (y_gate s) = of_nat (y_epoch s)"
    and clr: "\<And>r b. y_cleared s r b \<le> y_epoch s" and sav: "\<And>i. saver_ok s (y_savers s i)"
    using inv by (simp_all add: stage_inv_def Generation_def)
  have "sys_step s t" and quiet: "\<And>r b. clears s t r b \<Longrightarrow> \<not> window_open s r b"
    using step by (auto simp: quiet_step_def)
  from this(1) quiet show ?thesis
  proof (cases rule: sys_step.cases)
    case (save_gen i k)
    then show ?thesis using gen by (auto intro!: stage_inv_set_saver [OF inv])
  next
    case (save_parsed i k g e f)
    then have "saver_ok s (SGen k g e)" using sav [of i] by simp
    then show ?thesis using save_parsed by (auto intro!: stage_inv_set_saver [OF inv])
  next
    case (stage_check i k g e f)
    then have ok: "saver_ok s (SParsed k g e f)" using sav [of i] by simp
    then have "e = y_epoch s"
      using stage_check gen bound by (auto intro: of_nat_epoch_eq)
    then show ?thesis using stage_check clr by (auto intro!: stage_inv_set_saver [OF inv])
  next
    case (stage_write i k e f)
    then show ?thesis by (auto intro!: stage_inv_set_saver stage_inv_write [OF inv])
  next
    case (switch_clear j r b)
    then have "clears s t r b" by (auto simp: clears_def set_switch_def intro!: exI [of _ j])
    then show ?thesis using switch_clear quiet
      by (auto intro!: stage_inv_set_switch stage_inv_clear [OF inv])
  next
    case (reconcile_clear j r b)
    then have "clears s t r b" by (auto simp: clears_def set_switch_def intro!: exI [of _ j])
    then show ?thesis using reconcile_clear quiet
      by (auto intro!: stage_inv_set_switch stage_inv_clear [OF inv])
  qed (auto intro!: stage_inv_set_saver stage_inv_set_switch stage_inv_bump
        stage_inv_pause_resume inv)
qed

lemma quiet_reach_inv: "quiet_reach s \<Longrightarrow> y_epoch s < 2 ^ 64 \<Longrightarrow> stage_inv s"
proof (induction rule: quiet_reach.induct)
  case init
  show ?case by (rule stage_inv_init)
next
  case (step s t)
  have "y_epoch s \<le> y_epoch t" using step.hyps(2) by (simp add: quiet_step_def epoch_mono)
  then show ?case using step stage_inv_step by simp
qed

section \<open>A run through the window\<close>

text \<open>
  One saver passes the generation check, a reconcile bumps the generation and clears the
  branch, then the saver writes: the entry of the abandoned save survives the switch.
\<close>

definition race_key :: key where
  "race_key = mk_key ''r'' ''old'' ''a.go''"

definition race_before :: sys where
  "race_before = set_saver 0 (SChecked race_key 0 empty_file) init_sys"

definition race_cleared :: sys where
  "race_cleared = set_switch 0 WIdle (set_switch 0 (WCleared False)
     ((set_switch 0 (WBumped ''r'' ''old'' False)
        (race_before\<lparr>y_gate := BumpGeneration (y_gate race_before), y_epoch := 1\<rparr>))
      \<lparr>y_area := Clear NewArea ''r'' ''old'', y_cleared := (\<lambda>_ _. 0)(''r'' := (\<lambda>_. 0)(''old'' := 1))\<rparr>))"

definition race_after :: sys where
  "race_after = set_saver 0 (SDone True)
     (race_cleared\<lparr>y_area := area_put (y_area race_cleared) race_key (entry_of empty_file),
                   y_tag := (y_tag race_cleared)(race_key := 0)\<rparr>)"

lemma set_saver_twice [simp]: "set_saver i a (set_saver i b s) = set_saver i a s"
  by (simp add: set_saver_def)

lemma race_before_reach: "sys_reach race_before"
proof -
  have 1: "sys_reach (set_saver 0 (SWait race_key) init_sys)"
    by (rule sys_reach.step [OF sys_reach.init], rule save_call) (simp add: init_sys_def)
  have 2: "sys_reach (set_saver 0 (SGo race_key) init_sys)"
    using sys_reach.step [OF 1 save_wait [of _ 0 race_key]]
    by (simp add: init_sys_def NewGate_def IsPaused_def set_saver_def)
  have 3: "sys_reach (set_saver 0 (SGen race_key 0 0) init_sys)"
    using sys_reach.step [OF 2 save_gen [of _ 0 race_key]]
    by (simp add: init_sys_def NewGate_def Generation_def set_saver_def)
  have 4: "sys_reach (set_saver 0 (SParsed race_key 0 0 empty_file) init_sys)"
    using sys_reach.step [OF 3 save_parsed [of _ 0 race_key 0 0 empty_file]]
    by (simp add: init_sys_def set_saver_def)
  show ?thesis unfolding race_before_def
    using sys_reach.step [OF 4 stage_check [of _ 0 race_key 0 0 empty_file]]
    by (simp add: init_sys_def NewGate_def Generation_def set_saver_def)
qed

lemma race_cleared_reach: "sys_reach race_cleared"
proof -
  let ?bumped = "set_switch 0 (WBumped ''r'' ''old'' False)
        (race_before\<lparr>y_gate := BumpGeneration (y_gate race_before), y_epoch := 1\<rparr>)"
  let ?clr = "set_switch 0 (WCleared False)
     (?bumped\<lparr>y_area := Clear NewArea ''r'' ''old'', y_cleared := (\<lambda>_ _. 0)(''r'' := (\<lambda>_. 0)(''old'' := 1))\<rparr>)"
  have 1: "sys_reach ?bumped"
    using sys_reach.step [OF race_before_reach switch_bump [of _ 0 "''r''" "''old''" False]]
    by (simp add: race_before_def init_sys_def set_saver_def)
  have 2: "sys_reach ?clr"
    using sys_reach.step [OF 1 reconcile_clear [of _ 0 "''r''" "''old''"]]
    by (simp add: race_before_def init_sys_def set_saver_def set_switch_def)
  show ?thesis unfolding race_cleared_def
    using sys_reach.step [OF 2 reconcile_done [of _ 0]] by (simp add: set_switch_def)
qed

lemma race_after_reach: "sys_reach race_after"
  unfolding race_after_def
  by (rule sys_reach.step [OF race_cleared_reach], rule stage_write [of _ 0 race_key 0 empty_file])
    (simp add: race_cleared_def race_before_def init_sys_def set_saver_def set_switch_def)

lemma race_after_stale:
  "area_get (y_area race_after) race_key \<noteq> None" "y_tag race_after race_key = 0"
  "y_cleared race_after ''r'' ''old'' = 1" "\<forall>j. y_switch race_after j = WIdle"
  by (simp_all add: race_after_def race_cleared_def race_before_def init_sys_def set_saver_def
      set_switch_def overlay.get_put)

section \<open>Properties\<close>

text \<open>
  C27. In every run in which no clear falls between a save's generation check and its write, and
  fewer than \<open>2^64\<close> switches happen, each staged entry stems from a save that read its
  generation after the last clear of its branch: no entry of an abandoned branch survives.
\<close>

theorem quiet_runs_keep_no_stale_entry:
  assumes "quiet_reach s" and "y_epoch s < 2 ^ 64" and "area_get (y_area s) k \<noteq> None"
  shows "y_cleared s (k_repoID k) (k_branch k) \<le> y_tag s k \<and> gt_gen (y_gate s) = of_nat (y_epoch s)"
  using quiet_reach_inv [OF assms(1,2)] assms(3) by (simp add: stage_inv_def)

definition quiet_sample :: sys where
  "quiet_sample = set_saver 0 (SDone True)
     (race_before\<lparr>y_area := area_put NewArea race_key (entry_of empty_file), y_tag := (y_tag race_before)(race_key := 0)\<rparr>)"

lemma init_sys_sel [simp]: "y_savers init_sys i = SIdle" "y_switch init_sys j = WIdle"
  "y_gate init_sys = NewGate" "y_area init_sys = NewArea" "y_epoch init_sys = 0" "y_tag init_sys k = 0"
  "y_cleared init_sys r b = 0"
  by (simp_all add: init_sys_def)

lemma quiet_stepI: "sys_step s t \<Longrightarrow> (\<And>j. y_switch s j = WIdle) \<Longrightarrow> quiet_step s t"
  by (simp add: quiet_step_def clears_def)

lemma quiet_sample_reach: "quiet_reach quiet_sample"
proof -
  let ?s = "\<lambda>pc. set_saver 0 pc init_sys"
  have 1: "quiet_reach (?s (SWait race_key))"
    by (rule quiet_reach.step [OF quiet_reach.init], rule quiet_stepI, rule save_call) simp_all
  have 2: "quiet_reach (?s (SGo race_key))"
    using quiet_reach.step [OF 1 quiet_stepI [OF save_wait [of _ 0 race_key]]]
    by (simp add: NewGate_def IsPaused_def set_saver_def)
  have 3: "quiet_reach (?s (SGen race_key 0 0))"
    using quiet_reach.step [OF 2 quiet_stepI [OF save_gen [of _ 0 race_key]]]
    by (simp add: NewGate_def Generation_def set_saver_def)
  have 4: "quiet_reach (?s (SParsed race_key 0 0 empty_file))"
    using quiet_reach.step [OF 3 quiet_stepI [OF save_parsed [of _ 0 race_key 0 0 empty_file]]]
    by (simp add: set_saver_def)
  have 5: "quiet_reach race_before" unfolding race_before_def
    using quiet_reach.step [OF 4 quiet_stepI [OF stage_check [of _ 0 race_key 0 0 empty_file]]]
    by (simp add: NewGate_def Generation_def set_saver_def)
  show ?thesis
    using quiet_reach.step [OF 5 quiet_stepI [OF stage_write [of _ 0 race_key 0 empty_file]]]
    by (simp add: quiet_sample_def race_before_def set_saver_def)
qed

theorem quiet_runs_keep_no_stale_entry_witness:
  "area_get (y_area quiet_sample) race_key \<noteq> None \<and> y_cleared quiet_sample ''r'' ''old'' \<le> y_tag quiet_sample race_key"
proof -
  have "area_get (y_area quiet_sample) race_key \<noteq> None" "y_epoch quiet_sample < 2 ^ 64"
    by (simp_all add: quiet_sample_def race_before_def set_saver_def overlay.get_put)
  then show ?thesis using quiet_runs_keep_no_stale_entry [OF quiet_sample_reach, of race_key]
    by (simp add: race_key_def)
qed

text \<open>
  C37. The generation guard of \<open>Stage\<close> is compared before the mutex is taken, so it does not rule
  out every stale write: there is a run after which no switch is in progress and the area still
  holds an entry whose save read its generation before the last clear of that branch.
\<close>

theorem stage_guard_race_reachable:
  "\<exists>s k. sys_reach s \<and> (\<forall>j. y_switch s j = WIdle) \<and> area_get (y_area s) k \<noteq> None
     \<and> y_tag s k < y_cleared s (k_repoID k) (k_branch k)"
proof -
  have "y_tag race_after race_key < y_cleared race_after (k_repoID race_key) (k_branch race_key)"
    using race_after_stale(2,3) by (simp add: race_key_def)
  then show ?thesis using race_after_reach race_after_stale(1,4) by blast
qed

end
