(* ===== verification/Domain_Finding.thy ===== *)
theory Domain_Finding
  imports Hashing
begin

text \<open>
  \<open>internal/core/domain\<close>: actors, findings with their severities, layers, anchors and
  identities, the closing transition, and suppressions. Enumerations are strings in the
  source and are validated by the constructors, so they are strings here. Points in time
  are integers. The lemmas say what a constructor accepts, what an accepted value looks
  like, and what closing a finding requires.
\<close>

section \<open>Actors\<close>

type_synonym ActorKind = string

definition ActorKindHuman :: ActorKind where
  "ActorKindHuman = ''human''"

definition ActorKindAgent :: ActorKind where
  "ActorKindAgent = ''agent''"

definition ActorKindSystem :: ActorKind where
  "ActorKindSystem = ''system''"

definition validActorKinds :: "ActorKind list" where
  "validActorKinds = [ActorKindHuman, ActorKindAgent, ActorKindSystem]"

record Actor =
  a_ID :: string
  a_Kind :: ActorKind

definition NewActor :: "string \<Rightarrow> ActorKind \<Rightarrow> Actor result" where
  "NewActor aid kind =
     (if aid = [] then Inl (Errs ''actor: id must not be empty'')
      else if kind \<notin> set validActorKinds then Inl (Errs ''actor: invalid actor_kind'')
      else Inr \<lparr>a_ID = aid, a_Kind = kind\<rparr>)"

section \<open>Severities, layers and states\<close>

type_synonym SourceLayer = string
type_synonym Severity = string
type_synonym FindingState = string

definition LayerStructural :: SourceLayer where
  "LayerStructural = ''structural''"

definition LayerSemantic :: SourceLayer where
  "LayerSemantic = ''semantic''"

definition LayerSecurity :: SourceLayer where
  "LayerSecurity = ''security''"

definition LayerQuality :: SourceLayer where
  "LayerQuality = ''quality''"

definition validSourceLayers :: "SourceLayer list" where
  "validSourceLayers = [LayerStructural, LayerSemantic, LayerSecurity, LayerQuality]"

definition SourceLayer_valid :: "SourceLayer \<Rightarrow> bool" where
  "SourceLayer_valid l \<longleftrightarrow> l \<in> set validSourceLayers"

definition SeverityInfo :: Severity where
  "SeverityInfo = ''info''"

definition SeverityLow :: Severity where
  "SeverityLow = ''low''"

definition SeverityMedium :: Severity where
  "SeverityMedium = ''medium''"

definition SeverityHigh :: Severity where
  "SeverityHigh = ''high''"

definition SeverityCritical :: Severity where
  "SeverityCritical = ''critical''"

definition severityOrder :: "Severity \<rightharpoonup> int" where
  "severityOrder = map_of [(SeverityInfo, 0), (SeverityLow, 1), (SeverityMedium, 2),
     (SeverityHigh, 3), (SeverityCritical, 4)]"

definition AtLeast :: "Severity \<Rightarrow> Severity \<Rightarrow> bool" where
  "AtLeast s other =
     (case (severityOrder s, severityOrder other) of
        (Some sRank, Some oRank) \<Rightarrow> sRank \<ge> oRank
      | _ \<Rightarrow> False)"

definition Severity_valid :: "Severity \<Rightarrow> bool" where
  "Severity_valid s \<longleftrightarrow> severityOrder s \<noteq> None"

definition FindingStateOpen :: FindingState where
  "FindingStateOpen = ''open''"

definition FindingStateClosed :: FindingState where
  "FindingStateClosed = ''closed''"

lemmas layer_defs = LayerStructural_def LayerSemantic_def LayerSecurity_def LayerQuality_def
lemmas severity_defs = SeverityInfo_def SeverityLow_def SeverityMedium_def SeverityHigh_def
  SeverityCritical_def
lemmas state_defs = FindingStateOpen_def FindingStateClosed_def

lemma states_differ [simp]: "FindingStateOpen \<noteq> FindingStateClosed"
  "FindingStateClosed \<noteq> FindingStateOpen"
  by (simp_all add: state_defs)

lemma valid_kinds [simp]:
  "ActorKindHuman \<in> set validActorKinds" "ActorKindAgent \<in> set validActorKinds"
  "ActorKindSystem \<in> set validActorKinds"
  by (simp_all add: validActorKinds_def)

section \<open>Findings\<close>

record Finding =
  f_FindingID :: string
  f_RepoID :: string
  f_Branch :: string
  f_Rule :: string
  f_Message :: string
  f_Severity :: Severity
  f_SourceLayer :: SourceLayer
  f_State :: FindingState
  f_NodeID :: "string option"
  f_FilePath :: "string option"
  f_ClosedAt :: "int option"
  f_ClosedReason :: "string option"
  f_ActorID :: "string option"
  f_ActorKind :: "ActorKind option"
  f_findingKey :: string
  f_AnchorContentHash :: "string option"

type_synonym FindingOption = "Finding \<Rightarrow> Finding result"

definition WithNodeAnchor :: "string \<Rightarrow> FindingOption" where
  "WithNodeAnchor nodeID f =
     (if nodeID = [] then Inl (Errs ''finding: node_id anchor must not be empty'')
      else Inr (f\<lparr>f_NodeID := Some nodeID\<rparr>))"

definition WithFileAnchor :: "string \<Rightarrow> FindingOption" where
  "WithFileAnchor filePath f =
     (if filePath = [] then Inl (Errs ''finding: file_path anchor must not be empty'')
      else Inr (f\<lparr>f_FilePath := Some filePath\<rparr>))"

definition WithActorKind :: "ActorKind \<Rightarrow> FindingOption" where
  "WithActorKind ak f =
     (if ak \<notin> set validActorKinds then Inl (Errs ''finding: invalid actor_kind'')
      else Inr (f\<lparr>f_ActorKind := Some ak\<rparr>))"

definition WithAnchorContentHash :: "string \<Rightarrow> FindingOption" where
  "WithAnchorContentHash hash f =
     (if hash = [] then Inl (Errs ''finding: anchor_content_hash must not be empty'')
      else Inr (f\<lparr>f_AnchorContentHash := Some hash\<rparr>))"

definition WithFindingKey :: "string \<Rightarrow> FindingOption" where
  "WithFindingKey key f = Inr (f\<lparr>f_findingKey := key\<rparr>)"

definition WithActorID :: "string \<Rightarrow> FindingOption" where
  "WithActorID aid f =
     (if aid = [] then Inl (Errs ''finding: actor_id must not be empty'')
      else Inr (f\<lparr>f_ActorID := Some aid\<rparr>))"

record FindingSpec =
  fs_RepoID :: string
  fs_Branch :: string
  fs_Severity :: Severity
  fs_Layer :: SourceLayer
  fs_Rule :: string
  fs_Message :: string

definition DeriveFindingID :: "string \<Rightarrow> string \<Rightarrow> string \<Rightarrow> string" where
  "DeriveFindingID rule anchor key = take 32 (sha256_hex (nul_join3 rule anchor key))"

definition blank_finding :: "FindingSpec \<Rightarrow> Finding" where
  "blank_finding spec =
     \<lparr>f_FindingID = [], f_RepoID = fs_RepoID spec, f_Branch = fs_Branch spec,
      f_Rule = fs_Rule spec, f_Message = fs_Message spec, f_Severity = fs_Severity spec,
      f_SourceLayer = fs_Layer spec, f_State = FindingStateOpen, f_NodeID = None,
      f_FilePath = None, f_ClosedAt = None, f_ClosedReason = None, f_ActorID = None,
      f_ActorKind = None, f_findingKey = [], f_AnchorContentHash = None\<rparr>"

definition NewFinding :: "FindingSpec \<Rightarrow> FindingOption list \<Rightarrow> Finding result" where
  "NewFinding spec opts =
     (if fs_Rule spec = [] then Inl (Errs ''finding: rule must not be empty'')
      else if \<not> Severity_valid (fs_Severity spec) then Inl (Errs ''finding: invalid severity'')
      else if \<not> SourceLayer_valid (fs_Layer spec) then Inl (Errs ''finding: invalid source_layer'')
      else case apply_opts opts (blank_finding spec) of
        Inl e \<Rightarrow> Inl e
      | Inr f \<Rightarrow>
          if f_NodeID f = None \<and> f_FilePath f = None
          then Inl (Errs ''finding: an anchor (node_id or file_path) is required'')
          else let anchor = (case f_NodeID f of Some n \<Rightarrow> n
                             | None \<Rightarrow> (case f_FilePath f of Some p \<Rightarrow> p | None \<Rightarrow> []))
               in Inr (f\<lparr>f_FindingID := DeriveFindingID (fs_Rule spec) anchor (f_findingKey f)\<rparr>))"

definition Close :: "Finding \<Rightarrow> string \<Rightarrow> ActorKind \<Rightarrow> string \<Rightarrow> int \<Rightarrow> Finding result" where
  "Close f reason actorKind actorID now =
     (if f_State f = FindingStateClosed then Inl (Errs ''finding: already closed'')
      else if reason = [] then Inl (Errs ''finding: reason must not be empty'')
      else if actorID = [] then Inl (Errs ''finding: actor_id must not be empty'')
      else if actorKind \<notin> set validActorKinds then Inl (Errs ''finding: invalid actor_kind'')
      else if AtLeast (f_Severity f) SeverityHigh \<and> actorKind \<noteq> ActorKindHuman
      then Inl (Errs ''finding: severity >= high requires a human actor to close'')
      else Inr (f\<lparr>f_State := FindingStateClosed, f_ClosedAt := Some now,
                  f_ClosedReason := Some reason, f_ActorKind := Some actorKind,
                  f_ActorID := Some actorID\<rparr>))"

section \<open>Suppressions\<close>

type_synonym SuppressionScope = string

definition ScopeFinding :: SuppressionScope where
  "ScopeFinding = ''finding''"

definition ScopeSymbol :: SuppressionScope where
  "ScopeSymbol = ''symbol''"

definition ScopeFile :: SuppressionScope where
  "ScopeFile = ''file''"

definition ScopeRepo :: SuppressionScope where
  "ScopeRepo = ''repo''"

definition validSuppressionScopes :: "SuppressionScope list" where
  "validSuppressionScopes = [ScopeFinding, ScopeSymbol, ScopeFile, ScopeRepo]"

record Suppression =
  s_ID :: string
  s_Scope :: SuppressionScope
  s_Target :: string
  s_Reason :: string
  s_ActorID :: string
  s_ActorKind :: ActorKind
  s_CreatedAt :: int
  s_Rule :: "string option"
  s_ExpiresAt :: "int option"
  s_Branch :: "string option"

type_synonym SuppressionOption = "Suppression \<Rightarrow> Suppression result"

definition WithSuppressionRule :: "string \<Rightarrow> SuppressionOption" where
  "WithSuppressionRule rule s = Inr (s\<lparr>s_Rule := Some rule\<rparr>)"

definition WithExpiresAt :: "int \<Rightarrow> SuppressionOption" where
  "WithExpiresAt t s =
     (if \<not> t > s_CreatedAt s then Inl (Errs ''suppression: expires_at must be after created_at'')
      else Inr (s\<lparr>s_ExpiresAt := Some t\<rparr>))"

definition WithBranch :: "string \<Rightarrow> SuppressionOption" where
  "WithBranch branch s = Inr (s\<lparr>s_Branch := Some branch\<rparr>)"

record SuppressionSpec =
  ss_ID :: string
  ss_Scope :: SuppressionScope
  ss_Target :: string
  ss_Reason :: string
  ss_ActorID :: string
  ss_ActorKind :: ActorKind
  ss_CreatedAt :: int

definition blank_suppression :: "SuppressionSpec \<Rightarrow> Suppression" where
  "blank_suppression spec =
     \<lparr>s_ID = ss_ID spec, s_Scope = ss_Scope spec, s_Target = ss_Target spec,
      s_Reason = ss_Reason spec, s_ActorID = ss_ActorID spec, s_ActorKind = ss_ActorKind spec,
      s_CreatedAt = ss_CreatedAt spec, s_Rule = None, s_ExpiresAt = None, s_Branch = None\<rparr>"

definition NewSuppression :: "SuppressionSpec \<Rightarrow> SuppressionOption list \<Rightarrow> Suppression result" where
  "NewSuppression spec opts =
     (if ss_ID spec = [] then Inl (Errs ''suppression: id must not be empty'')
      else if ss_Target spec = [] then Inl (Errs ''suppression: target must not be empty'')
      else if ss_Reason spec = [] then Inl (Errs ''suppression: reason must not be empty'')
      else if ss_ActorID spec = [] then Inl (Errs ''suppression: actor_id must not be empty'')
      else if ss_Scope spec \<notin> set validSuppressionScopes then Inl (Errs ''suppression: invalid scope'')
      else if ss_ActorKind spec \<notin> set validActorKinds
      then Inl (Errs ''suppression: invalid actor_kind'')
      else apply_opts opts (blank_suppression spec))"

section \<open>What the constructors guarantee\<close>

text \<open>The options the package offers for findings and for suppressions.\<close>

inductive finding_option :: "FindingOption \<Rightarrow> bool" where
  "finding_option (WithNodeAnchor n)"
| "finding_option (WithFileAnchor p)"
| "finding_option (WithActorKind k)"
| "finding_option (WithAnchorContentHash h)"
| "finding_option (WithFindingKey key)"
| "finding_option (WithActorID a)"

lemmas finding_option_defs = WithNodeAnchor_def WithFileAnchor_def WithActorKind_def
  WithAnchorContentHash_def WithFindingKey_def WithActorID_def

inductive suppression_option :: "SuppressionOption \<Rightarrow> bool" where
  "suppression_option (WithSuppressionRule r)"
| "suppression_option (WithExpiresAt t)"
| "suppression_option (WithBranch b)"

lemmas suppression_option_defs = WithSuppressionRule_def WithExpiresAt_def WithBranch_def

text \<open>The object under construction: the fields of the spec are never touched by an option.\<close>

definition draft_ok :: "FindingSpec \<Rightarrow> Finding \<Rightarrow> bool" where
  "draft_ok spec f \<longleftrightarrow>
     f_RepoID f = fs_RepoID spec \<and> f_Branch f = fs_Branch spec \<and> f_Rule f = fs_Rule spec
     \<and> f_Message f = fs_Message spec \<and> f_Severity f = fs_Severity spec
     \<and> f_SourceLayer f = fs_Layer spec \<and> f_State f = FindingStateOpen
     \<and> f_ClosedAt f = None \<and> f_ClosedReason f = None
     \<and> f_NodeID f \<noteq> Some [] \<and> f_FilePath f \<noteq> Some []
     \<and> (\<forall>k. f_ActorKind f = Some k \<longrightarrow> k \<in> set validActorKinds)"

interpretation finding_builder: option_builder finding_option "draft_ok spec" for spec
proof unfold_locales
  show "draft_ok spec y" if "finding_option opt" "draft_ok spec x" "opt x = Inr y" for opt x y
    using that by (induction rule: finding_option.induct)
      (auto simp: finding_option_defs draft_ok_def split: if_splits)
qed

definition supp_wf :: "Suppression \<Rightarrow> bool" where
  "supp_wf s \<longleftrightarrow>
     s_ID s \<noteq> [] \<and> s_Target s \<noteq> [] \<and> s_Reason s \<noteq> [] \<and> s_ActorID s \<noteq> []
     \<and> s_Scope s \<in> set validSuppressionScopes \<and> s_ActorKind s \<in> set validActorKinds
     \<and> (\<forall>t. s_ExpiresAt s = Some t \<longrightarrow> s_CreatedAt s < t)"

interpretation suppression_builder: option_builder suppression_option supp_wf
proof unfold_locales
  show "supp_wf y" if "suppression_option opt" "supp_wf x" "opt x = Inr y" for opt x y
    using that by (induction rule: suppression_option.induct)
      (auto simp: suppression_option_defs supp_wf_def split: if_splits)
qed

lemma NewSuppression_Inr:
  assumes "NewSuppression spec opts = Inr s"
  shows "apply_opts opts (blank_suppression spec) = Inr s \<and> supp_wf (blank_suppression spec)"
  using assms unfolding NewSuppression_def supp_wf_def blank_suppression_def
  by (simp split: if_splits)

lemma NewSuppression_supp_wf:
  assumes "list_all suppression_option opts" and "NewSuppression spec opts = Inr s"
  shows "supp_wf s"
  using NewSuppression_Inr [OF assms(2)] suppression_builder.build_keeps [OF assms(1)] by blast

text \<open>The anchor whose identity a finding carries.\<close>

definition anchor_of :: "Finding \<Rightarrow> string" where
  "anchor_of f = (case f_NodeID f of Some n \<Rightarrow> n
                  | None \<Rightarrow> (case f_FilePath f of Some p \<Rightarrow> p | None \<Rightarrow> []))"

definition finding_wf :: "Finding \<Rightarrow> bool" where
  "finding_wf f \<longleftrightarrow>
     f_Rule f \<noteq> [] \<and> Severity_valid (f_Severity f) \<and> SourceLayer_valid (f_SourceLayer f)
     \<and> anchor_of f \<noteq> [] \<and> f_FindingID f = DeriveFindingID (f_Rule f) (anchor_of f) (f_findingKey f)
     \<and> (\<forall>k. f_ActorKind f = Some k \<longrightarrow> k \<in> set validActorKinds)
     \<and> (f_State f = FindingStateOpen \<and> f_ClosedAt f = None \<and> f_ClosedReason f = None
        \<or> f_State f = FindingStateClosed \<and> f_ClosedAt f \<noteq> None
          \<and> (\<exists>r. f_ClosedReason f = Some r \<and> r \<noteq> []) \<and> (\<exists>a. f_ActorID f = Some a \<and> a \<noteq> [])
          \<and> (\<exists>k. f_ActorKind f = Some k \<and> (AtLeast (f_Severity f) SeverityHigh \<longrightarrow> k = ActorKindHuman)))"

lemma NewFinding_Inr:
  assumes "list_all finding_option opts" and "NewFinding spec opts = Inr f"
  shows "\<exists>d. apply_opts opts (blank_finding spec) = Inr d \<and> draft_ok spec d
    \<and> (f_NodeID d \<noteq> None \<or> f_FilePath d \<noteq> None)
    \<and> f = d\<lparr>f_FindingID := DeriveFindingID (fs_Rule spec) (anchor_of d) (f_findingKey d)\<rparr>
    \<and> fs_Rule spec \<noteq> [] \<and> Severity_valid (fs_Severity spec) \<and> SourceLayer_valid (fs_Layer spec)"
proof -
  obtain d where d: "apply_opts opts (blank_finding spec) = Inr d"
    using assms(2) by (auto simp: NewFinding_def split: if_splits sum.splits)
  have "draft_ok spec (blank_finding spec)"
    by (simp add: draft_ok_def blank_finding_def)
  then have "draft_ok spec d"
    using finding_builder.build_keeps [OF assms(1) _ d] by blast
  with assms(2) d show ?thesis
    by (auto simp: NewFinding_def Let_def anchor_of_def split: if_splits)
qed

lemma NewFinding_finding_wf:
  assumes "list_all finding_option opts" and "NewFinding spec opts = Inr f"
  shows "finding_wf f"
proof -
  obtain d where d: "draft_ok spec d" "f_NodeID d \<noteq> None \<or> f_FilePath d \<noteq> None"
    "f = d\<lparr>f_FindingID := DeriveFindingID (fs_Rule spec) (anchor_of d) (f_findingKey d)\<rparr>"
    "fs_Rule spec \<noteq> []" "Severity_valid (fs_Severity spec)" "SourceLayer_valid (fs_Layer spec)"
    using NewFinding_Inr [OF assms] by blast
  have "anchor_of f = anchor_of d" "anchor_of d \<noteq> []"
    using d by (auto simp: anchor_of_def draft_ok_def split: option.splits)
  with d show ?thesis by (simp add: finding_wf_def draft_ok_def)
qed

lemma length_DeriveFindingID [simp]: "length (DeriveFindingID rule anchor key) = 32"
  by (simp add: DeriveFindingID_def)

lemma AtLeast_High_cases:
  "AtLeast s SeverityHigh \<longleftrightarrow> s = SeverityHigh \<or> s = SeverityCritical"
  by (auto simp: AtLeast_def severityOrder_def severity_defs split: if_splits)

lemma Close_Inr_iff:
  "Close f reason k aid now = Inr g \<longleftrightarrow>
     f_State f \<noteq> FindingStateClosed \<and> reason \<noteq> [] \<and> aid \<noteq> [] \<and> k \<in> set validActorKinds
     \<and> (f_Severity f \<in> {SeverityHigh, SeverityCritical} \<longrightarrow> k = ActorKindHuman)
     \<and> g = f\<lparr>f_State := FindingStateClosed, f_ClosedAt := Some now, f_ClosedReason := Some reason,
             f_ActorKind := Some k, f_ActorID := Some aid\<rparr>"
  by (auto simp: Close_def AtLeast_High_cases)

lemma Close_keeps_wf:
  assumes "finding_wf f" and "Close f reason k aid now = Inr g"
  shows "finding_wf g"
proof -
  have "anchor_of g = anchor_of f" using assms(2) by (auto simp: Close_Inr_iff anchor_of_def split: option.split)
  then show ?thesis
    using assms by (auto simp: Close_Inr_iff finding_wf_def AtLeast_High_cases)
qed

text \<open>Two drafts that agree on what options read and write: the anchors and the key.\<close>

definition same_identity :: "Finding \<Rightarrow> Finding \<Rightarrow> bool" where
  "same_identity f g \<longleftrightarrow> f_NodeID f = f_NodeID g \<and> f_FilePath f = f_FilePath g
     \<and> f_findingKey f = f_findingKey g"

lemma finding_option_parametric:
  "finding_option opt \<Longrightarrow> same_identity f g \<Longrightarrow> rel_sum (=) same_identity (opt f) (opt g)"
  by (induction rule: finding_option.induct)
    (auto simp: finding_option_defs same_identity_def)

lemma same_options_same_identity:
  assumes opts: "list_all finding_option opts"
    and f: "NewFinding spec opts = Inr f" and g: "NewFinding spec' opts = Inr g"
  shows "same_identity f g"
proof -
  obtain d where d: "apply_opts opts (blank_finding spec) = Inr d"
    "f = d\<lparr>f_FindingID := DeriveFindingID (fs_Rule spec) (anchor_of d) (f_findingKey d)\<rparr>"
    using NewFinding_Inr [OF opts f] by blast
  obtain d' where d': "apply_opts opts (blank_finding spec') = Inr d'"
    "g = d'\<lparr>f_FindingID := DeriveFindingID (fs_Rule spec') (anchor_of d') (f_findingKey d')\<rparr>"
    using NewFinding_Inr [OF opts g] by blast
  have "rel_sum (=) same_identity (apply_opts opts (blank_finding spec))
          (apply_opts opts (blank_finding spec'))"
    by (rule apply_opts_rel)
      (use opts in \<open>auto simp: list_all_iff same_identity_def blank_finding_def
         intro: finding_option_parametric\<close>)
  then show ?thesis using d d' by (simp add: same_identity_def)
qed

section \<open>Properties\<close>

text \<open>The options of a finding as data, the last one of a kind winning.\<close>

datatype finding_opt = NodeAnchor string | FileAnchor string | ActorOfKind ActorKind | ContentHashOpt string
  | KeyOpt string | ActorIDOpt string

fun opt_of :: "finding_opt \<Rightarrow> FindingOption" where
  "opt_of (NodeAnchor n) = WithNodeAnchor n"
| "opt_of (FileAnchor p) = WithFileAnchor p"
| "opt_of (ActorOfKind k) = WithActorKind k"
| "opt_of (ContentHashOpt h) = WithAnchorContentHash h"
| "opt_of (KeyOpt key) = WithFindingKey key"
| "opt_of (ActorIDOpt a) = WithActorID a"

fun opt_ok :: "finding_opt \<Rightarrow> bool" where
  "opt_ok (NodeAnchor n) \<longleftrightarrow> n \<noteq> []"
| "opt_ok (FileAnchor p) \<longleftrightarrow> p \<noteq> []"
| "opt_ok (ActorOfKind k) \<longleftrightarrow> k \<in> {ActorKindHuman, ActorKindAgent, ActorKindSystem}"
| "opt_ok (ContentHashOpt h) \<longleftrightarrow> h \<noteq> []"
| "opt_ok (KeyOpt key) \<longleftrightarrow> True"
| "opt_ok (ActorIDOpt a) \<longleftrightarrow> a \<noteq> []"


definition last_some :: "('a \<Rightarrow> 'b option) \<Rightarrow> 'a list \<Rightarrow> 'b option" where
  "last_some g os = (let hits = filter (\<lambda>x. g x \<noteq> None) os in if hits = [] then None else g (last hits))"

lemma last_some_Nil [simp]: "last_some g [] = None"
  by (simp add: last_some_def)

lemma last_some_snoc: "last_some g (os @ [x]) = (case g x of None \<Rightarrow> last_some g os | Some y \<Rightarrow> Some y)"
  by (auto simp: last_some_def Let_def split: option.splits)

lemma last_some_None: "last_some g os = None \<longleftrightarrow> (\<forall>x \<in> set os. g x = None)"
  by (induction os rule: rev_induct) (auto simp: last_some_snoc split: option.splits)

definition node_opt :: "finding_opt \<Rightarrow> string option" where
  "node_opt x = (case x of NodeAnchor n \<Rightarrow> Some n | _ \<Rightarrow> None)"

definition file_opt :: "finding_opt \<Rightarrow> string option" where
  "file_opt x = (case x of FileAnchor p \<Rightarrow> Some p | _ \<Rightarrow> None)"

definition kind_opt :: "finding_opt \<Rightarrow> ActorKind option" where
  "kind_opt x = (case x of ActorOfKind k \<Rightarrow> Some k | _ \<Rightarrow> None)"

definition hash_opt :: "finding_opt \<Rightarrow> string option" where
  "hash_opt x = (case x of ContentHashOpt h \<Rightarrow> Some h | _ \<Rightarrow> None)"

definition key_opt :: "finding_opt \<Rightarrow> string option" where
  "key_opt x = (case x of KeyOpt k \<Rightarrow> Some k | _ \<Rightarrow> None)"

definition actor_opt :: "finding_opt \<Rightarrow> string option" where
  "actor_opt x = (case x of ActorIDOpt a \<Rightarrow> Some a | _ \<Rightarrow> None)"

lemmas opt_kinds = node_opt_def file_opt_def kind_opt_def hash_opt_def key_opt_def actor_opt_def

text \<open>The draft the options make of a spec, and the finding with its identity.\<close>

definition draft_of :: "FindingSpec \<Rightarrow> finding_opt list \<Rightarrow> Finding" where
  "draft_of spec os =
     \<lparr>f_FindingID = [], f_RepoID = fs_RepoID spec, f_Branch = fs_Branch spec, f_Rule = fs_Rule spec,
      f_Message = fs_Message spec, f_Severity = fs_Severity spec, f_SourceLayer = fs_Layer spec,
      f_State = FindingStateOpen, f_NodeID = last_some node_opt os, f_FilePath = last_some file_opt os,
      f_ClosedAt = None, f_ClosedReason = None, f_ActorID = last_some actor_opt os, f_ActorKind = last_some kind_opt os,
      f_findingKey = (case last_some key_opt os of None \<Rightarrow> [] | Some k \<Rightarrow> k), f_AnchorContentHash = last_some hash_opt os\<rparr>"

definition finding_of :: "FindingSpec \<Rightarrow> finding_opt list \<Rightarrow> Finding" where
  "finding_of spec os =
     (let d = draft_of spec os in d\<lparr>f_FindingID := DeriveFindingID (fs_Rule spec) (anchor_of d) (f_findingKey d)\<rparr>)"

lemma apply_opts_snoc: "apply_opts (opts @ [opt]) x = (case apply_opts opts x of Inl e \<Rightarrow> Inl e | Inr y \<Rightarrow> opt y)"
  by (auto simp: apply_opts_append split: sum.split)

lemma apply_draft:
  "(if list_all opt_ok os then apply_opts (map opt_of os) (blank_finding spec) = Inr (draft_of spec os)
    else \<exists>e. apply_opts (map opt_of os) (blank_finding spec) = Inl e)"
proof (induction os rule: rev_induct)
  case Nil
  show ?case by (simp add: blank_finding_def draft_of_def)
next
  case (snoc x os)
  show ?case
  proof (cases "list_all opt_ok os")
    case True
    then have ok: "apply_opts (map opt_of os) (blank_finding spec) = Inr (draft_of spec os)" using snoc by simp
    show ?thesis using True unfolding map_append list.map apply_opts_snoc ok
      by (cases x) (auto simp: finding_option_defs draft_of_def last_some_snoc opt_kinds validActorKinds_def)
  next
    case False
    then obtain e where "apply_opts (map opt_of os) (blank_finding spec) = Inl e" using snoc by auto
    then show ?thesis using False unfolding map_append list.map apply_opts_snoc by simp
  qed
qed

text \<open>
  C32. The constructor accepts a finding exactly if its rule is not empty, its severity and layer are
  valid, every option is given a valid value and at least one option names an anchor. The
  finding then is open, carries every field of the spec and of the last option of each kind, has no
  closing data, and its identity is the digest of rule, anchor and key. It has exactly one anchor
  if the options name anchors of one kind only; with both kinds it has both, which the constructor
  accepts although its documentation asks for exactly one.
\<close>

theorem new_finding_exact:
  "(NewFinding spec (map opt_of os) = Inr f \<longleftrightarrow>
      fs_Rule spec \<noteq> [] \<and> Severity_valid (fs_Severity spec) \<and> SourceLayer_valid (fs_Layer spec)
      \<and> list_all opt_ok os \<and> (\<exists>x \<in> set os. node_opt x \<noteq> None \<or> file_opt x \<noteq> None)
      \<and> f = finding_of spec os)
   \<and> (f_NodeID (finding_of spec os) = None \<longleftrightarrow> (\<forall>x \<in> set os. node_opt x = None))
   \<and> (f_FilePath (finding_of spec os) = None \<longleftrightarrow> (\<forall>x \<in> set os. file_opt x = None))"
proof -
  have sel: "f_NodeID (draft_of spec os) = last_some node_opt os" "f_FilePath (draft_of spec os) = last_some file_opt os"
    by (simp_all add: draft_of_def)
  have fin: "NewFinding spec (map opt_of os) =
      (if fs_Rule spec \<noteq> [] \<and> Severity_valid (fs_Severity spec) \<and> SourceLayer_valid (fs_Layer spec) \<and> list_all opt_ok os
          \<and> (last_some node_opt os \<noteq> None \<or> last_some file_opt os \<noteq> None)
       then Inr (finding_of spec os) else NewFinding spec (map opt_of os))"
    using apply_draft [of os spec] by (auto simp: NewFinding_def finding_of_def anchor_of_def Let_def sel split: if_splits)
  have "NewFinding spec (map opt_of os) = Inr f \<Longrightarrow> fs_Rule spec \<noteq> [] \<and> Severity_valid (fs_Severity spec) \<and> SourceLayer_valid (fs_Layer spec)
      \<and> list_all opt_ok os \<and> (last_some node_opt os \<noteq> None \<or> last_some file_opt os \<noteq> None)"
    using apply_draft [of os spec] by (auto simp: NewFinding_def sel split: if_splits sum.splits)
  then have "NewFinding spec (map opt_of os) = Inr f \<longleftrightarrow> fs_Rule spec \<noteq> [] \<and> Severity_valid (fs_Severity spec)
      \<and> SourceLayer_valid (fs_Layer spec) \<and> list_all opt_ok os
      \<and> (last_some node_opt os \<noteq> None \<or> last_some file_opt os \<noteq> None) \<and> f = finding_of spec os"
    using fin by (metis sum.inject(2))
  then show ?thesis by (auto simp: last_some_None finding_of_def Let_def sel)
qed

definition sample_spec :: FindingSpec where
  "sample_spec = \<lparr>fs_RepoID = ''r'', fs_Branch = ''main'', fs_Severity = SeverityHigh,
     fs_Layer = LayerSecurity, fs_Rule = ''leak'', fs_Message = ''m''\<rparr>"

definition sample_finding :: Finding where
  "sample_finding = (blank_finding sample_spec)\<lparr>f_FilePath := Some ''a.go'', f_FindingID := DeriveFindingID ''leak'' ''a.go'' []\<rparr>"

lemma sample_finding_new: "NewFinding sample_spec [WithFileAnchor ''a.go''] = Inr sample_finding"
  by (simp add: NewFinding_def sample_spec_def sample_finding_def blank_finding_def WithFileAnchor_def
      Severity_valid_def severityOrder_def severity_defs SourceLayer_valid_def validSourceLayers_def layer_defs)

theorem new_finding_exact_witness:
  "NewFinding sample_spec [WithNodeAnchor ''n'', WithFileAnchor ''a.go''] = Inr (finding_of sample_spec [NodeAnchor ''n'', FileAnchor ''a.go''])
   \<and> f_NodeID (finding_of sample_spec [NodeAnchor ''n'', FileAnchor ''a.go'']) \<noteq> None
   \<and> f_FilePath (finding_of sample_spec [NodeAnchor ''n'', FileAnchor ''a.go'']) \<noteq> None"
proof -
  have "Severity_valid (fs_Severity sample_spec)" "SourceLayer_valid (fs_Layer sample_spec)" "fs_Rule sample_spec \<noteq> []"
    by (simp_all add: sample_spec_def Severity_valid_def severityOrder_def severity_defs SourceLayer_valid_def
        validSourceLayers_def layer_defs)
  then show ?thesis
    using new_finding_exact [of sample_spec "[NodeAnchor ''n'', FileAnchor ''a.go'']" "finding_of sample_spec [NodeAnchor ''n'', FileAnchor ''a.go'']"]
    by (simp add: node_opt_def file_opt_def)
qed









text \<open>
  The identity of a finding depends on rule, anchor and key only: the same options under two
  specs with the same rule give findings with equal identifiers, whatever repository, branch,
  severity, layer or message the specs have.
\<close>

theorem finding_identity_stable:
  assumes "list_all finding_option opts" and "fs_Rule spec = fs_Rule spec'"
    and "NewFinding spec opts = Inr f" and "NewFinding spec' opts = Inr g"
  shows "f_FindingID f = f_FindingID g"
proof -
  have "f_NodeID f = f_NodeID g" "f_FilePath f = f_FilePath g" "f_findingKey f = f_findingKey g"
    using same_options_same_identity [OF assms(1,3,4)] by (auto simp: same_identity_def)
  moreover have "f_Rule f = f_Rule g"
    using NewFinding_Inr [OF assms(1,3)] NewFinding_Inr [OF assms(1,4)] assms(2)
    by (auto simp: draft_ok_def)
  moreover have "anchor_of f = anchor_of g"
    using calculation by (simp add: anchor_of_def cong: option.case_cong)
  ultimately show ?thesis
    using NewFinding_finding_wf [OF assms(1,3)] NewFinding_finding_wf [OF assms(1,4)]
    by (simp add: finding_wf_def)
qed

theorem finding_identity_stable_witness:
  "f_FindingID sample_finding = f_FindingID (sample_finding\<lparr>f_RepoID := ''q'', f_Branch := ''dev''\<rparr>)"
proof -
  have other: "NewFinding (sample_spec\<lparr>fs_RepoID := ''q'', fs_Branch := ''dev''\<rparr>) [WithFileAnchor ''a.go'']
      = Inr (sample_finding\<lparr>f_RepoID := ''q'', f_Branch := ''dev''\<rparr>)"
    by (simp add: NewFinding_def sample_spec_def sample_finding_def blank_finding_def WithFileAnchor_def
        Severity_valid_def severityOrder_def severity_defs SourceLayer_valid_def validSourceLayers_def layer_defs)
  show ?thesis
    using finding_identity_stable [OF _ _ sample_finding_new other] finding_option.intros(2)
    by (simp add: sample_spec_def)
qed

end
