(* ===== verification/Finding_Repo.thy ===== *)
theory Finding_Repo
  imports Domain_Finding
begin

text \<open>
  \<open>internal/infrastructure/sqlite/finding_repo.go\<close>: the findings table and the operations of
  \<open>FindingRepo\<close>. The table is a map from its primary key \<open>(finding_id, branch)\<close> to its rows;
  the SQL texts of the source become updates of that map. A statement may fail: the outcome
  of each is an argument of the operation, so every error return of the source is a branch.
  The locale \<open>finding_storage\<close> states the port \<open>ports.FindingStorage\<close>; it is interpreted on
  the repository, and the emitter and the check runner rely on its lemmas.
\<close>

section \<open>The table\<close>

record finding_row =
  fr_repo_id :: string
  fr_node_id :: "string option"
  fr_file_path :: "string option"
  fr_severity :: string
  fr_source_layer :: string
  fr_rule :: string
  fr_message :: string
  fr_state :: string
  fr_closed_reason :: "string option"
  fr_created_at :: int
  fr_closed_at :: "int option"
  fr_actor_id :: string
  fr_actor_kind :: string
  fr_anchor_content_hash :: "string option"

type_synonym findings_table = "(string \<times> string, finding_row) gomap"

definition findingArgs :: "Finding \<Rightarrow> int \<Rightarrow> (string \<times> string) \<times> finding_row" where
  "findingArgs f now =
     ((f_FindingID f, f_Branch f),
      \<lparr>fr_repo_id = f_RepoID f, fr_node_id = f_NodeID f, fr_file_path = f_FilePath f,
       fr_severity = f_Severity f, fr_source_layer = f_SourceLayer f, fr_rule = f_Rule f,
       fr_message = f_Message f, fr_state = f_State f, fr_closed_reason = f_ClosedReason f,
       fr_created_at = now, fr_closed_at = f_ClosedAt f,
       fr_actor_id = (case f_ActorID f of Some a \<Rightarrow> a | None \<Rightarrow> ''service:veska''),
       fr_actor_kind = (case f_ActorKind f of Some k \<Rightarrow> k | None \<Rightarrow> ActorKindSystem),
       fr_anchor_content_hash = f_AnchorContentHash f\<rparr>)"

text \<open>
  \<open>INSERT \<dots> ON CONFLICT(finding_id, branch) DO UPDATE\<close>: every column but \<open>created_at\<close> is taken
  from the new row.
\<close>

definition findingUpsertStmt :: "(string \<times> string) \<times> finding_row \<Rightarrow> findings_table \<Rightarrow> findings_table" where
  "findingUpsertStmt args t =
     (case args of (pk, new) \<Rightarrow>
        (case map_of t pk of
           None \<Rightarrow> gm_put pk new t
         | Some old \<Rightarrow> gm_put pk (new\<lparr>fr_created_at := fr_created_at old\<rparr>) t))"

definition FindingRepo_Save ::
  "err option \<Rightarrow> int \<Rightarrow> findings_table \<Rightarrow> Finding option \<Rightarrow> findings_table \<times> err option" where
  "FindingRepo_Save fault now t fo =
     (case fo of
        None \<Rightarrow> (t, Some (Errorf ''sqlite.FindingRepo.Save: nil finding'' []))
      | Some f \<Rightarrow>
          (case fault of
             Some e \<Rightarrow> (t, Some (Wrap ''sqlite.FindingRepo.Save: %w'' [] e))
           | None \<Rightarrow> (findingUpsertStmt (findingArgs f now) t, None)))"

text \<open>
  The points of a transaction at which the driver may report an error; a transaction that
  does not commit leaves the table as it was.
\<close>

datatype tx_point = AtBegin | AtPrepare | AtExec nat | AtCommit

fun upsert_all ::
  "(tx_point \<Rightarrow> err option) \<Rightarrow> nat \<Rightarrow> int \<Rightarrow> Finding option list \<Rightarrow> findings_table \<Rightarrow> findings_table result" where
  "upsert_all fault i now [] t = Inr t"
| "upsert_all fault i now (None # fs) t = upsert_all fault (Suc i) now fs t"
| "upsert_all fault i now (Some f # fs) t =
     (case fault (AtExec i) of
        Some e \<Rightarrow> Inl (Wrap ''sqlite.FindingRepo.SaveBatch: upsert %s: %w'' [f_FindingID f] e)
      | None \<Rightarrow> upsert_all fault (Suc i) now fs (findingUpsertStmt (findingArgs f now) t))"

definition SaveBatch ::
  "(tx_point \<Rightarrow> err option) \<Rightarrow> int \<Rightarrow> findings_table \<Rightarrow> Finding option list \<Rightarrow> findings_table \<times> err option" where
  "SaveBatch fault now t findings =
     (if findings = [] then (t, None)
      else case fault AtBegin of
        Some e \<Rightarrow> (t, Some (Wrap ''sqlite.FindingRepo.SaveBatch: begin: %w'' [] e))
      | None \<Rightarrow>
          (case fault AtPrepare of
             Some e \<Rightarrow> (t, Some (Wrap ''sqlite.FindingRepo.SaveBatch: prepare: %w'' [] e))
           | None \<Rightarrow>
               (case upsert_all fault 0 now findings t of
                  Inl e \<Rightarrow> (t, Some e)
                | Inr t' \<Rightarrow>
                    (case fault AtCommit of
                       Some e \<Rightarrow> (t, Some (Wrap ''sqlite.FindingRepo.SaveBatch: commit: %w'' [] e))
                     | None \<Rightarrow> (t', None)))))"

section \<open>Closing rows\<close>

definition revalidated_obsolete :: string where
  "revalidated_obsolete = ''revalidated_obsolete''"

text \<open>The \<open>SET\<close> clause the closing statements share.\<close>

definition close_row :: "int \<Rightarrow> finding_row \<Rightarrow> finding_row" where
  "close_row now r = r\<lparr>fr_state := ''closed'', fr_closed_reason := Some revalidated_obsolete,
                       fr_closed_at := Some now\<rparr>"

definition FindingRepo_CloseObsolete ::
  "err option \<Rightarrow> int \<Rightarrow> findings_table \<Rightarrow> string \<Rightarrow> string \<Rightarrow> findings_table \<times> err option" where
  "FindingRepo_CloseObsolete fault now t findingID branch =
     (case fault of
        Some e \<Rightarrow> (t, Some (Wrap ''sqlite.FindingRepo.CloseObsolete: %w'' [] e))
      | None \<Rightarrow>
          (gm_update_where (\<lambda>k r. k = (findingID, branch) \<and> fr_state r = ''open'') (close_row now) t, None))"

definition maxInline :: nat where
  "maxInline = 500"

text \<open>The rows of a rule that are open in a repository and branch.\<close>

definition open_under :: "string \<Rightarrow> string \<Rightarrow> string \<Rightarrow> string \<times> string \<Rightarrow> finding_row \<Rightarrow> bool" where
  "open_under repoID branch rule k r \<longleftrightarrow>
     fr_repo_id r = repoID \<and> snd k = branch \<and> fr_rule r = rule \<and> fr_state r = ''open''"

fun close_ids ::
  "(nat \<Rightarrow> err option) \<Rightarrow> nat \<Rightarrow> int \<Rightarrow> string \<Rightarrow> string list \<Rightarrow> findings_table \<Rightarrow> findings_table \<times> err option" where
  "close_ids fault i now branch [] t = (t, None)"
| "close_ids fault i now branch (x # xs) t =
     (case fault i of
        Some e \<Rightarrow> (t, Some (Wrap ''sqlite.FindingRepo.CloseSupersededByRule: %w'' [] e))
      | None \<Rightarrow> close_ids fault (Suc i) now branch xs
          (gm_update_where (\<lambda>k r. k = (x, branch) \<and> fr_state r = ''open'') (close_row now) t))"

definition closeSupersededByRuleSetDiff ::
  "(nat \<Rightarrow> err option) \<Rightarrow> int \<Rightarrow> findings_table \<Rightarrow> string \<Rightarrow> string \<Rightarrow> string \<Rightarrow> string list
     \<Rightarrow> findings_table \<times> err option" where
  "closeSupersededByRuleSetDiff fault now t repoID branch rule keep =
     (case fault 0 of
        Some e \<Rightarrow> (t, Some (Wrap ''sqlite.FindingRepo.CloseSupersededByRule: %w'' [] e))
      | None \<Rightarrow>
          let selected = map (fst \<circ> fst) (filter (\<lambda>(k, r). open_under repoID branch rule k r) t);
              toClose = filter (\<lambda>x. x \<notin> set keep) selected
          in close_ids fault 1 now branch toClose t)"

definition CloseSupersededByRule ::
  "(nat \<Rightarrow> err option) \<Rightarrow> int \<Rightarrow> findings_table \<Rightarrow> string \<Rightarrow> string \<Rightarrow> string \<Rightarrow> string list
     \<Rightarrow> findings_table \<times> err option" where
  "CloseSupersededByRule fault now t repoID branch rule keep =
     (if keep = [] then
        (case fault 0 of
           Some e \<Rightarrow> (t, Some (Wrap ''sqlite.FindingRepo.CloseSupersededByRule: %w'' [] e))
         | None \<Rightarrow> (gm_update_where (open_under repoID branch rule) (close_row now) t, None))
      else if length keep > maxInline then
        closeSupersededByRuleSetDiff fault now t repoID branch rule keep
      else
        (case fault 0 of
           Some e \<Rightarrow> (t, Some (Wrap ''sqlite.FindingRepo.CloseSupersededByRule: %w'' [] e))
         | None \<Rightarrow>
             (gm_update_where (\<lambda>k r. open_under repoID branch rule k r \<and> fst k \<notin> set keep)
                (close_row now) t, None)))"

text \<open>The columns of the edges table that the auto-link statement reads.\<close>

record edge_row =
  er_edge_id :: string
  er_repo_id :: string
  er_branch :: string
  er_kind :: string
  er_src_node_id :: string
  er_dst_node_id :: string

definition autolink_match ::
  "edge_row list \<Rightarrow> string \<Rightarrow> string \<Rightarrow> string list \<Rightarrow> string \<times> string \<Rightarrow> finding_row \<Rightarrow> bool" where
  "autolink_match edges repoID branch srcs k r \<longleftrightarrow>
     open_under repoID branch ''auto-link'' k r
     \<and> (\<exists>e \<in> set edges. fr_node_id r = Some (er_edge_id e) \<and> er_repo_id e = repoID
          \<and> er_branch e = branch \<and> er_kind e = ''SIMILAR_TO'' \<and> er_src_node_id e \<in> set srcs)"

definition autolink_chunk :: nat where
  "autolink_chunk = 500"

function close_chunks ::
  "(nat \<Rightarrow> err option) \<Rightarrow> nat \<Rightarrow> int \<Rightarrow> edge_row list \<Rightarrow> string \<Rightarrow> string \<Rightarrow> string list
     \<Rightarrow> findings_table \<Rightarrow> findings_table \<times> err option" where
  "close_chunks fault i now edges repoID branch srcs t =
     (if srcs = [] then (t, None)
      else case fault i of
        Some e \<Rightarrow> (t, Some (Wrap ''sqlite.FindingRepo.CloseSupersededAutoLinks: %w'' [] e))
      | None \<Rightarrow>
          close_chunks fault (Suc i) now edges repoID branch (drop autolink_chunk srcs)
            (gm_update_where (autolink_match edges repoID branch (take autolink_chunk srcs)) (close_row now) t))"
  by pat_completeness auto
termination
  by (relation "measure (\<lambda>(_, _, _, _, _, _, srcs, _). length srcs)") (auto simp: autolink_chunk_def)

declare close_chunks.simps [simp del]

definition CloseSupersededAutoLinks ::
  "(nat \<Rightarrow> err option) \<Rightarrow> int \<Rightarrow> edge_row list \<Rightarrow> findings_table \<Rightarrow> string \<Rightarrow> string \<Rightarrow> string list
     \<Rightarrow> findings_table \<times> err option" where
  "CloseSupersededAutoLinks fault now edges t repoID branch sourceNodeIDs =
     (if sourceNodeIDs = [] then (t, None)
      else close_chunks fault 0 now edges repoID branch sourceNodeIDs t)"

section \<open>Agreement of the closing strategies\<close>

lemma close_row_state [simp]: "fr_state (close_row now r) = ''closed''"
  "fr_rule (close_row now r) = fr_rule r" "fr_repo_id (close_row now r) = fr_repo_id r"
  "fr_node_id (close_row now r) = fr_node_id r"
  by (simp_all add: close_row_def)

lemma close_row_idem [simp]: "close_row now (close_row now r) = close_row now r"
  by (simp add: close_row_def)

lemma open_under_closed [simp]: "\<not> open_under repoID branch rule k (close_row now r)"
  by (simp add: open_under_def)

lemma close_ids_no_fault:
  "close_ids (\<lambda>_. None) i now branch xs t =
     (gm_update_where (\<lambda>k r. snd k = branch \<and> fst k \<in> set xs \<and> fr_state r = ''open'') (close_row now) t, None)"
proof (induction xs arbitrary: i t)
  case Nil
  then show ?case by simp
next
  case (Cons x xs)
  have "close_ids (\<lambda>_. None) i now branch (x # xs) t =
    (gm_update_where (\<lambda>k r. snd k = branch \<and> fst k \<in> set xs \<and> fr_state r = ''open'') (close_row now)
      (gm_update_where (\<lambda>k r. k = (x, branch) \<and> fr_state r = ''open'') (close_row now) t), None)"
    by (simp add: Cons.IH)
  then show ?case
    by (simp add: gm_update_where_twice) (auto intro!: gm_update_where_cong)
qed

text \<open>The reference: one statement that closes every open row of the rule not to be kept.\<close>

definition close_superseded ::
  "int \<Rightarrow> string \<Rightarrow> string \<Rightarrow> string \<Rightarrow> string list \<Rightarrow> findings_table \<Rightarrow> findings_table" where
  "close_superseded now repoID branch rule keep t =
     gm_update_where (\<lambda>k r. open_under repoID branch rule k r \<and> fst k \<notin> set keep) (close_row now) t"

lemma closeSupersededByRuleSetDiff_eq:
  assumes "gm_wf t"
  shows "closeSupersededByRuleSetDiff (\<lambda>_. None) now t repoID branch rule keep
    = (close_superseded now repoID branch rule keep t, None)"
proof -
  let ?sel = "map (fst \<circ> fst) (filter (\<lambda>(k, r). open_under repoID branch rule k r) t)"
  have "(snd k = branch \<and> fst k \<in> set (filter (\<lambda>x. x \<notin> set keep) ?sel) \<and> fr_state r = ''open'')
    \<longleftrightarrow> (open_under repoID branch rule k r \<and> fst k \<notin> set keep)" if kr: "(k, r) \<in> set t" for k r
  proof
    assume l: "snd k = branch \<and> fst k \<in> set (filter (\<lambda>x. x \<notin> set keep) ?sel) \<and> fr_state r = ''open''"
    then obtain k' r' where kr': "(k', r') \<in> set t" "open_under repoID branch rule k' r'" "fst k' = fst k"
      by auto
    moreover have "k' = k" using kr' l by (auto simp: open_under_def prod_eq_iff)
    moreover have "r' = r" using assms kr kr'(1) \<open>k' = k\<close> gm_get_iff option.inject by metis
    ultimately show "open_under repoID branch rule k r \<and> fst k \<notin> set keep" using l by auto
  next
    assume "open_under repoID branch rule k r \<and> fst k \<notin> set keep"
    then show "snd k = branch \<and> fst k \<in> set (filter (\<lambda>x. x \<notin> set keep) ?sel) \<and> fr_state r = ''open''"
      using kr by (force simp: open_under_def)
  qed
  then show ?thesis
    by (simp add: closeSupersededByRuleSetDiff_def Let_def close_ids_no_fault close_superseded_def
        cong: gm_update_where_cong)
qed

lemma CloseSupersededByRule_eq:
  assumes "gm_wf t"
  shows "CloseSupersededByRule (\<lambda>_. None) now t repoID branch rule keep
    = (close_superseded now repoID branch rule keep t, None)"
  using closeSupersededByRuleSetDiff_eq [OF assms]
  by (simp add: CloseSupersededByRule_def close_superseded_def)

lemma autolink_match_Nil [simp]: "autolink_match edges repoID branch [] = (\<lambda>k r. False)"
  by (simp add: autolink_match_def fun_eq_iff)

lemma close_chunks_eq:
  "close_chunks (\<lambda>_. None) i now edges repoID branch srcs t =
     (gm_update_where (autolink_match edges repoID branch srcs) (close_row now) t, None)"
proof (induction "\<lambda>_::nat. None::err option" i now edges repoID branch srcs t rule: close_chunks.induct)
  case (1 i now edges repoID branch srcs t)
  show ?case
  proof (cases "srcs = []")
    case True
    then show ?thesis
      by (subst close_chunks.simps) simp
  next
    case False
    have "set srcs = set (take autolink_chunk srcs) \<union> set (drop autolink_chunk srcs)"
      by (metis append_take_drop_id set_append)
    then have "autolink_match edges repoID branch srcs =
      (\<lambda>k r. autolink_match edges repoID branch (take autolink_chunk srcs) k r
        \<or> autolink_match edges repoID branch (drop autolink_chunk srcs) k r)"
      unfolding autolink_match_def fun_eq_iff by blast
    then show ?thesis
      using False 1 by (subst close_chunks.simps) (simp add: gm_update_where_twice)
  qed
qed

section \<open>Batches\<close>

lemma upsert_all_no_fault:
  "(\<And>i. fault (AtExec i) = None) \<Longrightarrow>
   upsert_all fault i now fs t = Inr (foldl (\<lambda>t f. findingUpsertStmt (findingArgs f now) t) t (somes fs))"
  by (induction fault i now fs t rule: upsert_all.induct) auto

lemma SaveBatch_error_unchanged: "SaveBatch fault now t fs = (t', Some e) \<Longrightarrow> t' = t"
  by (auto simp: SaveBatch_def split: if_splits option.splits sum.splits)

lemma upsert_all_Inr:
  "upsert_all fault i now fs t = Inr t' \<Longrightarrow>
   t' = foldl (\<lambda>t f. findingUpsertStmt (findingArgs f now) t) t (somes fs)"
  by (induction fault i now fs t rule: upsert_all.induct) (auto split: option.splits)

lemma SaveBatch_ok:
  "SaveBatch fault now t fs = (t', None) \<Longrightarrow>
   t' = foldl (\<lambda>t f. findingUpsertStmt (findingArgs f now) t) t (somes fs)"
  by (auto simp: SaveBatch_def dest!: upsert_all_Inr split: if_splits option.splits sum.splits)

section \<open>The storage port\<close>

text \<open>
  What the clients of \<open>ports.FindingStorage\<close> see: which identities are open on a branch, under
  which repository and rule.
\<close>

locale finding_storage =
  fixes save :: "int \<Rightarrow> 't \<Rightarrow> Finding \<Rightarrow> 't"
    and close_obsolete :: "int \<Rightarrow> 't \<Rightarrow> string \<Rightarrow> string \<Rightarrow> 't"
    and close_rule :: "int \<Rightarrow> 't \<Rightarrow> string \<Rightarrow> string \<Rightarrow> string \<Rightarrow> string list \<Rightarrow> 't"
    and opened :: "'t \<Rightarrow> string \<Rightarrow> string \<Rightarrow> (string \<times> string) option"
    and wf :: "'t \<Rightarrow> bool"
  assumes wf_save: "wf t \<Longrightarrow> wf (save now t f)"
    and wf_close_obsolete: "wf t \<Longrightarrow> wf (close_obsolete now t fid b)"
    and wf_close_rule: "wf t \<Longrightarrow> wf (close_rule now t r b ru keep)"
    and opened_save: "wf t \<Longrightarrow> opened (save now t f) fid b =
      (if fid = f_FindingID f \<and> b = f_Branch f
       then (if f_State f = FindingStateOpen then Some (f_RepoID f, f_Rule f) else None)
       else opened t fid b)"
    and opened_close_obsolete: "wf t \<Longrightarrow> opened (close_obsolete now t i c) fid b =
      (if fid = i \<and> b = c then None else opened t fid b)"
    and opened_close_rule: "wf t \<Longrightarrow> opened (close_rule now t r c ru keep) fid b =
      (if opened t fid b = Some (r, ru) \<and> b = c \<and> fid \<notin> set keep then None else opened t fid b)"
begin

text \<open>Saving twice the same finding is saving it once, as far as the open set shows.\<close>

lemma save_idempotent: "wf t \<Longrightarrow> opened (save m (save n t f) f) fid b = opened (save n t f) fid b"
  by (simp add: opened_save wf_save)

lemma wf_saves: "wf t \<Longrightarrow> wf (foldl (save now) t fs)"
  by (induction fs arbitrary: t) (auto intro: wf_save)

lemma opened_saves:
  assumes "wf t" and "\<And>f. f \<in> set fs \<Longrightarrow> f_State f = FindingStateOpen \<and> f_RepoID f = r \<and> f_Branch f = b \<and> f_Rule f = ru"
  shows "opened (foldl (save now) t fs) fid c =
    (if c = b \<and> fid \<in> f_FindingID ` set fs then Some (r, ru) else opened t fid c)"
  using assms
proof (induction fs arbitrary: t)
  case Nil
  then show ?case by simp
next
  case (Cons f fs)
  have "opened (foldl (save now) t (f # fs)) fid c =
    (if c = b \<and> fid \<in> f_FindingID ` set fs then Some (r, ru) else opened (save now t f) fid c)"
    using Cons.IH [of "save now t f"] Cons.prems by (simp add: wf_save)
  then show ?case using Cons.prems by (auto simp: opened_save)
qed

text \<open>
  Reconciliation: after an authoritative run saved its findings and closed what it superseded,
  the open identities of the rule are exactly those of the run.
\<close>

lemma reconcile:
  assumes "wf t" and "\<And>f. f \<in> set fs \<Longrightarrow> f_State f = FindingStateOpen \<and> f_RepoID f = r \<and> f_Branch f = b \<and> f_Rule f = ru"
  shows "opened (close_rule now (foldl (save now) t fs) r b ru (map f_FindingID fs)) fid b = Some (r, ru)
    \<longleftrightarrow> fid \<in> f_FindingID ` set fs"
  using opened_saves [OF assms, where now = now and fid = fid and c = b] by (auto simp: opened_close_rule wf_saves assms(1))

lemma reconcile_other:
  assumes "wf t" and "\<And>f. f \<in> set fs \<Longrightarrow> f_State f = FindingStateOpen \<and> f_RepoID f = r \<and> f_Branch f = b \<and> f_Rule f = ru"
    and "opened t fid c \<noteq> Some (r, ru) \<or> c \<noteq> b" and "fid \<notin> f_FindingID ` set fs \<or> c \<noteq> b"
  shows "opened (close_rule now (foldl (save now) t fs) r b ru (map f_FindingID fs)) fid c = opened t fid c"
  using opened_saves [OF assms(1,2), where now = now and fid = fid and c = c] assms(3,4) by (auto simp: opened_close_rule wf_saves assms(1))

end

text \<open>The operations of the repository when no statement fails.\<close>

definition repo_save :: "int \<Rightarrow> findings_table \<Rightarrow> Finding \<Rightarrow> findings_table" where
  "repo_save now t f = fst (FindingRepo_Save None now t (Some f))"

definition repo_close_obsolete :: "int \<Rightarrow> findings_table \<Rightarrow> string \<Rightarrow> string \<Rightarrow> findings_table" where
  "repo_close_obsolete now t fid b = fst (FindingRepo_CloseObsolete None now t fid b)"

definition repo_close_rule :: "int \<Rightarrow> findings_table \<Rightarrow> string \<Rightarrow> string \<Rightarrow> string \<Rightarrow> string list \<Rightarrow> findings_table" where
  "repo_close_rule now t r b ru keep = fst (CloseSupersededByRule (\<lambda>_. None) now t r b ru keep)"

definition repo_opened :: "findings_table \<Rightarrow> string \<Rightarrow> string \<Rightarrow> (string \<times> string) option" where
  "repo_opened t fid b =
     (case map_of t (fid, b) of
        Some r \<Rightarrow> (if fr_state r = ''open'' then Some (fr_repo_id r, fr_rule r) else None)
      | None \<Rightarrow> None)"

lemma map_of_findingUpsertStmt:
  "map_of (findingUpsertStmt (pk, new) t) =
     (map_of t)(pk \<mapsto> (case map_of t pk of None \<Rightarrow> new | Some old \<Rightarrow> new\<lparr>fr_created_at := fr_created_at old\<rparr>))"
  by (simp add: findingUpsertStmt_def gomap_simps split: option.split)

lemma gm_wf_findingUpsertStmt: "gm_wf t \<Longrightarrow> gm_wf (findingUpsertStmt args t)"
  by (simp add: findingUpsertStmt_def gomap_simps split: prod.split option.split)

lemma repo_close_rule_eq: "gm_wf t \<Longrightarrow> repo_close_rule now t r b ru keep = close_superseded now r b ru keep t"
  by (simp add: repo_close_rule_def CloseSupersededByRule_eq)

interpretation repo: finding_storage repo_save repo_close_obsolete repo_close_rule repo_opened gm_wf
proof unfold_locales
  show "gm_wf (repo_save now t f)" if "gm_wf t" for t now f
    using that by (simp add: repo_save_def FindingRepo_Save_def gm_wf_findingUpsertStmt)
  show "gm_wf (repo_close_obsolete now t fid b)" if "gm_wf t" for t now fid b
    using that by (simp add: repo_close_obsolete_def FindingRepo_CloseObsolete_def gomap_simps)
  show "gm_wf (repo_close_rule now t r b ru keep)" if "gm_wf t" for t now r b ru keep
    using that by (simp add: repo_close_rule_eq close_superseded_def gomap_simps)
  show "repo_opened (repo_save now t f) fid b =
      (if fid = f_FindingID f \<and> b = f_Branch f
       then (if f_State f = FindingStateOpen then Some (f_RepoID f, f_Rule f) else None)
       else repo_opened t fid b)" if "gm_wf t" for t now f fid b
    by (simp add: repo_opened_def repo_save_def FindingRepo_Save_def findingArgs_def
        map_of_findingUpsertStmt FindingStateOpen_def split: option.split)
  show "repo_opened (repo_close_obsolete now t i c) fid b =
      (if fid = i \<and> b = c then None else repo_opened t fid b)" if "gm_wf t" for t now i c fid b
    by (auto simp: repo_opened_def repo_close_obsolete_def FindingRepo_CloseObsolete_def gomap_simps
        split: option.split)
  show "repo_opened (repo_close_rule now t r c ru keep) fid b =
      (if repo_opened t fid b = Some (r, ru) \<and> b = c \<and> fid \<notin> set keep then None else repo_opened t fid b)"
    if "gm_wf t" for t now r c ru keep fid b
    using that by (auto simp: repo_opened_def repo_close_rule_eq close_superseded_def open_under_def
        gomap_simps split: option.split)
qed

section \<open>Properties\<close>

text \<open>
  C29. \<open>CloseSupersededByRule\<close> closes exactly the open rows of the rule in the repository and
  branch whose identity is not kept, on each of its three paths: the empty keep set, the
  inlined \<open>NOT IN\<close>, and the set difference computed in memory for more than 500 identities. The
  last one updates by identity and branch alone and still agrees, by the primary key.
\<close>

theorem close_superseded_by_rule_exact:
  assumes "gm_wf t"
  shows "CloseSupersededByRule (\<lambda>_. None) now t repoID branch rule keep
    = (gm_update_where (\<lambda>k r. open_under repoID branch rule k r \<and> fst k \<notin> set keep) (close_row now) t, None)
    \<and> closeSupersededByRuleSetDiff (\<lambda>_. None) now t repoID branch rule keep
      = CloseSupersededByRule (\<lambda>_. None) now t repoID branch rule keep"
  using CloseSupersededByRule_eq [OF assms] closeSupersededByRuleSetDiff_eq [OF assms]
  by (simp add: close_superseded_def)

definition sample_row :: "string \<Rightarrow> finding_row" where
  "sample_row rule = \<lparr>fr_repo_id = ''r'', fr_node_id = Some ''n'', fr_file_path = None, fr_severity = ''low'',
     fr_source_layer = ''structural'', fr_rule = rule, fr_message = ''m'', fr_state = ''open'', fr_closed_reason = None,
     fr_created_at = 1, fr_closed_at = None, fr_actor_id = ''service:veska'', fr_actor_kind = ''system'',
     fr_anchor_content_hash = None\<rparr>"

theorem close_superseded_by_rule_exact_witness:
  "fst (CloseSupersededByRule (\<lambda>_. None) 9 [((''f1'', ''main''), sample_row ''vuln''), ((''f2'', ''main''), sample_row ''vuln'')]
     ''r'' ''main'' ''vuln'' [''f1''])
   = [((''f1'', ''main''), sample_row ''vuln''), ((''f2'', ''main''), close_row 9 (sample_row ''vuln''))]"
  using close_superseded_by_rule_exact [of "[((''f1'', ''main''), sample_row ''vuln''), ((''f2'', ''main''), sample_row ''vuln'')]"
      9 "''r''" "''main''" "''vuln''" "[''f1'']"]
  by (simp add: gm_update_where_def open_under_def sample_row_def)

text \<open>
  \<open>CloseSupersededAutoLinks\<close>, which works in chunks of 500 source nodes, closes the same rows
  as one statement over all the source nodes.
\<close>

theorem close_superseded_auto_links_chunking:
  "CloseSupersededAutoLinks (\<lambda>_. None) now edges t repoID branch srcs
    = (gm_update_where (autolink_match edges repoID branch srcs) (close_row now) t, None)"
  by (simp add: CloseSupersededAutoLinks_def close_chunks_eq)

text \<open>
  \<open>SaveBatch\<close> is atomic: when it returns an error, at whatever statement, the table is as it
  was; when it succeeds, the table is what saving the non-nil findings one by one gives.
\<close>

theorem save_batch_atomic:
  "case SaveBatch fault now t fs of
     (t', Some e) \<Rightarrow> t' = t
   | (t', None) \<Rightarrow> t' = foldl (\<lambda>t f. fst (FindingRepo_Save None now t (Some f))) t (somes fs)"
proof -
  have "(\<lambda>t f. fst (FindingRepo_Save None now t (Some f))) = (\<lambda>t f. findingUpsertStmt (findingArgs f now) t)"
    by (simp add: fun_eq_iff FindingRepo_Save_def)
  then show ?thesis
    using SaveBatch_error_unchanged SaveBatch_ok by (auto split: prod.split option.split)
qed

end
