(* ===== verification/Ingest.thy ===== *)
theory Ingest
  imports Staging Finding_Repo
begin

text \<open>
  The save path of \<open>internal/application\<close>: the finding emitter, which turns the diagnostics
  of a parse into findings on a best-effort sink, and the ingester, which parses a saved file,
  stages the result under the generation guard of the gate and emits the diagnostics.

  The finding sink is a log of the calls it receives, because the emitter ignores what the
  calls return beyond logging it; a nil sink is \<open>None\<close>. The parser is a parameter.
\<close>

section \<open>The finding emitter\<close>

datatype sink_call = SaveFinding Finding | CloseObsolete string string

record findingEmitter =
  fe_findings :: "sink_call list option"

definition newFindingEmitter :: "sink_call list option \<Rightarrow> findingEmitter" where
  "newFindingEmitter findings = \<lparr>fe_findings = findings\<rparr>"

definition sink_emit :: "sink_call \<Rightarrow> findingEmitter \<Rightarrow> findingEmitter" where
  "sink_emit c e = e\<lparr>fe_findings := map_option (\<lambda>l. l @ [c]) (fe_findings e)\<rparr>"

definition parse_failure_spec :: "string \<Rightarrow> string \<Rightarrow> string \<Rightarrow> FindingSpec" where
  "parse_failure_spec repoID branch msg =
     \<lparr>fs_RepoID = repoID, fs_Branch = branch, fs_Severity = SeverityMedium,
      fs_Layer = LayerStructural, fs_Rule = ''parse-failure'', fs_Message = msg\<rparr>"

definition parse_failure_message :: "string \<Rightarrow> ParseFailure \<Rightarrow> string" where
  "parse_failure_message path first =
     (if pf_Message first \<noteq> []
      then (if pf_Line first > 0
            then ''parse failure in '' @ path @ '' at line '' @ int_to_string (pf_Line first)
                 @ '': '' @ pf_Message first
            else ''parse failure in '' @ path @ '': '' @ pf_Message first)
      else ''parse failure in '' @ path)"

definition ParseFailures ::
  "findingEmitter \<Rightarrow> string \<Rightarrow> string \<Rightarrow> string \<Rightarrow> ParseFailure list \<Rightarrow> findingEmitter" where
  "ParseFailures e repoID branch path failures =
     (case failures of
        [] \<Rightarrow> e
      | first # _ \<Rightarrow>
          if fe_findings e = None then e
          else case NewFinding (parse_failure_spec repoID branch (parse_failure_message path first))
                      [WithFileAnchor path] of
                 Inl err \<Rightarrow> e
               | Inr f \<Rightarrow> sink_emit (SaveFinding f) e)"

definition ClearParseFailure ::
  "findingEmitter \<Rightarrow> string \<Rightarrow> string \<Rightarrow> string \<Rightarrow> findingEmitter" where
  "ClearParseFailure e repoID branch path =
     (if fe_findings e = None then e
      else case NewFinding (parse_failure_spec repoID branch ''parse failure cleared'')
                  [WithFileAnchor path] of
             Inl err \<Rightarrow> e
           | Inr f \<Rightarrow> sink_emit (CloseObsolete (f_FindingID f) branch) e)"

definition todo_inlineCap :: nat where
  "todo_inlineCap = 5"

definition todo_message :: "string \<Rightarrow> ParseTodo list \<Rightarrow> string" where
  "todo_message path todos =
     (let parts = map (\<lambda>t. ''L'' @ int_to_string (pt_Line t) @ '': '' @ pt_Message t)
                    (take todo_inlineCap todos);
          summary = join ''; '' parts;
          summary' = (if length todos > todo_inlineCap
                      then summary @ ''; (+'' @ nat_to_string (length todos - todo_inlineCap) @ '' more)''
                      else summary)
      in nat_to_string (length todos) @ '' TODO/FIXME marker(s) in '' @ path @ '': '' @ summary')"

definition Todos ::
  "findingEmitter \<Rightarrow> string \<Rightarrow> string \<Rightarrow> string \<Rightarrow> ParseTodo list \<Rightarrow> findingEmitter" where
  "Todos e repoID branch path todos =
     (if todos = [] \<or> fe_findings e = None then e
      else case NewFinding
                  \<lparr>fs_RepoID = repoID, fs_Branch = branch, fs_Severity = SeverityInfo,
                   fs_Layer = LayerStructural, fs_Rule = ''todo'', fs_Message = todo_message path todos\<rparr>
                  [WithFileAnchor path] of
             Inl err \<Rightarrow> e
           | Inr f \<Rightarrow> sink_emit (SaveFinding f) e)"

section \<open>The ingester\<close>

text \<open>
  \<open>ports.CodeParser\<close>: \<open>ParseFile\<close> and, when the parser offers it, the list of its extensions.
\<close>

record CodeParser =
  cp_ParseFile :: "string \<Rightarrow> string \<Rightarrow> string \<Rightarrow> ParseResult result"
  cp_SupportedExtensions :: "string list option"

record Ingester =
  ing_parser :: CodeParser
  ing_staging :: Area
  ing_gate :: Gate
  ing_emitter :: "findingEmitter option"

type_synonym IngesterOption = "Ingester \<Rightarrow> Ingester"

definition WithFindingStorage :: "sink_call list option \<Rightarrow> IngesterOption" where
  "WithFindingStorage s ing = ing\<lparr>ing_emitter := Some (newFindingEmitter s)\<rparr>"

definition NewIngester :: "CodeParser \<Rightarrow> Area \<Rightarrow> Gate \<Rightarrow> IngesterOption list \<Rightarrow> Ingester" where
  "NewIngester parser area gate opts =
     (let ing = foldl (\<lambda>i opt. opt i)
            \<lparr>ing_parser = parser, ing_staging = area, ing_gate = gate, ing_emitter = None\<rparr> opts
      in if ing_emitter ing = None
         then ing\<lparr>ing_emitter := Some (newFindingEmitter None)\<rparr>
         else ing)"

definition SupportedExtensions :: "Ingester \<Rightarrow> string list" where
  "SupportedExtensions ing =
     (case cp_SupportedExtensions (ing_parser ing) of Some l \<Rightarrow> l | None \<Rightarrow> [])"

text \<open>Calling a method of the emitter the ingester holds.\<close>

definition with_emitter :: "(findingEmitter \<Rightarrow> findingEmitter) \<Rightarrow> Ingester \<Rightarrow> Ingester" where
  "with_emitter f ing = ing\<lparr>ing_emitter := map_option f (ing_emitter ing)\<rparr>"

definition WaitIfPaused :: "Gate \<Rightarrow> Gate option" where
  "WaitIfPaused g = (if gt_paused g then None else Some g)"

text \<open>
  \<open>save\<close> reads the generation when it enters and \<open>Stage\<close> compares it after the parse. What
  the other goroutines do to the gate in between is the argument \<open>meanwhile\<close>. A call that
  finds the gate paused blocks: it does not return, which is \<open>None\<close>.
\<close>

definition save ::
  "(Gate \<Rightarrow> Gate) \<Rightarrow> Ingester \<Rightarrow> string \<Rightarrow> string \<Rightarrow> string \<Rightarrow> string \<Rightarrow> bool \<Rightarrow> Ingester option" where
  "save meanwhile ing repoID branch path src coldScan =
     (case WaitIfPaused (ing_gate ing) of
        None \<Rightarrow> None
      | Some gate \<Rightarrow>
          let gen = Generation gate;
              parsed = cp_ParseFile (ing_parser ing) repoID path src;
              ing1 = ing\<lparr>ing_gate := meanwhile gate\<rparr>
          in case parsed of
               Inl err \<Rightarrow> Some ing1
             | Inr res \<Rightarrow>
                 let (area, ok) = Stage (ing_staging ing1) repoID branch path
                       \<lparr>sf_Nodes = pr_Nodes res, sf_Edges = pr_Edges res,
                        sf_UnresolvedCalls = pr_UnresolvedCalls res, sf_Imports = pr_Imports res\<rparr>
                       [WithGenerationGuard gen (ing_gate ing1)];
                     ing2 = ing1\<lparr>ing_staging := area\<rparr>;
                     ing3 = (if pr_Failures res = []
                             then (if \<not> coldScan
                                   then with_emitter (\<lambda>e. ClearParseFailure e repoID branch path) ing2
                                   else ing2)
                             else with_emitter
                                    (\<lambda>e. ParseFailures e repoID branch path (pr_Failures res)) ing2)
                 in Some (with_emitter (\<lambda>e. Todos e repoID branch path (pr_Todos res)) ing3))"

definition Save ::
  "(Gate \<Rightarrow> Gate) \<Rightarrow> Ingester \<Rightarrow> string \<Rightarrow> string \<Rightarrow> string \<Rightarrow> string \<Rightarrow> Ingester option" where
  "Save meanwhile ing repoID branch path src = save meanwhile ing repoID branch path src False"

definition SaveColdScan ::
  "(Gate \<Rightarrow> Gate) \<Rightarrow> Ingester \<Rightarrow> string \<Rightarrow> string \<Rightarrow> string \<Rightarrow> string \<Rightarrow> Ingester option" where
  "SaveColdScan meanwhile ing repoID branch path src = save meanwhile ing repoID branch path src True"

definition DeleteFile ::
  "(Gate \<Rightarrow> Gate) \<Rightarrow> Ingester \<Rightarrow> string \<Rightarrow> string \<Rightarrow> string \<Rightarrow> Ingester option" where
  "DeleteFile meanwhile ing repoID branch path =
     (case WaitIfPaused (ing_gate ing) of
        None \<Rightarrow> None
      | Some gate \<Rightarrow>
          let gen = Generation gate;
              ing1 = ing\<lparr>ing_gate := meanwhile gate\<rparr>;
              (area, ok) = Stage (ing_staging ing1) repoID branch path empty_file
                             [WithGenerationGuard gen (ing_gate ing1)]
          in Some (with_emitter (\<lambda>e. ClearParseFailure e repoID branch path)
                    (ing1\<lparr>ing_staging := area\<rparr>)))"

section \<open>What the emitter sends\<close>

text \<open>A file-anchored finding of a valid severity and layer is always constructed.\<close>

lemma NewFinding_file:
  assumes "fs_Rule spec \<noteq> []" "Severity_valid (fs_Severity spec)" "SourceLayer_valid (fs_Layer spec)"
  shows "NewFinding spec [WithFileAnchor path] =
    (if path = [] then Inl (Errs ''finding: file_path anchor must not be empty'')
     else Inr ((blank_finding spec)\<lparr>f_FilePath := Some path,
                 f_FindingID := DeriveFindingID (fs_Rule spec) path []\<rparr>))"
  using assms by (simp add: NewFinding_def WithFileAnchor_def blank_finding_def Let_def)

definition parse_failure_id :: "string \<Rightarrow> string" where
  "parse_failure_id path = DeriveFindingID ''parse-failure'' path []"

lemma spec_valid [simp]:
  "Severity_valid SeverityMedium" "Severity_valid SeverityInfo" "SourceLayer_valid LayerStructural"
  by (simp_all add: Severity_valid_def severityOrder_def severity_defs SourceLayer_valid_def
      validSourceLayers_def layer_defs)

definition parse_failure_finding :: "string \<Rightarrow> string \<Rightarrow> string \<Rightarrow> string \<Rightarrow> Finding" where
  "parse_failure_finding repoID branch path msg =
     (blank_finding (parse_failure_spec repoID branch msg))
       \<lparr>f_FilePath := Some path, f_FindingID := parse_failure_id path\<rparr>"

lemma parse_failure_finding_sel [simp]:
  "f_FindingID (parse_failure_finding r b p m) = parse_failure_id p"
  "f_Branch (parse_failure_finding r b p m) = b" "f_RepoID (parse_failure_finding r b p m) = r"
  "f_Rule (parse_failure_finding r b p m) = ''parse-failure''"
  "f_State (parse_failure_finding r b p m) = FindingStateOpen"
  by (simp_all add: parse_failure_finding_def parse_failure_spec_def blank_finding_def)

lemma NewFinding_parse_failure:
  "path \<noteq> [] \<Longrightarrow> NewFinding (parse_failure_spec r b msg) [WithFileAnchor path]
     = Inr (parse_failure_finding r b path msg)"
  using NewFinding_file [of "parse_failure_spec r b msg" path]
  by (simp add: parse_failure_finding_def parse_failure_id_def parse_failure_spec_def)

lemma ParseFailures_emits:
  assumes "path \<noteq> []"
  shows "ParseFailures \<lparr>fe_findings = Some l\<rparr> r b path (x # xs)
    = \<lparr>fe_findings = Some (l @ [SaveFinding (parse_failure_finding r b path (parse_failure_message path x))])\<rparr>"
  using assms by (simp add: ParseFailures_def NewFinding_parse_failure sink_emit_def)

lemma ClearParseFailure_emits:
  assumes "path \<noteq> []"
  shows "ClearParseFailure \<lparr>fe_findings = Some l\<rparr> r b path
    = \<lparr>fe_findings = Some (l @ [CloseObsolete (parse_failure_id path) b])\<rparr>"
  using assms by (simp add: ClearParseFailure_def NewFinding_parse_failure sink_emit_def)

lemma nil_sink [simp]:
  "ParseFailures \<lparr>fe_findings = None\<rparr> r b p fs = \<lparr>fe_findings = None\<rparr>"
  "ClearParseFailure \<lparr>fe_findings = None\<rparr> r b p = \<lparr>fe_findings = None\<rparr>"
  "Todos \<lparr>fe_findings = None\<rparr> r b p ts = \<lparr>fe_findings = None\<rparr>"
  by (simp_all add: ParseFailures_def ClearParseFailure_def Todos_def split: list.split)

text \<open>The todo finding of a file, and that emission appends at most it.\<close>

definition todo_finding :: "string \<Rightarrow> string \<Rightarrow> string \<Rightarrow> ParseTodo list \<Rightarrow> Finding" where
  "todo_finding r b path todos =
     (blank_finding \<lparr>fs_RepoID = r, fs_Branch = b, fs_Severity = SeverityInfo,
        fs_Layer = LayerStructural, fs_Rule = ''todo'', fs_Message = todo_message path todos\<rparr>)
       \<lparr>f_FilePath := Some path, f_FindingID := DeriveFindingID ''todo'' path []\<rparr>"

lemma Todos_emits:
  assumes "path \<noteq> []"
  shows "Todos \<lparr>fe_findings = Some l\<rparr> r b path ts =
    \<lparr>fe_findings = Some (l @ (if ts = [] then [] else [SaveFinding (todo_finding r b path ts)]))\<rparr>"
  using assms by (simp add: Todos_def NewFinding_file todo_finding_def sink_emit_def)

section \<open>What a save does\<close>

text \<open>
  A closed form of the calls that a save sends to the sink, by the diagnostics of the parse; lemma
  \<open>save_parsed\<close> proves that \<open>save\<close> sends exactly these.
\<close>

definition save_calls :: "string \<Rightarrow> string \<Rightarrow> string \<Rightarrow> ParseResult \<Rightarrow> bool \<Rightarrow> sink_call list" where
  "save_calls r b p res coldScan =
     (case pr_Failures res of
        [] \<Rightarrow> (if coldScan then [] else [CloseObsolete (parse_failure_id p) b])
      | x # _ \<Rightarrow> [SaveFinding (parse_failure_finding r b p (parse_failure_message p x))])
     @ (if pr_Todos res = [] then [] else [SaveFinding (todo_finding r b p (pr_Todos res))])"

definition file_of_result :: "ParseResult \<Rightarrow> File" where
  "file_of_result res = \<lparr>sf_Nodes = pr_Nodes res, sf_Edges = pr_Edges res,
     sf_UnresolvedCalls = pr_UnresolvedCalls res, sf_Imports = pr_Imports res\<rparr>"

text \<open>An ingester whose emitter writes to a sink that has received \<open>l\<close>.\<close>

definition ingester :: "CodeParser \<Rightarrow> Area \<Rightarrow> Gate \<Rightarrow> sink_call list \<Rightarrow> Ingester" where
  "ingester p a g l = NewIngester p a g [WithFindingStorage (Some l)]"

lemma ingester_eq:
  "ingester p a g l = \<lparr>ing_parser = p, ing_staging = a, ing_gate = g,
     ing_emitter = Some \<lparr>fe_findings = Some l\<rparr>\<rparr>"
  by (simp add: ingester_def NewIngester_def WithFindingStorage_def newFindingEmitter_def)

lemma save_blocked: "gt_paused g \<Longrightarrow> save mw (ingester ps a g l) r b p src cold = None"
  by (simp add: save_def WaitIfPaused_def ingester_eq)

lemma save_parse_error:
  "\<not> gt_paused g \<Longrightarrow> cp_ParseFile ps r p src = Inl e \<Longrightarrow>
   save mw (ingester ps a g l) r b p src cold = Some (ingester ps a (mw g) l)"
  by (simp add: save_def WaitIfPaused_def ingester_eq)

lemma save_parsed:
  assumes "\<not> gt_paused g" "cp_ParseFile ps r p src = Inr res" "p \<noteq> []"
  shows "save mw (ingester ps a g l) r b p src cold =
    Some (ingester ps
      (if gt_gen (mw g) = gt_gen g then area_put a (mk_key r b p) (entry_of (file_of_result res)) else a)
      (mw g) (l @ save_calls r b p res cold))"
proof -
  obtain area ok where st: "Stage a r b p (file_of_result res) [WithGenerationGuard (Generation g) (mw g)] = (area, ok)"
    by force
  then have area: "area = (if gt_gen (mw g) = gt_gen g
      then area_put a (mk_key r b p) (entry_of (file_of_result res)) else a)"
    by (auto simp: Stage_guarded Generation_def split: if_splits)
  show ?thesis
    using assms st area
    by (cases "pr_Failures res") (auto simp: save_def WaitIfPaused_def ingester_eq file_of_result_def
        with_emitter_def save_calls_def Todos_emits ClearParseFailure_emits ParseFailures_emits)
qed

lemma DeleteFile_eq:
  assumes "\<not> gt_paused g" "p \<noteq> []"
  shows "DeleteFile mw (ingester ps a g l) r b p =
    Some (ingester ps
      (if gt_gen (mw g) = gt_gen g then area_put a (mk_key r b p) (entry_of empty_file) else a)
      (mw g) (l @ [CloseObsolete (parse_failure_id p) b]))"
  using assms
  by (simp add: DeleteFile_def WaitIfPaused_def ingester_eq Stage_guarded Generation_def
      with_emitter_def ClearParseFailure_emits)

section \<open>The sink on the findings table\<close>

text \<open>What the log of sink calls does to the table of the repository, every call succeeding.\<close>

fun sink_apply :: "int \<Rightarrow> findings_table \<Rightarrow> sink_call \<Rightarrow> findings_table" where
  "sink_apply now t (SaveFinding f) = repo_save now t f"
| "sink_apply now t (CloseObsolete fid b) = repo_close_obsolete now t fid b"

definition sink_replay :: "int \<Rightarrow> findings_table \<Rightarrow> sink_call list \<Rightarrow> findings_table" where
  "sink_replay now t l = foldl (sink_apply now) t l"

lemma sink_replay_append: "sink_replay now t (l @ m) = sink_replay now (sink_replay now t l) m"
  by (simp add: sink_replay_def)

lemma sink_apply_wf: "gm_wf t \<Longrightarrow> gm_wf (sink_apply now t c)"
  by (cases c) (simp_all add: repo.wf_save repo.wf_close_obsolete)

lemma sink_replay_wf: "gm_wf t \<Longrightarrow> gm_wf (sink_replay now t l)"
  unfolding sink_replay_def by (induction l arbitrary: t) (simp_all add: sink_apply_wf)

lemma todo_finding_sel [simp]:
  "f_FindingID (todo_finding r b p ts) = DeriveFindingID ''todo'' p []"
  "f_Branch (todo_finding r b p ts) = b"
  "f_State (todo_finding r b p ts) = FindingStateOpen"
  by (simp_all add: todo_finding_def blank_finding_def)

lemma opened_save_calls:
  assumes "gm_wf t" "pr_Todos res = [] \<or> DeriveFindingID ''todo'' p [] \<noteq> parse_failure_id p"
  shows "repo_opened (sink_replay now t (save_calls r b p res False)) (parse_failure_id p) b =
    (if pr_Failures res = [] then None else Some (r, ''parse-failure''))"
  using assms
  by (cases "pr_Failures res") (auto simp: save_calls_def sink_replay_def repo.opened_save
      repo.opened_close_obsolete repo.wf_save repo.wf_close_obsolete)

lemma opened_other_branch:
  assumes "gm_wf t" "c \<noteq> b"
  shows "repo_opened (sink_replay now t (save_calls r b p res cold)) fid c = repo_opened t fid c"
  using assms
  by (cases "pr_Failures res") (simp_all add: save_calls_def sink_replay_def repo.opened_save
      repo.opened_close_obsolete repo.wf_save repo.wf_close_obsolete)

section \<open>Properties\<close>

text \<open>
  The effect of a save on every path: it blocks while the gate is paused; a parse error
  changes nothing; otherwise the parse result is staged exactly when the generation is still
  the one read on entry, and the diagnostics go to the sink in either case: one parse-failure
  finding (or, outside a cold scan, its closing) and at most one todo finding.
\<close>

theorem save_effect:
  assumes "p \<noteq> []"
  shows "save mw (ingester ps a g l) r b p src cold =
    (if gt_paused g then None
     else case cp_ParseFile ps r p src of
            Inl e \<Rightarrow> Some (ingester ps a (mw g) l)
          | Inr res \<Rightarrow> Some (ingester ps
              (if gt_gen (mw g) = gt_gen g then area_put a (mk_key r b p) (entry_of (file_of_result res)) else a)
              (mw g) (l @ save_calls r b p res cold)))"
  using assms save_blocked save_parse_error save_parsed by (simp split: sum.split)

definition sample_result :: ParseResult where
  "sample_result = \<lparr>pr_Nodes = [], pr_Edges = [], pr_Failures = [], pr_Todos = [], pr_UnresolvedCalls = [], pr_Imports = []\<rparr>"

definition sample_parser :: CodeParser where
  "sample_parser = \<lparr>cp_ParseFile = (\<lambda>r p src. if src = ''bad''
       then Inr (sample_result\<lparr>pr_Failures := [\<lparr>pf_Line = 3, pf_Message = ''syntax''\<rparr>]\<rparr>) else Inr sample_result),
     cp_SupportedExtensions = Some [''.go'']\<rparr>"

theorem save_effect_witness:
  "save id (ingester sample_parser NewArea NewGate []) ''r'' ''main'' ''a.go'' ''ok'' False =
     Some (ingester sample_parser (area_put NewArea (mk_key ''r'' ''main'' ''a.go'') (entry_of empty_file)) NewGate
       [CloseObsolete (parse_failure_id ''a.go'') ''main''])"
proof -
  have "file_of_result sample_result = empty_file"
    by (simp add: file_of_result_def sample_result_def empty_file_def)
  then show ?thesis
    using save_effect [of "''a.go''" id sample_parser NewArea NewGate "[]" "''r''" "''main''" "''ok''" False]
    by (simp add: NewGate_def sample_parser_def save_calls_def sample_result_def)
qed

text \<open>Saving a path again and again, with nothing in between.\<close>

fun save_all :: "Ingester \<Rightarrow> string \<Rightarrow> string \<Rightarrow> string \<Rightarrow> string list \<Rightarrow> Ingester option" where
  "save_all ing r b p [] = Some ing"
| "save_all ing r b p (src # srcs) = Option.bind (Save id ing r b p src) (\<lambda>ing'. save_all ing' r b p srcs)"

text \<open>
  The calls an ingester has sent to its sink, and the finding a path has open once they have
  reached the table.
\<close>

definition sink_log :: "Ingester \<Rightarrow> sink_call list" where
  "sink_log ing = (case ing_emitter ing of None \<Rightarrow> [] | Some e \<Rightarrow> (case fe_findings e of None \<Rightarrow> [] | Some l \<Rightarrow> l))"

definition open_failure :: "int \<Rightarrow> findings_table \<Rightarrow> Ingester \<Rightarrow> string \<Rightarrow> string \<Rightarrow> (string \<times> string) option" where
  "open_failure now t ing b p = repo_opened (sink_replay now t (sink_log ing)) (parse_failure_id p) b"

definition fails_to_parse :: "CodeParser \<Rightarrow> string \<Rightarrow> string \<Rightarrow> string \<Rightarrow> bool" where
  "fails_to_parse ps r p src \<longleftrightarrow> (case cp_ParseFile ps r p src of Inl _ \<Rightarrow> False | Inr res \<Rightarrow> pr_Failures res \<noteq> [])"

text \<open>The parser returns a result, whose todo finding does not collide with the parse failure of the path.\<close>

definition parses :: "CodeParser \<Rightarrow> string \<Rightarrow> string \<Rightarrow> string \<Rightarrow> bool" where
  "parses ps r p src \<longleftrightarrow> (case cp_ParseFile ps r p src of Inl _ \<Rightarrow> False
     | Inr res \<Rightarrow> pr_Todos res = [] \<or> DeriveFindingID ''todo'' p [] \<noteq> DeriveFindingID ''parse-failure'' p [])"

lemma sink_log_ingester [simp]: "sink_log (ingester ps a g l) = l"
  by (simp add: sink_log_def ingester_eq)

lemma save_opens:
  assumes "gm_wf t" "p \<noteq> []" "\<not> gt_paused g" "parses ps r p src"
  shows "\<exists>a' l'. Save id (ingester ps a g l) r b p src = Some (ingester ps a' g l')
    \<and> open_failure now t (ingester ps a' g l') b p = (if fails_to_parse ps r p src then Some (r, ''parse-failure'') else None)"
proof -
  obtain res where res: "cp_ParseFile ps r p src = Inr res" "pr_Todos res = [] \<or> DeriveFindingID ''todo'' p [] \<noteq> parse_failure_id p"
    using assms(4) by (auto simp: parses_def parse_failure_id_def split: sum.splits)
  have "repo_opened (sink_replay now t (l @ save_calls r b p res False)) (parse_failure_id p) b
      = (if pr_Failures res = [] then None else Some (r, ''parse-failure''))"
    unfolding sink_replay_append by (rule opened_save_calls [OF sink_replay_wf [OF assms(1)] res(2)])
  then show ?thesis using save_parsed [OF assms(3) res(1) assms(2), of id a l b False] res(1)
    by (intro exI [of _ "area_put a (mk_key r b p) (entry_of (file_of_result res))"] exI [of _ "l @ save_calls r b p res False"])
      (simp add: Save_def open_failure_def fails_to_parse_def)
qed

lemma saves_open:
  assumes "gm_wf t" "p \<noteq> []" "\<not> gt_paused g" "\<forall>src \<in> set srcs. parses ps r p src" "srcs \<noteq> []"
  shows "\<exists>a' l'. save_all (ingester ps a g l) r b p srcs = Some (ingester ps a' g l')
    \<and> open_failure now t (ingester ps a' g l') b p = (if fails_to_parse ps r p (last srcs) then Some (r, ''parse-failure'') else None)"
  using assms(4,5)
proof (induction srcs arbitrary: a l)
  case (Cons src srcs)
  obtain a1 l1 where s: "Save id (ingester ps a g l) r b p src = Some (ingester ps a1 g l1)"
    "open_failure now t (ingester ps a1 g l1) b p = (if fails_to_parse ps r p src then Some (r, ''parse-failure'') else None)"
    using save_opens [OF assms(1-3), of ps r src a l b now] Cons.prems(1) by force
  show ?case
  proof (cases "srcs = []")
    case True
    then show ?thesis using s by (intro exI [of _ a1] exI [of _ l1]) simp
  qed (use Cons.IH [of a1 l1] Cons.prems(1) s(1) in simp)
qed simp

text \<open>
  C31. The life of a parse failure, from the sources a user saves to the findings table. After any
  sequence of saves of a path outside a cold scan the parse-failure finding of the path is open
  exactly if the last source failed to parse, then for the repository that saved it; deleting the
  file closes it. The parser returns a result for every source, and the identity of the todo
  finding of the path, should a source have todos, is not that of its parse failure.
\<close>

theorem parse_failure_lifecycle:
  assumes "gm_wf t" and "p \<noteq> []" and "\<not> gt_paused g" and "\<forall>src \<in> set srcs. parses ps r p src" and "srcs \<noteq> []"
  shows "\<exists>ing ing'. save_all (ingester ps a g l) r b p srcs = Some ing
    \<and> open_failure now t ing b p = (if fails_to_parse ps r p (last srcs) then Some (r, ''parse-failure'') else None)
    \<and> DeleteFile id ing r b p = Some ing' \<and> open_failure now t ing' b p = None"
proof -
  obtain a' l' where s: "save_all (ingester ps a g l) r b p srcs = Some (ingester ps a' g l')"
    "open_failure now t (ingester ps a' g l') b p = (if fails_to_parse ps r p (last srcs) then Some (r, ''parse-failure'') else None)"
    using saves_open [OF assms] by blast
  have "open_failure now t (ingester ps a'' g (l' @ [CloseObsolete (parse_failure_id p) b])) b p = None" for a''
    using sink_replay_wf [OF assms(1), of now l']
    by (simp add: open_failure_def sink_replay_append) (simp add: sink_replay_def repo.opened_close_obsolete)
  then show ?thesis using s DeleteFile_eq [OF assms(3,2), of id ps a' l' r b] by auto
qed

theorem parse_failure_lifecycle_witness:
  "\<exists>ing ing'. save_all (ingester sample_parser NewArea NewGate []) ''r'' ''main'' ''a.go'' [''ok'', ''bad''] = Some ing
    \<and> open_failure 0 [] ing ''main'' ''a.go'' = Some (''r'', ''parse-failure'')
    \<and> DeleteFile id ing ''r'' ''main'' ''a.go'' = Some ing' \<and> open_failure 0 [] ing' ''main'' ''a.go'' = None"
proof -
  have "\<not> gt_paused NewGate" "\<forall>src \<in> set [''ok'', ''bad'']. parses sample_parser ''r'' ''a.go'' src"
    "fails_to_parse sample_parser ''r'' ''a.go'' (last [''ok'', ''bad''])"
    by (simp_all add: NewGate_def parses_def fails_to_parse_def sample_parser_def sample_result_def)
  then show ?thesis
    using parse_failure_lifecycle [of "[]" "''a.go''" NewGate "[''ok'', ''bad'']" sample_parser "''r''" NewArea "[]" "''main''" 0] by simp
qed

text \<open>
  File-anchored findings of two repositories share one row: the identity does not contain
  the repository and the primary key is identity and branch, so a clean save of a path in one
  repository closes the open parse-failure finding of the same path and branch in another.
\<close>

theorem parse_failure_row_shared_across_repos:
  assumes "gm_wf t" and "repo_opened t (parse_failure_id p) b = Some (r, ''parse-failure'')"
    and "pr_Failures good = []" and "pr_Todos good = []"
  shows "repo_opened (sink_replay now t (save_calls other b p good False)) (parse_failure_id p) b = None"
  using assms by (simp add: save_calls_def sink_replay_def repo.opened_close_obsolete)

theorem parse_failure_row_shared_across_repos_witness:
  "repo_opened (sink_replay 0 (sink_replay 0 [] [SaveFinding (parse_failure_finding ''r'' ''main'' ''a.go'' ''m'')])
     (save_calls ''s'' ''main'' ''a.go'' sample_result False)) (parse_failure_id ''a.go'') ''main'' = None"
  by (rule parse_failure_row_shared_across_repos [where r = "''r''"])
    (simp_all add: sink_replay_def sample_result_def repo.wf_save repo.opened_save)

end
