(* ===== verification/Checks.thy ===== *)
theory Checks
  imports Runes Finding_Repo
begin

text \<open>
  \<open>internal/application/pathfilter\<close> and \<open>internal/application/checks\<close>: the path vocabulary, the
  structural checks (contract drift, dead code, untested symbols) over their query ports, the
  registry of checks and the runner that persists what the checks return. The query ports are
  functions; \<open>unicode.IsUpper\<close> and the quoting of \<open>%q\<close> are parameters.
\<close>

section \<open>Path vocabulary\<close>

definition VendoredSegments :: "string list" where
  "VendoredSegments = [''vendor'', ''node_modules'', ''third_party'', ''bower_components'', ''jspm_packages'']"

definition IsVendored :: "string \<Rightarrow> bool" where
  "IsVendored path \<longleftrightarrow>
     (if path = [] then False
      else list_ex (\<lambda>seg. seg \<in> set VendoredSegments) (split_on (CHR ''/'') path))"

definition IsTestFile :: "string \<Rightarrow> bool" where
  "IsTestFile path \<longleftrightarrow>
     (if path = [] then False
      else let base = after_last (\<lambda>c. c = CHR ''/'' \<or> c = CHR 0x5C) path
           in HasSuffix base ''_test.go''
              \<or> HasPrefix base ''test_'' \<and> HasSuffix base ''.py''
              \<or> HasSuffix base ''_test.py''
              \<or> list_ex (HasSuffix base)
                  [''.test.ts'', ''.test.tsx'', ''.test.js'', ''.test.jsx'',
                   ''.spec.ts'', ''.spec.tsx'', ''.spec.js'', ''.spec.jsx''])"

section \<open>Inputs and query results\<close>

record Line =
  ln_Number :: int
  ln_Text :: string

record Input =
  in_RepoID :: string
  in_Branch :: string
  in_GitSHA :: string
  in_FilePaths :: "string list"
  in_AddedLines :: "(string, Line list) gomap"

record NodeRef =
  nr_NodeID :: string
  nr_FilePath :: string
  nr_Kind :: string
  nr_Name :: string
  nr_LineStart :: int
  nr_LineEnd :: int
  nr_ContentHash :: string

record DriftedNode =
  dn_NodeID :: string
  dn_FilePath :: string
  dn_Kind :: string
  dn_Name :: string
  dn_PrevSig :: string
  dn_NewSig :: string
  dn_LineStart :: int
  dn_LineEnd :: int
  dn_ContentHash :: string
  dn_Exported :: bool

record NodeCallers =
  nc_Node :: NodeRef
  nc_CallerFiles :: "string list"

text \<open>The options of a finding anchored on a node whose content hash may be unknown.\<close>

definition node_anchor_opts :: "string \<Rightarrow> string \<Rightarrow> FindingOption list" where
  "node_anchor_opts nodeID hash =
     WithNodeAnchor nodeID # (if hash \<noteq> [] then [WithAnchorContentHash hash] else [])"

text \<open>The loop of a check: one candidate finding per row, a row that yields none is skipped.\<close>

fun collect_ok :: "('a \<Rightarrow> Finding result) \<Rightarrow> 'a list \<Rightarrow> Finding option list" where
  "collect_ok mk [] = []"
| "collect_ok mk (x # xs) =
     (case mk x of Inl e \<Rightarrow> collect_ok mk xs | Inr f \<Rightarrow> Some f # collect_ok mk xs)"

section \<open>Contract drift\<close>

definition ContractDriftCheck_Run ::
  "(string \<Rightarrow> string) \<Rightarrow> (string \<Rightarrow> string \<Rightarrow> string list \<Rightarrow> DriftedNode list result) option \<Rightarrow> Input
     \<Rightarrow> Finding option list result" where
  "ContractDriftCheck_Run quote q inp =
     (case q of
        None \<Rightarrow> Inl (Errorf ''contract-drift: nil querier'' [])
      | Some drifted_nodes \<Rightarrow>
          if in_FilePaths inp = [] then Inr []
          else case drifted_nodes (in_RepoID inp) (in_Branch inp) (in_FilePaths inp) of
                 Inl e \<Rightarrow> Inl (Wrap ''contract-drift: query: %w'' [] e)
               | Inr drifted \<Rightarrow>
                   Inr (collect_ok
                     (\<lambda>d. NewFinding
                        \<lparr>fs_RepoID = in_RepoID inp, fs_Branch = in_Branch inp,
                         fs_Severity = SeverityMedium, fs_Layer = LayerStructural,
                         fs_Rule = ''contract-drift'',
                         fs_Message = ''signature of '' @ dn_Kind d @ '' '' @ quote (dn_Name d) @ '' in ''
                           @ dn_FilePath d @ '' changed on branch '' @ in_Branch inp @ '': ''
                           @ quote (dn_PrevSig d) @ '' -> '' @ quote (dn_NewSig d)\<rparr>
                        (node_anchor_opts (dn_NodeID d) (dn_ContentHash d)))
                     drifted))"

section \<open>Dead code\<close>

definition deadCodeKinds :: "string list" where
  "deadCodeKinds = [''function'', ''method'', ''class'']"

definition isDeadCodeCandidate :: "NodeRef \<Rightarrow> bool" where
  "isDeadCodeCandidate n \<longleftrightarrow> nr_Kind n \<in> set deadCodeKinds"

definition isTestFile :: "string \<Rightarrow> bool" where
  "isTestFile path = IsTestFile path"

definition isInterfaceMethodImpl :: "string \<Rightarrow> string list \<Rightarrow> bool" where
  "isInterfaceMethodImpl name ifaceMethods \<longleftrightarrow>
     (if ifaceMethods = [] \<or> name = [] then False
      else if CHR ''.'' \<notin> set name then False
      else let bare = after_last (\<lambda>c. c = CHR ''.'') name
           in if bare = [] then False else bare \<in> set ifaceMethods)"

definition isExternalEntry :: "(nat \<Rightarrow> bool) \<Rightarrow> NodeRef \<Rightarrow> bool" where
  "isExternalEntry isUpper n \<longleftrightarrow>
     (let name = nr_Name n
      in if name = [] then True
         else if name = ''main'' \<or> name = ''init'' then True
         else if HasPrefix name ''Test'' \<or> HasPrefix name ''Example'' \<or> HasPrefix name ''Benchmark'' then True
         else let r = fst (decode_rune (bytes_of name)) in r \<noteq> RuneError \<and> isUpper r)"

record DeadCodeQuerier =
  dq_DeadNodesInFiles :: "string \<Rightarrow> string \<Rightarrow> string list \<Rightarrow> NodeRef list result"
  dq_InterfaceMethodNames :: "string \<Rightarrow> string \<Rightarrow> string list result"

record DeadCodeCheck =
  dc_q :: "DeadCodeQuerier option"
  dc_repoKind :: "(string \<Rightarrow> string result) option"

definition is_ephemeral :: "(string \<Rightarrow> string result) option \<Rightarrow> string \<Rightarrow> bool" where
  "is_ephemeral repoKind repoID \<longleftrightarrow>
     (case repoKind of None \<Rightarrow> False | Some k \<Rightarrow> k repoID = Inr ''ephemeral'')"

text \<open>The interface methods to suppress; a failed lookup suppresses nothing.\<close>

definition iface_names :: "string list result \<Rightarrow> string list" where
  "iface_names r = (case r of Inl _ \<Rightarrow> [] | Inr names \<Rightarrow> names)"

definition dead_reported :: "(nat \<Rightarrow> bool) \<Rightarrow> string list \<Rightarrow> NodeRef \<Rightarrow> bool" where
  "dead_reported isUpper ifaceMethods n \<longleftrightarrow>
     \<not> (\<not> isDeadCodeCandidate n \<or> isExternalEntry isUpper n \<or> isTestFile (nr_FilePath n)
        \<or> IsVendored (nr_FilePath n))
     \<and> \<not> (nr_Kind n = ''method'' \<and> isInterfaceMethodImpl (nr_Name n) ifaceMethods)"

definition dead_finding :: "(string \<Rightarrow> string) \<Rightarrow> Input \<Rightarrow> NodeRef \<Rightarrow> Finding result" where
  "dead_finding quote inp n =
     NewFinding
       \<lparr>fs_RepoID = in_RepoID inp, fs_Branch = in_Branch inp, fs_Severity = SeverityLow,
        fs_Layer = LayerStructural, fs_Rule = ''dead-code'',
        fs_Message = ''symbol '' @ quote (nr_Name n) @ '' in '' @ nr_FilePath n
          @ '' has no inbound edges on branch '' @ in_Branch inp\<rparr>
       (node_anchor_opts (nr_NodeID n) (nr_ContentHash n))"

definition DeadCodeCheck_Run ::
  "(string \<Rightarrow> string) \<Rightarrow> (nat \<Rightarrow> bool) \<Rightarrow> DeadCodeCheck \<Rightarrow> Input \<Rightarrow> Finding option list result" where
  "DeadCodeCheck_Run quote isUpper c inp =
     (case dc_q c of
        None \<Rightarrow> Inl (Errorf ''dead-code: nil querier'' [])
      | Some q \<Rightarrow>
          if in_FilePaths inp = [] then Inr []
          else if is_ephemeral (dc_repoKind c) (in_RepoID inp) then Inr []
          else case dq_DeadNodesInFiles q (in_RepoID inp) (in_Branch inp) (in_FilePaths inp) of
                 Inl e \<Rightarrow> Inl (Wrap ''dead-code: query: %w'' [] e)
               | Inr dead \<Rightarrow>
                   let ifaceMethods = iface_names (dq_InterfaceMethodNames q (in_RepoID inp) (in_Branch inp))
                   in Inr (collect_ok (dead_finding quote inp) (filter (dead_reported isUpper ifaceMethods) dead)))"

section \<open>Untested symbols\<close>

definition hasTestCaller :: "string list \<Rightarrow> bool" where
  "hasTestCaller callerFiles \<longleftrightarrow> list_ex isTestFile callerFiles"

record UntestedSymbolCheck =
  us_q :: "(string \<Rightarrow> string \<Rightarrow> string list \<Rightarrow> NodeCallers list result) option"
  us_repoKind :: "(string \<Rightarrow> string result) option"
  us_ifaceMethods :: "(string \<Rightarrow> string \<Rightarrow> string list result) option"

definition untested_reported :: "string list \<Rightarrow> NodeCallers \<Rightarrow> bool" where
  "untested_reported ifaceMethods nc \<longleftrightarrow>
     (let n = nc_Node nc
      in \<not> (\<not> isDeadCodeCandidate n \<or> isTestFile (nr_FilePath n) \<or> IsVendored (nr_FilePath n))
         \<and> \<not> (nr_Name n = ''main'' \<or> nr_Name n = ''init'')
         \<and> \<not> (nr_Kind n = ''method'' \<and> isInterfaceMethodImpl (nr_Name n) ifaceMethods)
         \<and> \<not> hasTestCaller (nc_CallerFiles nc))"

definition untested_finding :: "(string \<Rightarrow> string) \<Rightarrow> Input \<Rightarrow> NodeCallers \<Rightarrow> Finding result" where
  "untested_finding quote inp nc =
     (let n = nc_Node nc
      in NewFinding
           \<lparr>fs_RepoID = in_RepoID inp, fs_Branch = in_Branch inp, fs_Severity = SeverityLow,
            fs_Layer = LayerStructural, fs_Rule = ''untested-symbol'',
            fs_Message = ''symbol '' @ quote (nr_Name n) @ '' in '' @ nr_FilePath n
              @ '' has no test-file caller on branch '' @ in_Branch inp
              @ '' - likely untested (CALLS-edge proxy)''\<rparr>
           (node_anchor_opts (nr_NodeID n) (nr_ContentHash n)))"

definition UntestedSymbolCheck_Run ::
  "(string \<Rightarrow> string) \<Rightarrow> UntestedSymbolCheck \<Rightarrow> Input \<Rightarrow> Finding option list result" where
  "UntestedSymbolCheck_Run quote c inp =
     (case us_q c of
        None \<Rightarrow> Inl (Errorf ''untested-symbol: nil querier'' [])
      | Some q \<Rightarrow>
          if in_FilePaths inp = [] then Inr []
          else if is_ephemeral (us_repoKind c) (in_RepoID inp) then Inr []
          else case q (in_RepoID inp) (in_Branch inp) (in_FilePaths inp) of
                 Inl e \<Rightarrow> Inl (Wrap ''untested-symbol: query: %w'' [] e)
               | Inr cands \<Rightarrow>
                   let ifaceMethods = (case us_ifaceMethods c of None \<Rightarrow> []
                         | Some l \<Rightarrow> iface_names (l (in_RepoID inp) (in_Branch inp)))
                   in Inr (collect_ok (untested_finding quote inp)
                             (filter (untested_reported ifaceMethods) cands)))"

section \<open>Registry and runner\<close>

text \<open>A call of \<open>Check.Run\<close> returns findings or an error, or panics.\<close>

datatype check_outcome = Returned "Finding option list result" | Panicked string

record Check =
  ck_Name :: string
  ck_Run :: "Input \<Rightarrow> check_outcome"
  ck_AuthoritativeRule :: "(Input \<Rightarrow> string \<times> bool) option"

record Registry =
  rg_checks :: "Check list"
  rg_names :: "string list"

definition NewRegistry :: Registry where
  "NewRegistry = \<lparr>rg_checks = [], rg_names = []\<rparr>"

definition Register :: "Registry \<Rightarrow> Check \<Rightarrow> Registry" where
  "Register r c =
     (if ck_Name c \<in> set (rg_names r) then r
      else r\<lparr>rg_names := ck_Name c # rg_names r, rg_checks := rg_checks r @ [c]\<rparr>)"

definition Names :: "Registry \<Rightarrow> string list" where
  "Names r = map ck_Name (rg_checks r)"

definition registry_snapshot :: "Registry \<Rightarrow> Check list" where
  "registry_snapshot r = rg_checks r"

text \<open>
  The storage a runner writes to: the findings table, or nil. \<open>save_fault\<close> and \<open>close_fault\<close>
  give the outcome of each statement. Saving through a nil port panics, and the panic is
  recovered; the table stays as the panic left it.
\<close>

record Runner =
  rn_registry :: "Registry option"
  rn_storage :: "findings_table option"

fun save_findings ::
  "(nat \<Rightarrow> err option) \<Rightarrow> nat \<Rightarrow> int \<Rightarrow> Finding option list \<Rightarrow> findings_table \<Rightarrow> findings_table \<times> string list" where
  "save_findings flt i now [] t = (t, [])"
| "save_findings flt i now (None # fs) t = save_findings flt i now fs t"
| "save_findings flt i now (Some f # fs) t =
     (let (t1, err) = FindingRepo_Save (flt i) now t (Some f);
          (t2, keep) = save_findings flt (Suc i) now fs t1
      in (t2, f_FindingID f # keep))"

definition runOne ::
  "(nat \<Rightarrow> err option) \<Rightarrow> (nat \<Rightarrow> err option) \<Rightarrow> int \<Rightarrow> Input \<Rightarrow> Check \<Rightarrow> findings_table option \<Rightarrow> findings_table option" where
  "runOne save_fault close_fault now inp c storage =
     (case ck_Run c inp of
        Panicked _ \<Rightarrow> storage
      | Returned (Inl e) \<Rightarrow> storage
      | Returned (Inr findings) \<Rightarrow>
          (case storage of
             None \<Rightarrow> None
           | Some t \<Rightarrow>
               let (t1, keep) = save_findings save_fault 0 now findings t
               in (case ck_AuthoritativeRule c of
                     None \<Rightarrow> Some t1
                   | Some auth \<Rightarrow>
                       let (rule, on) = auth inp
                       in if on \<and> rule \<noteq> []
                          then Some (fst (CloseSupersededByRule close_fault now t1 (in_RepoID inp) (in_Branch inp) rule keep))
                          else Some t1)))"

definition Runner_Run ::
  "(nat \<Rightarrow> err option) \<Rightarrow> (nat \<Rightarrow> err option) \<Rightarrow> int \<Rightarrow> Runner option \<Rightarrow> Input \<Rightarrow> Runner option" where
  "Runner_Run save_fault close_fault now ro inp =
     (case ro of
        None \<Rightarrow> None
      | Some r \<Rightarrow>
          (case rn_registry r of
             None \<Rightarrow> Some r
           | Some reg \<Rightarrow>
               Some (r\<lparr>rn_storage := foldl (\<lambda>st c. runOne save_fault close_fault now inp c st)
                         (rn_storage r) (registry_snapshot reg)\<rparr>)))"

section \<open>What the checks report\<close>

lemma set_collect_ok: "set (collect_ok mk xs) = {Some f | f x. x \<in> set xs \<and> mk x = Inr f}"
  by (induction xs) (auto split: sum.splits)

text \<open>
  A node-anchored finding is built from every row whose node identifier is not empty, and from
  no other.
\<close>

lemma NewFinding_node:
  assumes "fs_Rule spec \<noteq> []" "Severity_valid (fs_Severity spec)" "SourceLayer_valid (fs_Layer spec)"
  shows "NewFinding spec (node_anchor_opts nodeID hash) =
    (if nodeID = [] then Inl (Errs ''finding: node_id anchor must not be empty'')
     else Inr ((blank_finding spec)\<lparr>f_NodeID := Some nodeID,
       f_AnchorContentHash := (if hash = [] then None else Some hash),
       f_FindingID := DeriveFindingID (fs_Rule spec) nodeID []\<rparr>))"
  using assms
  by (simp add: NewFinding_def node_anchor_opts_def WithNodeAnchor_def WithAnchorContentHash_def
      blank_finding_def Let_def)

lemma low_valid [simp]: "Severity_valid SeverityLow" "Severity_valid SeverityMedium"
  "SourceLayer_valid LayerStructural"
  by (simp_all add: Severity_valid_def severityOrder_def severity_defs SourceLayer_valid_def
      validSourceLayers_def layer_defs)

lemma dead_finding_eq:
  "dead_finding quote inp n = Inr f \<longleftrightarrow> nr_NodeID n \<noteq> [] \<and>
     f = (blank_finding \<lparr>fs_RepoID = in_RepoID inp, fs_Branch = in_Branch inp, fs_Severity = SeverityLow,
        fs_Layer = LayerStructural, fs_Rule = ''dead-code'',
        fs_Message = ''symbol '' @ quote (nr_Name n) @ '' in '' @ nr_FilePath n
          @ '' has no inbound edges on branch '' @ in_Branch inp\<rparr>)
       \<lparr>f_NodeID := Some (nr_NodeID n),
        f_AnchorContentHash := (if nr_ContentHash n = [] then None else Some (nr_ContentHash n)),
        f_FindingID := DeriveFindingID ''dead-code'' (nr_NodeID n) []\<rparr>"
  by (auto simp: dead_finding_def NewFinding_node)

lemma dead_finding_sel:
  assumes "dead_finding quote inp n = Inr f"
  shows "f_NodeID f = Some (nr_NodeID n)" "f_State f = FindingStateOpen" "f_RepoID f = in_RepoID inp"
    "f_Branch f = in_Branch inp" "f_Rule f = ''dead-code''"
    "f_FindingID f = DeriveFindingID ''dead-code'' (nr_NodeID n) []"
  using assms by (auto simp: dead_finding_eq blank_finding_def)

lemma untested_finding_sel:
  assumes "untested_finding quote inp nc = Inr f"
  shows "f_NodeID f = Some (nr_NodeID (nc_Node nc))" "f_State f = FindingStateOpen"
    "f_RepoID f = in_RepoID inp" "f_Branch f = in_Branch inp" "f_Rule f = ''untested-symbol''"
  using assms by (auto simp: untested_finding_def Let_def NewFinding_node blank_finding_def split: if_splits)

lemma untested_finding_ok: "nr_NodeID (nc_Node nc) \<noteq> [] \<Longrightarrow> \<exists>f. untested_finding quote inp nc = Inr f"
  by (simp add: untested_finding_def Let_def NewFinding_node)

lemma dead_finding_ok: "nr_NodeID n \<noteq> [] \<Longrightarrow> \<exists>f. dead_finding quote inp n = Inr f"
  by (simp add: dead_finding_eq)

lemma collect_ok_anchors:
  assumes "\<And>x. x \<in> set xs \<Longrightarrow> \<exists>f. mk x = Inr f" and "\<And>x f. mk x = Inr f \<Longrightarrow> f_NodeID f = Some (g x)"
  shows "map (map_option f_NodeID) (collect_ok mk xs) = map (\<lambda>x. Some (Some (g x))) xs"
  using assms(1)
proof (induction xs)
  case (Cons x xs)
  obtain f where "mk x = Inr f" using Cons.prems [of x] by auto
  then show ?case using Cons assms(2) [of x f] by simp
qed simp

lemma dead_reported_callable:
  "dead_reported isUpper names = (\<lambda>n. (nr_Kind n = ''function'' \<or> nr_Kind n = ''method'' \<or> nr_Kind n = ''class'')
     \<and> \<not> isExternalEntry isUpper n \<and> \<not> IsTestFile (nr_FilePath n) \<and> \<not> IsVendored (nr_FilePath n)
     \<and> \<not> (nr_Kind n = ''method'' \<and> isInterfaceMethodImpl (nr_Name n) names))"
  by (rule ext)
    (unfold dead_reported_def isDeadCodeCandidate_def deadCodeKinds_def isTestFile_def list.set insert_iff empty_iff, blast)

lemma untested_reported_callable:
  "untested_reported names = (\<lambda>nc. let n = nc_Node nc in
     (nr_Kind n = ''function'' \<or> nr_Kind n = ''method'' \<or> nr_Kind n = ''class'')
     \<and> \<not> IsTestFile (nr_FilePath n) \<and> \<not> IsVendored (nr_FilePath n)
     \<and> nr_Name n \<noteq> ''main'' \<and> nr_Name n \<noteq> ''init''
     \<and> \<not> (nr_Kind n = ''method'' \<and> isInterfaceMethodImpl (nr_Name n) names)
     \<and> (\<forall>p \<in> set (nc_CallerFiles nc). \<not> IsTestFile p))"
  by (rule ext)
    (unfold untested_reported_def Let_def isDeadCodeCandidate_def deadCodeKinds_def isTestFile_def hasTestCaller_def
      list_ex_iff list.set insert_iff empty_iff, blast)

section \<open>What the runner persists\<close>

lemma repo_save_eq: "FindingRepo_Save None now t (Some f) = (repo_save now t f, None)"
  by (simp add: repo_save_def FindingRepo_Save_def)

lemma save_findings_ok:
  "save_findings (\<lambda>_. None) i now fs t = (foldl (repo_save now) t (somes fs), map f_FindingID (somes fs))"
proof (induction fs arbitrary: i t)
  case (Cons x fs)
  then show ?case by (cases x) (simp_all add: repo_save_eq)
qed simp

lemma save_findings_keep: "snd (save_findings flt i now fs t) = map f_FindingID (somes fs)"
proof (induction fs arbitrary: i t)
  case (Cons x fs)
  then show ?case
    by (cases x) (auto simp: Let_def split: prod.splits, metis snd_conv)
qed simp

text \<open>A healthy call is one that returns findings.\<close>

definition healthy :: "Input \<Rightarrow> Check \<Rightarrow> bool" where
  "healthy inp c \<longleftrightarrow> (\<exists>fs. ck_Run c inp = Returned (Inr fs))"

lemma runOne_unhealthy: "\<not> healthy inp c \<Longrightarrow> runOne sf cf now inp c st = st"
  by (auto simp: runOne_def healthy_def split: check_outcome.splits sum.splits)

lemma foldl_runOne_filter:
  "foldl (\<lambda>st c. runOne sf cf now inp c st) st cs
   = foldl (\<lambda>st c. runOne sf cf now inp c st) st (filter (healthy inp) cs)"
  by (induction cs arbitrary: st) (auto simp: runOne_unhealthy)

definition registry_wf :: "Registry \<Rightarrow> bool" where
  "registry_wf r \<longleftrightarrow> distinct (Names r) \<and> set (rg_names r) = set (Names r)"

lemma registry_wf_New: "registry_wf NewRegistry"
  by (simp add: registry_wf_def NewRegistry_def Names_def)

lemma registry_wf_Register: "registry_wf r \<Longrightarrow> registry_wf (Register r c)"
  by (auto simp: registry_wf_def Register_def Names_def)

lemma registry_wf_built: "registry_wf (foldl Register NewRegistry cs)"
proof -
  have "registry_wf r \<Longrightarrow> registry_wf (foldl Register r cs)" for r
    by (induction cs arbitrary: r) (auto intro: registry_wf_Register)
  then show ?thesis by (simp add: registry_wf_New)
qed

lemma Names_Register:
  "registry_wf r \<Longrightarrow> Names (Register r c) = (if ck_Name c \<in> set (Names r) then Names r else Names r @ [ck_Name c])"
  by (auto simp: Register_def Names_def registry_wf_def)

lemma Names_built: "Names (foldl Register NewRegistry cs) = dedup (map ck_Name cs)"
proof -
  have "registry_wf r \<Longrightarrow> set seen = set (Names r) \<Longrightarrow>
      Names (foldl Register r cs) = Names r @ dedup_from seen (map ck_Name cs)" for r seen
  proof (induction cs arbitrary: r seen)
    case (Cons c cs)
    have wf: "registry_wf (Register r c)" using Cons.prems(1) by (rule registry_wf_Register)
    show ?case
    proof (cases "ck_Name c \<in> set (Names r)")
      case True
      then have "Register r c = r" using Cons.prems(1) by (simp add: Register_def registry_wf_def)
      then show ?thesis using Cons.IH [OF Cons.prems] Cons.prems(2) True by simp
    next
      case False
      then have "set (ck_Name c # seen) = set (Names (Register r c))"
        using Cons.prems by (auto simp: Names_Register)
      then show ?thesis using Cons.IH [OF wf] False Cons.prems by (simp add: Names_Register)
    qed
  qed simp
  from this [OF registry_wf_New, of "[]"] show ?thesis
    by (simp add: dedup_def NewRegistry_def Names_def)
qed

lemma runOne_reconciles:
  assumes "gm_wf t" and run: "ck_Run c inp = Returned (Inr fs)" and auth: "ck_AuthoritativeRule c = Some au"
    and on: "au inp = (rule, True)" "rule \<noteq> []"
    and ours: "\<And>f. Some f \<in> set fs \<Longrightarrow> f_State f = FindingStateOpen \<and> f_RepoID f = in_RepoID inp
      \<and> f_Branch f = in_Branch inp \<and> f_Rule f = rule"
  shows "\<exists>t'. runOne (\<lambda>_. None) (\<lambda>_. None) now inp c (Some t) = Some t'
    \<and> (\<forall>fid. repo_opened t' fid (in_Branch inp) = Some (in_RepoID inp, rule) \<longleftrightarrow> fid \<in> f_FindingID ` {f. Some f \<in> set fs})"
proof -
  let ?t' = "repo_close_rule now (foldl (repo_save now) t (somes fs)) (in_RepoID inp) (in_Branch inp) rule
               (map f_FindingID (somes fs))"
  have "runOne (\<lambda>_. None) (\<lambda>_. None) now inp c (Some t) = Some ?t'"
    using run auth on by (simp add: runOne_def save_findings_ok repo_close_rule_def)
  moreover have "repo_opened ?t' fid (in_Branch inp) = Some (in_RepoID inp, rule) \<longleftrightarrow> fid \<in> f_FindingID ` set (somes fs)" for fid
    using repo.reconcile [of t "somes fs"] assms(1) ours by simp
  ultimately show ?thesis by auto
qed

section \<open>Properties\<close>

text \<open>
  The dead-code check reports exactly the nodes of the query that are callables, are not
  entry points or exported, do not live in test or vendored files and do not implement an
  interface method of the repository; each finding is anchored on its node.
\<close>

theorem dead_code_reports_exactly:
  assumes "dc_q c = Some q" and "in_FilePaths inp \<noteq> []" and "\<not> is_ephemeral (dc_repoKind c) (in_RepoID inp)"
    and "dq_DeadNodesInFiles q (in_RepoID inp) (in_Branch inp) (in_FilePaths inp) = Inr dead"
    and "dq_InterfaceMethodNames q (in_RepoID inp) (in_Branch inp) = Inr names"
    and "\<forall>n \<in> set dead. nr_NodeID n \<noteq> []"
  shows "\<exists>fs. DeadCodeCheck_Run quote isUpper c inp = Inr fs \<and>
    map (map_option f_NodeID) fs = map (\<lambda>n. Some (Some (nr_NodeID n)))
      (filter (\<lambda>n. (nr_Kind n = ''function'' \<or> nr_Kind n = ''method'' \<or> nr_Kind n = ''class'')
         \<and> \<not> isExternalEntry isUpper n \<and> \<not> IsTestFile (nr_FilePath n) \<and> \<not> IsVendored (nr_FilePath n)
         \<and> \<not> (nr_Kind n = ''method'' \<and> isInterfaceMethodImpl (nr_Name n) names)) dead)"
proof -
  let ?keep = "filter (dead_reported isUpper names) dead"
  have run: "DeadCodeCheck_Run quote isUpper c inp = Inr (collect_ok (dead_finding quote inp) ?keep)"
    using assms by (simp add: DeadCodeCheck_Run_def iface_names_def)
  have "map (map_option f_NodeID) (collect_ok (dead_finding quote inp) ?keep)
      = map (\<lambda>n. Some (Some (nr_NodeID n))) ?keep"
    by (rule collect_ok_anchors) (use assms(6) in \<open>auto intro: dead_finding_ok dead_finding_sel(1)\<close>)
  then show ?thesis unfolding run dead_reported_callable by blast
qed

definition sample_input :: Input where
  "sample_input = \<lparr>in_RepoID = ''r'', in_Branch = ''main'', in_GitSHA = ''s'', in_FilePaths = [''a.go''], in_AddedLines = []\<rparr>"

definition sample_ref :: "string \<Rightarrow> NodeRef" where
  "sample_ref name = \<lparr>nr_NodeID = ''n'' @ name, nr_FilePath = ''a.go'', nr_Kind = ''function'', nr_Name = name,
     nr_LineStart = 1, nr_LineEnd = 2, nr_ContentHash = ''h''\<rparr>"

definition sample_dead :: DeadCodeCheck where
  "sample_dead = \<lparr>dc_q = Some \<lparr>dq_DeadNodesInFiles = (\<lambda>_ _ _. Inr [sample_ref ''helper'', sample_ref ''main'']),
     dq_InterfaceMethodNames = (\<lambda>_ _. Inr [])\<rparr>, dc_repoKind = None\<rparr>"

lemma sample_paths:
  "IsTestFile ''a.go'' = False" "IsVendored ''a.go'' = False" "IsTestFile ''b.go'' = False" "IsTestFile ''b_test.go'' = True"
  by (simp_all add: IsTestFile_def IsVendored_def VendoredSegments_def HasPrefix_def HasSuffix_def after_last_def Let_def)

theorem dead_code_reports_exactly_witness:
  "\<exists>fs. DeadCodeCheck_Run id (\<lambda>_. False) sample_dead sample_input = Inr fs \<and>
     map (map_option f_NodeID) fs = [Some (Some ''nhelper'')]"
proof -
  have facts: "\<not> IsTestFile ''a.go''" "\<not> IsVendored ''a.go''" "isExternalEntry (\<lambda>_. False) (sample_ref ''main'')"
    "\<not> isExternalEntry (\<lambda>_. False) (sample_ref ''helper'')"
    by (simp_all add: sample_paths isExternalEntry_def sample_ref_def HasPrefix_def Let_def)
  have refs: "nr_Kind (sample_ref x) = ''function''" "nr_FilePath (sample_ref x) = ''a.go''"
    "nr_NodeID (sample_ref x) = CHR ''n'' # x" for x
    by (simp_all add: sample_ref_def)
  have q: "dc_q sample_dead = Some \<lparr>dq_DeadNodesInFiles = (\<lambda>_ _ _. Inr [sample_ref ''helper'', sample_ref ''main'']),
     dq_InterfaceMethodNames = (\<lambda>_ _. Inr [])\<rparr>" by (simp add: sample_dead_def)
  show ?thesis
    using dead_code_reports_exactly [OF q, where inp = sample_input and quote = id and isUpper = "\<lambda>_. False"
        and dead = "[sample_ref ''helper'', sample_ref ''main'']" and names = "[]"] facts
    by (simp add: refs sample_dead_def sample_input_def is_ephemeral_def)
qed

text \<open>
  The untested-symbol check reports exactly the callable symbols outside test and vendored
  files, other than \<open>main\<close> and \<open>init\<close> and interface implementations, none of whose direct callers
  lives in a test file; exported symbols are not exempt.
\<close>

theorem untested_reports_exactly:
  assumes "us_q c = Some q" and "in_FilePaths inp \<noteq> []" and "\<not> is_ephemeral (us_repoKind c) (in_RepoID inp)"
    and "q (in_RepoID inp) (in_Branch inp) (in_FilePaths inp) = Inr cands"
    and "us_ifaceMethods c = Some lookup" and "lookup (in_RepoID inp) (in_Branch inp) = Inr names"
    and "\<forall>nc \<in> set cands. nr_NodeID (nc_Node nc) \<noteq> []"
  shows "\<exists>fs. UntestedSymbolCheck_Run quote c inp = Inr fs \<and>
    map (map_option f_NodeID) fs = map (\<lambda>nc. Some (Some (nr_NodeID (nc_Node nc))))
      (filter (\<lambda>nc. let n = nc_Node nc in
         (nr_Kind n = ''function'' \<or> nr_Kind n = ''method'' \<or> nr_Kind n = ''class'')
         \<and> \<not> IsTestFile (nr_FilePath n) \<and> \<not> IsVendored (nr_FilePath n)
         \<and> nr_Name n \<noteq> ''main'' \<and> nr_Name n \<noteq> ''init''
         \<and> \<not> (nr_Kind n = ''method'' \<and> isInterfaceMethodImpl (nr_Name n) names)
         \<and> (\<forall>p \<in> set (nc_CallerFiles nc). \<not> IsTestFile p)) cands)"
proof -
  let ?keep = "filter (untested_reported names) cands"
  have run: "UntestedSymbolCheck_Run quote c inp = Inr (collect_ok (untested_finding quote inp) ?keep)"
    using assms by (simp add: UntestedSymbolCheck_Run_def iface_names_def)
  have "map (map_option f_NodeID) (collect_ok (untested_finding quote inp) ?keep)
      = map (\<lambda>nc. Some (Some (nr_NodeID (nc_Node nc)))) ?keep"
    by (rule collect_ok_anchors) (use assms(7) in \<open>auto intro: untested_finding_ok untested_finding_sel(1)\<close>)
  then show ?thesis unfolding run untested_reported_callable by blast
qed

definition sample_untested :: UntestedSymbolCheck where
  "sample_untested = \<lparr>us_q = Some (\<lambda>_ _ _. Inr [\<lparr>nc_Node = sample_ref ''Run'', nc_CallerFiles = [''b.go'']\<rparr>,
       \<lparr>nc_Node = sample_ref ''Close'', nc_CallerFiles = [''b.go'', ''b_test.go'']\<rparr>]),
     us_repoKind = None, us_ifaceMethods = Some (\<lambda>_ _. Inr [])\<rparr>"

theorem untested_reports_exactly_witness:
  "\<exists>fs. UntestedSymbolCheck_Run id sample_untested sample_input = Inr fs \<and>
     map (map_option f_NodeID) fs = [Some (Some ''nRun'')]"
proof -
  have facts: "\<not> IsTestFile ''a.go''" "\<not> IsVendored ''a.go''" "\<not> IsTestFile ''b.go''" "IsTestFile ''b_test.go''"
    by (simp_all only: sample_paths not_False_eq_True)
  have refs: "nr_Kind (sample_ref x) = ''function''" "nr_FilePath (sample_ref x) = ''a.go''"
    "nr_NodeID (sample_ref x) = CHR ''n'' # x" "nr_Name (sample_ref x) = x" for x
    by (simp_all add: sample_ref_def)
  show ?thesis
    using untested_reports_exactly [where c = sample_untested and inp = sample_input and quote = id and names = "[]"
        and q = "\<lambda>_ _ _. Inr [\<lparr>nc_Node = sample_ref ''Run'', nc_CallerFiles = [''b.go'']\<rparr>,
       \<lparr>nc_Node = sample_ref ''Close'', nc_CallerFiles = [''b.go'', ''b_test.go'']\<rparr>]" and lookup = "\<lambda>_ _. Inr []"] facts
    by (simp add: refs sample_untested_def sample_input_def is_ephemeral_def)
qed

text \<open>
  An authoritative check reconciles the findings of its rule: after a run that returned
  findings of that rule, the open identities of the rule in the repository and branch are
  exactly those it returned.
\<close>

theorem runner_reconciles_authoritative_rule:
  assumes "gm_wf t" and "ck_Run c inp = Returned (Inr fs)" and "ck_AuthoritativeRule c = Some (\<lambda>_. (rule, True))"
    and "rule \<noteq> []"
    and "\<And>f. Some f \<in> set fs \<Longrightarrow> f_State f = FindingStateOpen \<and> f_RepoID f = in_RepoID inp
      \<and> f_Branch f = in_Branch inp \<and> f_Rule f = rule"
  shows "\<exists>t'. Runner_Run (\<lambda>_. None) (\<lambda>_. None) now
      (Some \<lparr>rn_registry = Some (Register NewRegistry c), rn_storage = Some t\<rparr>) inp
      = Some \<lparr>rn_registry = Some (Register NewRegistry c), rn_storage = Some t'\<rparr>
    \<and> {fid. repo_opened t' fid (in_Branch inp) = Some (in_RepoID inp, rule)} = f_FindingID ` {f. Some f \<in> set fs}"
proof -
  obtain t' where t': "runOne (\<lambda>_. None) (\<lambda>_. None) now inp c (Some t) = Some t'"
    "\<forall>fid. repo_opened t' fid (in_Branch inp) = Some (in_RepoID inp, rule) \<longleftrightarrow> fid \<in> f_FindingID ` {f. Some f \<in> set fs}"
    using runOne_reconciles [OF assms(1-3) refl assms(4,5)] by blast
  then show ?thesis
    by (intro exI [of _ t']) (simp add: Runner_Run_def registry_snapshot_def Register_def NewRegistry_def set_eq_iff)
qed

theorem runner_reconciles_authoritative_rule_witness:
  "\<exists>t'. Runner_Run (\<lambda>_. None) (\<lambda>_. None) 5
      (Some \<lparr>rn_registry = Some (Register NewRegistry \<lparr>ck_Name = ''vuln'', ck_Run = (\<lambda>_. Returned (Inr [])),
         ck_AuthoritativeRule = Some (\<lambda>_. (''vuln'', True))\<rparr>),
       rn_storage = Some [((''f1'', ''main''), sample_row ''vuln'')]\<rparr>) sample_input
      = Some \<lparr>rn_registry = Some (Register NewRegistry \<lparr>ck_Name = ''vuln'', ck_Run = (\<lambda>_. Returned (Inr [])),
         ck_AuthoritativeRule = Some (\<lambda>_. (''vuln'', True))\<rparr>), rn_storage = Some t'\<rparr>
    \<and> {fid. repo_opened t' fid ''main'' = Some (''r'', ''vuln'')} = {}"
  using runner_reconciles_authoritative_rule [of "[((''f1'', ''main''), sample_row ''vuln'')]"
      "\<lparr>ck_Name = ''vuln'', ck_Run = (\<lambda>_. Returned (Inr [])), ck_AuthoritativeRule = Some (\<lambda>_. (''vuln'', True))\<rparr>"
      sample_input "[]" "''vuln''" 5]
  by (simp add: sample_input_def)

text \<open>
  Checks are isolated: a run over a registry is the run over those of its checks that return
  findings; a check that returns an error or panics has no effect on the storage and does not
  stop the others. A registry runs each name once, in the order of registration.
\<close>

theorem runner_isolates_failing_checks:
  "Runner_Run sf cf now (Some \<lparr>rn_registry = Some reg, rn_storage = st\<rparr>) inp =
     Some \<lparr>rn_registry = Some reg,
           rn_storage = foldl (\<lambda>st c. runOne sf cf now inp c st) st
             (filter (\<lambda>c. \<exists>fs. ck_Run c inp = Returned (Inr fs)) (registry_snapshot reg))\<rparr>
   \<and> Names (foldl Register NewRegistry cs) = dedup (map ck_Name cs)"
  using foldl_runOne_filter [of sf cf now inp st "registry_snapshot reg"] Names_built [of cs]
  by (simp add: Runner_Run_def healthy_def [abs_def])

end
