(* ===== verification/Work_Queue.thy ===== *)
theory Work_Queue
  imports Prelude
begin

text \<open>
  \<open>internal/core/ports/queue.go\<close>, \<open>internal/platform/pollloop\<close> and
  \<open>internal/infrastructure/sqlite/queue\<close>: the post-promotion work queue. The table is a map
  from \<open>seq\<close> to its rows; \<open>processOne\<close> is one tick of a lane, with every statement allowed to
  fail and with other connections allowed to change the table between the read and the claim.
  The greedy drain loop is a \<open>partial_function\<close>, so that it returns is a theorem.
\<close>

section \<open>Rows\<close>

type_synonym WorkKind = string

definition WorkKindEmbed :: WorkKind where "WorkKindEmbed = ''embed''"
definition WorkKindAutoLink :: WorkKind where "WorkKindAutoLink = ''auto_link''"
definition WorkKindRevalidate :: WorkKind where "WorkKindRevalidate = ''revalidate''"
definition WorkKindReview :: WorkKind where "WorkKindReview = ''review''"
definition WorkKindWiki :: WorkKind where "WorkKindWiki = ''wiki''"
definition WorkKindSummary :: WorkKind where "WorkKindSummary = ''summary''"
definition WorkKindFTS :: WorkKind where "WorkKindFTS = ''fts''"

record WorkRow =
  wr_Seq :: int
  wr_PromotionID :: string
  wr_RepoID :: string
  wr_Branch :: string
  wr_GitSHA :: string
  wr_Kind :: WorkKind
  wr_Payload :: string
  wr_State :: string
  wr_Attempts :: int
  wr_EnqueuedAt :: int

text \<open>The columns of the table that the poller does not hand to a handler.\<close>

record queue_row = WorkRow +
  q_available_at :: int
  q_completed_at :: "int option"
  q_error :: "err option"

type_synonym queue_table = "(int, queue_row) gomap"

definition ErrDeferWork :: err where
  "ErrDeferWork = Errs ''queue: work deferred, precondition not yet met''"

definition deferBackoffSecs :: int where
  "deferBackoffSecs = 1"

definition maxAttempts :: int where
  "maxAttempts = 3"

section \<open>One tick\<close>

definition eligible :: "WorkKind \<Rightarrow> int \<Rightarrow> int \<Rightarrow> queue_row \<Rightarrow> bool" where
  "eligible kind now k r \<longleftrightarrow> wr_State r = ''pending'' \<and> wr_Kind r = kind \<and> q_available_at r \<le> now"

datatype queue_point = QFetch | QClaim | QAffected | QFinish

definition fetchPending :: "err option \<Rightarrow> WorkKind \<Rightarrow> int \<Rightarrow> queue_table \<Rightarrow> WorkRow option result" where
  "fetchPending fault kind now t =
     (case fault of
        Some e \<Rightarrow> Inl e
      | None \<Rightarrow>
          (case sort_key fst (filter (\<lambda>(k, r). eligible kind now k r) t) of
             [] \<Rightarrow> Inr None
           | (k, r) # _ \<Rightarrow> Inr (Some ((WorkRow.truncate r)\<lparr>wr_Seq := k\<rparr>))))"

text \<open>The claim: the compare-and-set statement and the number of rows it changed.\<close>

definition claim :: "int \<Rightarrow> queue_table \<Rightarrow> queue_table \<times> nat" where
  "claim seq t =
     (let hit = (\<lambda>k r. k = seq \<and> wr_State r = ''pending'')
      in (gm_update_where hit (\<lambda>r. r\<lparr>wr_State := ''in_progress'', wr_Attempts := wr_Attempts r + 1\<rparr>) t,
          length (filter (\<lambda>(k, r). hit k r) t)))"

definition set_row :: "err option \<Rightarrow> int \<Rightarrow> (queue_row \<Rightarrow> queue_row) \<Rightarrow> queue_table \<Rightarrow> queue_table" where
  "set_row fault seq f t = (case fault of Some e \<Rightarrow> t | None \<Rightarrow> gm_update_where (\<lambda>k r. k = seq) f t)"

definition finish ::
  "err option \<Rightarrow> int \<Rightarrow> WorkRow \<Rightarrow> err option \<Rightarrow> queue_table \<Rightarrow> queue_table" where
  "finish fault now row handlerErr t =
     (case handlerErr of
        None \<Rightarrow> set_row fault (wr_Seq row) (\<lambda>r. r\<lparr>wr_State := ''done'', q_completed_at := Some now\<rparr>) t
      | Some e \<Rightarrow>
          if errors_is e ErrDeferWork
          then set_row fault (wr_Seq row)
                 (\<lambda>r. r\<lparr>wr_State := ''pending'', wr_Attempts := wr_Attempts r - 1,
                       q_available_at := now + deferBackoffSecs\<rparr>) t
          else if wr_Attempts row \<ge> maxAttempts
          then set_row fault (wr_Seq row) (\<lambda>r. r\<lparr>wr_State := ''failed'', q_error := Some e\<rparr>) t
          else set_row fault (wr_Seq row) (\<lambda>r. r\<lparr>wr_State := ''pending'', q_error := Some e\<rparr>) t)"

definition processOne ::
  "(queue_point \<Rightarrow> err option) \<Rightarrow> (queue_table \<Rightarrow> queue_table) \<Rightarrow> WorkKind \<Rightarrow> (WorkRow \<Rightarrow> err option)
     \<Rightarrow> int \<Rightarrow> int \<Rightarrow> queue_table \<Rightarrow> queue_table \<times> bool" where
  "processOne fault meanwhile kind handler now now' t =
     (case fetchPending (fault QFetch) kind now t of
        Inl e \<Rightarrow> (t, False)
      | Inr None \<Rightarrow> (t, False)
      | Inr (Some row) \<Rightarrow>
          let t0 = meanwhile t
          in case fault QClaim of
               Some e \<Rightarrow> (t0, False)
             | None \<Rightarrow>
                 let (t1, affected) = claim (wr_Seq row) t0
                 in case fault QAffected of
                      Some e \<Rightarrow> (t1, False)
                    | None \<Rightarrow>
                        if affected = 0 then (t1, False)
                        else let row' = row\<lparr>wr_Attempts := wr_Attempts row + 1\<rparr>
                             in (finish (fault QFinish) now' row' (handler row') t1, True))"

section \<open>The poll loop\<close>

text \<open>
  The inner loop of \<open>pollloop.Run\<close>: \<open>step\<close> is repeated while it reports work. The context is
  checked after every step that did work; \<open>cancelled\<close> says whether it is done in a state.
\<close>

partial_function (option) drain :: "('s \<Rightarrow> bool) \<Rightarrow> ('s \<Rightarrow> 's \<times> bool) \<Rightarrow> 's \<Rightarrow> 's option" where
  "drain cancelled step s =
     (case step s of (s', worked) \<Rightarrow>
        if worked then (if cancelled s' then Some s' else drain cancelled step s') else Some s')"

definition runKind_step ::
  "(unit \<Rightarrow> bool) option \<Rightarrow> (unit \<Rightarrow> bool) option \<Rightarrow> (queue_table \<Rightarrow> queue_table \<times> bool)
     \<Rightarrow> queue_table \<Rightarrow> queue_table \<times> bool" where
  "runKind_step pauser kindPause process t =
     (if (case pauser of None \<Rightarrow> False | Some p \<Rightarrow> p ()) then (t, False)
      else if (case kindPause of None \<Rightarrow> False | Some p \<Rightarrow> p ()) then (t, False)
      else process t)"

section \<open>The row a tick picks\<close>

lemma sort_key_head:
  assumes "sort_key f xs = x # ys"
  shows "x \<in> set xs" "\<And>y. y \<in> set xs \<Longrightarrow> f x \<le> f y"
proof -
  have "set (sort_key f xs) = set xs" by simp
  then show "x \<in> set xs" using assms by auto
  have "sorted (map f (sort_key f xs))" by simp
  then show "f x \<le> f y" if "y \<in> set xs" for y
    using assms that \<open>set (sort_key f xs) = set xs\<close> by auto
qed

text \<open>The least pending sequence number of the lane, with its row.\<close>

definition next_row :: "WorkKind \<Rightarrow> int \<Rightarrow> queue_table \<Rightarrow> (int \<times> queue_row) option" where
  "next_row kind now t =
     (case sort_key fst (filter (\<lambda>(k, r). eligible kind now k r) t) of [] \<Rightarrow> None | x # _ \<Rightarrow> Some x)"

lemma next_row_Some:
  assumes "next_row kind now t = Some (k, r)"
  shows "(k, r) \<in> set t" "eligible kind now k r"
    "\<And>k' r'. (k', r') \<in> set t \<Longrightarrow> eligible kind now k' r' \<Longrightarrow> k \<le> k'"
proof -
  obtain ys where ys: "sort_key fst (filter (\<lambda>(k, r). eligible kind now k r) t) = (k, r) # ys"
    using assms by (auto simp: next_row_def split: list.splits)
  show "(k, r) \<in> set t" "eligible kind now k r" using sort_key_head(1) [OF ys] by auto
  show "k \<le> k'" if "(k', r') \<in> set t" "eligible kind now k' r'" for k' r'
    using sort_key_head(2) [OF ys, of "(k', r')"] that by simp
qed

lemma next_row_None: "next_row kind now t = None \<longleftrightarrow> (\<forall>(k, r) \<in> set t. \<not> eligible kind now k r)"
proof -
  have "next_row kind now t = None \<longleftrightarrow> filter (\<lambda>(k, r). eligible kind now k r) t = []"
    by (cases "sort_key fst (filter (\<lambda>(k, r). eligible kind now k r) t)")
      (simp_all add: next_row_def, metis list.distinct(1) sort_key_eq_Nil_iff)
  then show ?thesis by (auto simp: filter_empty_conv)
qed

lemma fetchPending_eq:
  "fetchPending fault kind now t =
     (case fault of Some e \<Rightarrow> Inl e
      | None \<Rightarrow> Inr (map_option (\<lambda>(k, r). (WorkRow.truncate r)\<lparr>wr_Seq := k\<rparr>) (next_row kind now t)))"
  by (simp add: fetchPending_def next_row_def split: list.split prod.split option.split)

section \<open>What a tick does to the row\<close>

definition settle :: "int \<Rightarrow> err option \<Rightarrow> queue_row \<Rightarrow> queue_row" where
  "settle now e r =
     (case e of
        None \<Rightarrow> r\<lparr>wr_State := ''done'', wr_Attempts := wr_Attempts r + 1, q_completed_at := Some now\<rparr>
      | Some x \<Rightarrow>
          if errors_is x ErrDeferWork
          then r\<lparr>wr_State := ''pending'', q_available_at := now + deferBackoffSecs\<rparr>
          else if wr_Attempts r + 1 \<ge> maxAttempts
          then r\<lparr>wr_State := ''failed'', wr_Attempts := wr_Attempts r + 1, q_error := Some x\<rparr>
          else r\<lparr>wr_State := ''pending'', wr_Attempts := wr_Attempts r + 1, q_error := Some x\<rparr>)"

definition handed :: "int \<Rightarrow> queue_row \<Rightarrow> WorkRow" where
  "handed k r = (WorkRow.truncate r)\<lparr>wr_Seq := k, wr_Attempts := wr_Attempts r + 1\<rparr>"

lemma truncate_attempts [simp]: "wr_Attempts (WorkRow.truncate r) = wr_Attempts r"
  by (simp add: WorkRow.defs)

lemma gm_update_row_twice:
  assumes "gm_wf t" and "(k, r) \<in> set t" and "P r"
  shows "gm_update_where (\<lambda>j _. j = k) g (gm_update_where (\<lambda>j s. j = k \<and> P s) f t)
    = gm_update_where (\<lambda>j _. j = k) (\<lambda>s. g (f s)) t"
proof -
  have "s = r" if "(k, s) \<in> set t" for s
    using assms(1,2) that by (metis gm_get_iff option.inject)
  then show ?thesis using assms(3) by (auto simp: gm_update_where_def)
qed

lemma claim_pending:
  assumes "gm_wf t" and "(k, r) \<in> set t" and "wr_State r = ''pending''"
  shows "snd (claim k t) \<noteq> 0"
  using assms by (auto simp: claim_def Let_def filter_empty_conv)

lemma gm_update_where_cong_fun:
  "(\<And>v. (k, v) \<in> set m \<Longrightarrow> f v = g v) \<Longrightarrow>
   gm_update_where (\<lambda>j _. j = k) f m = gm_update_where (\<lambda>j _. j = k) g m"
  by (auto simp: gm_update_where_def)

text \<open>The statement that ends a tick, applied to the claimed row, settles the row.\<close>

lemma finish_settle:
  assumes "wr_Seq row = k" and "wr_Attempts row = wr_Attempts r + 1"
  obtains g where "finish None now row e = gm_update_where (\<lambda>j _. j = k) g"
    and "g (r\<lparr>wr_State := ''in_progress'', wr_Attempts := wr_Attempts r + 1\<rparr>) = settle now e r"
proof (cases e)
  case None
  show ?thesis
    by (rule that [of "\<lambda>r. r\<lparr>wr_State := ''done'', q_completed_at := Some now\<rparr>"])
      (simp_all add: finish_def set_row_def settle_def None assms fun_eq_iff)
next
  case (Some x)
  show ?thesis
  proof (cases "errors_is x ErrDeferWork")
    case True
    show ?thesis
      by (rule that [of "\<lambda>r. r\<lparr>wr_State := ''pending'', wr_Attempts := wr_Attempts r - 1,
            q_available_at := now + deferBackoffSecs\<rparr>"])
        (simp_all add: finish_def set_row_def settle_def Some True assms fun_eq_iff)
  next
    case False
    show ?thesis
      by (rule that [of "\<lambda>s. s\<lparr>wr_State := (if wr_Attempts r + 1 \<ge> maxAttempts then ''failed'' else ''pending''),
            q_error := Some x\<rparr>"])
        (simp_all add: finish_def set_row_def settle_def Some False assms fun_eq_iff)
  qed
qed

lemma processOne_row:
  assumes wf: "gm_wf t" and nr: "next_row kind now t = Some (k, r)"
  shows "processOne (\<lambda>_. None) id kind handler now now' t =
    (gm_update_where (\<lambda>j _. j = k) (settle now' (handler (handed k r))) t, True)"
proof -
  have kr: "(k, r) \<in> set t" "wr_State r = ''pending''"
    using next_row_Some [OF nr] by (auto simp: eligible_def)
  have uniq: "s = r" if "(k, s) \<in> set t" for s
    using wf kr(1) that by (metis gm_get_iff option.inject)
  have seq: "wr_Seq (handed k r) = k" "wr_Attempts (handed k r) = wr_Attempts r + 1"
    by (simp_all add: handed_def)
  have fin: "finish None now' (handed k r) e (fst (claim k t)) = gm_update_where (\<lambda>j _. j = k) (settle now' e) t" for e
  proof -
    obtain g where g: "finish None now' (handed k r) e = gm_update_where (\<lambda>j _. j = k) g"
      and settle: "g (r\<lparr>wr_State := ''in_progress'', wr_Attempts := wr_Attempts r + 1\<rparr>) = settle now' e r"
      by (rule finish_settle [OF seq])
    have "finish None now' (handed k r) e (fst (claim k t)) = gm_update_where (\<lambda>j _. j = k)
        (\<lambda>s. g (s\<lparr>wr_State := ''in_progress'', wr_Attempts := wr_Attempts s + 1\<rparr>)) t"
      unfolding g claim_def Let_def fst_conv by (rule gm_update_row_twice [where P = "\<lambda>s. wr_State s = ''pending''", OF wf kr])
    also have "\<dots> = gm_update_where (\<lambda>j _. j = k) (settle now' e) t"
      by (rule gm_update_where_cong_fun) (use uniq settle in blast)
    finally show ?thesis .
  qed
  show ?thesis
    using claim_pending [OF wf kr] fin [of "handler (handed k r)"]
    by (simp add: processOne_def fetchPending_eq nr Let_def case_prod_beta handed_def)
qed

lemma processOne_idle:
  "next_row kind now t = None \<Longrightarrow> processOne (\<lambda>_. None) id kind handler now now' t = (t, False)"
  by (simp add: processOne_def fetchPending_eq)

section \<open>The invariant of the table\<close>

definition row_ok :: "queue_row \<Rightarrow> bool" where
  "row_ok r \<longleftrightarrow>
     (wr_State r = ''pending'' \<and> 0 \<le> wr_Attempts r \<and> wr_Attempts r < maxAttempts
      \<or> wr_State r \<in> {''in_progress'', ''done''} \<and> 1 \<le> wr_Attempts r \<and> wr_Attempts r \<le> maxAttempts
      \<or> wr_State r = ''failed'' \<and> wr_Attempts r = maxAttempts \<and> q_error r \<noteq> None)"

definition queue_inv :: "queue_table \<Rightarrow> bool" where
  "queue_inv t \<longleftrightarrow> gm_wf t \<and> (\<forall>(k, r) \<in> set t. row_ok r)"

lemma queue_inv_update:
  assumes "queue_inv t" and "\<And>j r. (j, r) \<in> set t \<Longrightarrow> row_ok r \<Longrightarrow> P j r \<Longrightarrow> row_ok (f r)"
  shows "queue_inv (gm_update_where P f t)"
proof -
  have "row_ok r'" if "(j, r') \<in> set (gm_update_where P f t)" for j r'
    using that assms by (auto simp: gm_update_where_def queue_inv_def)
  then show ?thesis using assms(1) by (auto simp: queue_inv_def gm_wf_update_where)
qed

lemma row_ok_pending:
  "wr_State r = ''pending'' \<Longrightarrow> row_ok r \<longleftrightarrow> 0 \<le> wr_Attempts r \<and> wr_Attempts r < maxAttempts"
  by (simp add: row_ok_def)

lemma row_ok_settle:
  assumes "row_ok r" "wr_State r = ''pending''"
  shows "row_ok (settle now e r)"
proof -
  have a: "0 \<le> wr_Attempts r" "wr_Attempts r < maxAttempts" using assms row_ok_pending by blast+
  show ?thesis
  proof (cases e)
    case None
    then show ?thesis using a by (simp add: settle_def row_ok_def)
  next
    case (Some x)
    then show ?thesis using a by (simp add: settle_def row_ok_def)
  qed
qed

lemma row_ok_claim:
  assumes "row_ok r" "wr_State r = ''pending''"
  shows "row_ok (r\<lparr>wr_State := ''in_progress'', wr_Attempts := wr_Attempts r + 1\<rparr>)"
  using row_ok_pending [OF assms(2)] assms(1) by (simp add: row_ok_def)

lemma queue_inv_claim: "queue_inv t \<Longrightarrow> queue_inv (fst (claim k t))"
  unfolding claim_def Let_def fst_conv
  by (erule queue_inv_update) (blast intro: row_ok_claim)

lemma processOne_inv:
  assumes inv: "queue_inv t"
  shows "queue_inv (fst (processOne fault id kind handler now now' t))"
proof (cases "fault QFetch = None \<and> fault QClaim = None \<and> fault QAffected = None \<and> next_row kind now t \<noteq> None")
  case False
  then show ?thesis
    using inv queue_inv_claim [OF inv]
    by (auto simp: processOne_def fetchPending_eq Let_def case_prod_beta
        split: option.split)
next
  case True
  then obtain k r where nr: "next_row kind now t = Some (k, r)" by auto
  have kr: "(k, r) \<in> set t" "wr_State r = ''pending''" and wf: "gm_wf t"
    using next_row_Some [OF nr] inv by (auto simp: eligible_def queue_inv_def)
  have uniq: "s = r" if "(k, s) \<in> set t" for s
    using wf kr(1) that by (metis gm_get_iff option.inject)
  show ?thesis
  proof (cases "fault QFinish")
    case None
    then have "fault p = None" for p using True by (cases p) auto
    then have "fault = (\<lambda>_. None)" by (rule ext)
    then have "processOne fault id kind handler now now' t = (gm_update_where (\<lambda>j _. j = k) (settle now' (handler (handed k r))) t, True)"
      using processOne_row [OF wf nr] by simp
    moreover have "queue_inv (gm_update_where (\<lambda>j _. j = k) (settle now' (handler (handed k r))) t)"
      by (rule queue_inv_update [OF inv]) (use uniq kr(2) row_ok_settle in blast)
    ultimately show ?thesis by simp
  next
    case (Some e)
    then show ?thesis
      using True nr queue_inv_claim [OF inv, of k]
      by (auto simp: processOne_def fetchPending_eq Let_def case_prod_beta finish_def set_row_def
          split: option.split)
  qed
qed

text \<open>A tick touches at most the row it picked.\<close>

lemma processOne_frame:
  assumes "gm_wf t" and "map_of t k = Some r" and "\<not> eligible kind now k r"
  shows "map_of (fst (processOne fault id kind handler now now' t)) k = Some r"
proof (cases "next_row kind now t")
  case None
  then show ?thesis
    using assms by (auto simp: processOne_def fetchPending_eq split: option.split)
next
  case (Some p)
  obtain j s where js: "next_row kind now t = Some (j, s)" using Some by (cases p) auto
  have "j \<noteq> k"
    using next_row_Some(1,2) [OF js] assms by (auto simp: gm_get_iff [symmetric])
  then show ?thesis
    using assms(2) js
    by (cases "fault QFetch")
      (auto simp: processOne_def fetchPending_eq claim_def finish_def set_row_def Let_def
        gm_get_update_where split: option.split)
qed

lemma gm_wf_finish: "gm_wf (finish fault now row e t) = gm_wf t"
  by (simp add: finish_def set_row_def gm_wf_update_where split: option.split)

lemma processOne_wf: "gm_wf t \<Longrightarrow> gm_wf (fst (processOne fault id kind handler now now' t))"
  by (simp add: processOne_def claim_def Let_def gm_wf_finish gm_wf_update_where split: sum.split option.split)

text \<open>The picked row is the only one that satisfies the description of the query.\<close>

lemma next_row_unique:
  assumes "gm_wf t" and "(k, r) \<in> set t" and "eligible kind now k r"
    and least: "\<And>k' r'. (k', r') \<in> set t \<Longrightarrow> eligible kind now k' r' \<Longrightarrow> k \<le> k'"
  shows "next_row kind now t = Some (k, r)"
proof (cases "next_row kind now t")
  case None
  then show ?thesis using assms(2,3) by (auto simp: next_row_None)
next
  case (Some p)
  obtain j s where js: "next_row kind now t = Some (j, s)" using Some by (cases p) auto
  have "j = k" using next_row_Some [OF js] least assms(2,3) by (meson order_antisym)
  then have "s = r" using next_row_Some(1) [OF js] assms(1,2) by (metis gm_get_iff option.inject)
  then show ?thesis using js \<open>j = k\<close> by simp
qed

section \<open>Draining\<close>

text \<open>A lane whose step always makes progress on a measure drains.\<close>

lemma drain_terminates:
  fixes mu :: "'s \<Rightarrow> nat"
  assumes prog: "\<And>s s'. I s \<Longrightarrow> step s = (s', True) \<Longrightarrow> I s' \<and> mu s' < mu s"
    and "I s"
  shows "\<exists>s0 s'. drain (\<lambda>_. False) step s = Some s' \<and> I s0 \<and> step s0 = (s', False)"
  using assms(2)
proof (induction "mu s" arbitrary: s rule: less_induct)
  case less
  obtain s1 w where st: "step s = (s1, w)" by force
  show ?case
  proof (cases w)
    case True
    then have "I s1" "mu s1 < mu s" using prog [OF less.prems] st by auto
    then show ?thesis using less.hyps [of s1] st True by (subst drain.simps) simp
  next
    case False
    then show ?thesis using st less.prems by (subst drain.simps) auto
  qed
qed

text \<open>
  One lane with a running clock: a tick reads the clock when it fetches and when it settles.
\<close>

definition lane_step ::
  "(nat \<Rightarrow> int) \<Rightarrow> WorkKind \<Rightarrow> (WorkRow \<Rightarrow> err option) \<Rightarrow> nat \<times> queue_table \<Rightarrow> (nat \<times> queue_table) \<times> bool" where
  "lane_step clock kind handler s =
     (case s of (n, t) \<Rightarrow>
        case processOne (\<lambda>_. None) id kind handler (clock n) (clock (Suc n)) t of
          (t', w) \<Rightarrow> ((Suc (Suc n), t'), w))"

text \<open>The attempts the pending rows of a lane have left.\<close>

definition row_budget :: "WorkKind \<Rightarrow> queue_row \<Rightarrow> nat" where
  "row_budget kind r = (if wr_State r = ''pending'' \<and> wr_Kind r = kind then nat (maxAttempts - wr_Attempts r) else 0)"

definition budget :: "WorkKind \<Rightarrow> queue_table \<Rightarrow> nat" where
  "budget kind t = sum_list (map (\<lambda>(k, r). row_budget kind r) t)"

lemma budget_update_le:
  "(\<And>r. (k, r) \<in> set t \<Longrightarrow> row_budget kind (f r) \<le> row_budget kind r) \<Longrightarrow>
   budget kind (gm_update_where (\<lambda>j _. j = k) f t) \<le> budget kind t"
  by (induction t) (auto simp: budget_def gm_update_where_def intro!: add_mono)

lemma budget_update_less:
  assumes "gm_wf t" and "(k, r) \<in> set t" and "row_budget kind (f r) < row_budget kind r"
  shows "budget kind (gm_update_where (\<lambda>j _. j = k) f t) < budget kind t"
  using assms
proof (induction t)
  case (Cons p t)
  obtain j s where p: "p = (j, s)" by force
  show ?case
  proof (cases "j = k")
    case True
    then have "k \<notin> fst ` set t" using Cons.prems(1) p by simp
    then have s: "s = r" using Cons.prems(2) p True by force
    have "gm_update_where (\<lambda>j _. j = k) f t = t"
      using \<open>k \<notin> fst ` set t\<close> unfolding gm_update_where_def by (intro map_idI) force
    then show ?thesis using Cons.prems(3) p True s by (simp add: budget_def gm_update_where_def)
  next
    case False
    then show ?thesis using Cons p by (simp add: budget_def gm_update_where_def)
  qed
qed simp

lemma settle_budget:
  assumes "row_ok r" "wr_State r = ''pending''" "wr_Kind r = kind"
    and "\<And>x. e = Some x \<Longrightarrow> \<not> errors_is x ErrDeferWork"
  shows "row_budget kind (settle now e r) < row_budget kind r"
proof -
  have a: "0 \<le> wr_Attempts r" "wr_Attempts r < maxAttempts" using assms row_ok_pending by blast+
  show ?thesis
  proof (cases e)
    case None
    then show ?thesis using a assms by (simp add: row_budget_def settle_def)
  next
    case (Some y)
    then show ?thesis
      using a assms by (simp add: row_budget_def settle_def)
  qed
qed

lemma lane_drains:
  assumes inv: "queue_inv t" and nodefer: "\<And>row x. handler row = Some x \<Longrightarrow> \<not> errors_is x ErrDeferWork"
  shows "\<exists>m t'. drain (\<lambda>_. False) (lane_step clock kind handler) (n, t) = Some (Suc (Suc m), t')
    \<and> queue_inv t' \<and> (\<forall>(k, r) \<in> set t'. \<not> eligible kind (clock m) k r)"
proof -
  have prog: "queue_inv (snd s') \<and> budget kind (snd s') < budget kind (snd s)"
    if si: "queue_inv (snd s)" and st: "lane_step clock kind handler s = (s', True)" for s s'
  proof -
    obtain m u where s: "s = (m, u)" by force
    have wf: "gm_wf u" using si s by (simp add: queue_inv_def)
    obtain k r where nr: "next_row kind (clock m) u = Some (k, r)"
      using st s by (cases "next_row kind (clock m) u") (auto simp: lane_step_def processOne_idle)
    have kr: "(k, r) \<in> set u" "wr_State r = ''pending''" "wr_Kind r = kind" "row_ok r"
      using next_row_Some [OF nr] si s by (auto simp: eligible_def queue_inv_def)
    have s': "snd s' = gm_update_where (\<lambda>j _. j = k) (settle (clock (Suc m)) (handler (handed k r))) u"
      using st s processOne_row [OF wf nr] by (auto simp: lane_step_def)
    have "queue_inv (snd s')"
      using processOne_inv [OF si, of "\<lambda>_. None" kind handler "clock m" "clock (Suc m)"]
        processOne_row [OF wf nr] s s' by simp
    moreover have "budget kind (snd s') < budget kind (snd s)"
      unfolding s' using s budget_update_less [OF wf kr(1)] settle_budget [OF kr(4,2,3)] nodefer by simp
    ultimately show ?thesis by blast
  qed
  obtain s0 s' where d: "drain (\<lambda>_. False) (lane_step clock kind handler) (n, t) = Some s'"
    "queue_inv (snd s0)" "lane_step clock kind handler s0 = (s', False)"
    using drain_terminates [of "\<lambda>s. queue_inv (snd s)", OF prog] inv by force
  obtain m u where s0: "s0 = (m, u)" by force
  have "next_row kind (clock m) u = None"
    using d(2,3) s0 processOne_row [of u kind "clock m"]
    by (cases "next_row kind (clock m) u") (auto simp: lane_step_def queue_inv_def)
  then have "s' = (Suc (Suc m), u)" "\<forall>(k, r) \<in> set u. \<not> eligible kind (clock m) k r"
    using d(3) s0 by (auto simp: lane_step_def processOne_idle next_row_None)
  then show ?thesis using d s0 by auto
qed

section \<open>Properties\<close>

text \<open>
  C22. Whatever statement of a tick fails and whatever the handler returns, the table keeps its
  invariant: a pending row has attempts left, no row was attempted more than \<open>maxAttempts\<close>
  times, and a row is only marked failed once the budget is spent and with its error recorded.
\<close>

theorem queue_invariant_under_faults:
  assumes "queue_inv t"
  shows "queue_inv (fst (processOne fault id kind handler now now' t))"
  using assms by (rule processOne_inv)

definition sample_work :: "int \<Rightarrow> queue_row" where
  "sample_work n = \<lparr>wr_Seq = 7, wr_PromotionID = ''p'', wr_RepoID = ''r'', wr_Branch = ''main'', wr_GitSHA = ''s'',
     wr_Kind = WorkKindEmbed, wr_Payload = ''x'', wr_State = ''pending'', wr_Attempts = n, wr_EnqueuedAt = 0,
     q_available_at = 0, q_completed_at = None, q_error = None\<rparr>"

lemma sample_queue_inv: "queue_inv [(7, sample_work 2)]" "queue_inv [(9, sample_work 0), (7, sample_work 0)]"
  by (simp_all add: queue_inv_def row_ok_def sample_work_def maxAttempts_def)

theorem queue_invariant_under_faults_witness:
  "queue_inv (fst (processOne (\<lambda>p. if p = QFinish then Some (Errs ''disk'') else None) id WorkKindEmbed (\<lambda>_. None) 1 2 [(7, sample_work 2)]))"
  by (rule queue_invariant_under_faults) (rule sample_queue_inv)

text \<open>
  A tick hands the handler the eligible row of its lane with the least sequence number and
  settles that row only: success marks it done, a deferral gives the attempt back and delays it,
  another error leaves it pending until the budget of \<open>maxAttempts\<close> is spent and then fails it.
\<close>

theorem tick_settles_oldest_row:
  assumes "gm_wf t" and "(k, r) \<in> set t" and "eligible kind now k r"
    and "\<And>k' r'. (k', r') \<in> set t \<Longrightarrow> eligible kind now k' r' \<Longrightarrow> k \<le> k'"
  shows "processOne (\<lambda>_. None) id kind handler now now' t =
    (gm_update_where (\<lambda>j _. j = k) (\<lambda>r.
       case handler ((WorkRow.truncate r)\<lparr>wr_Seq := k, wr_Attempts := wr_Attempts r + 1\<rparr>) of
         None \<Rightarrow> r\<lparr>wr_State := ''done'', wr_Attempts := wr_Attempts r + 1, q_completed_at := Some now'\<rparr>
       | Some x \<Rightarrow>
           if errors_is x ErrDeferWork then r\<lparr>wr_State := ''pending'', q_available_at := now' + 1\<rparr>
           else r\<lparr>wr_State := (if wr_Attempts r \<ge> 2 then ''failed'' else ''pending''),
                 wr_Attempts := wr_Attempts r + 1, q_error := Some x\<rparr>) t, True)"
proof -
  have nr: "next_row kind now t = Some (k, r)" by (rule next_row_unique [OF assms])
  have "gm_update_where (\<lambda>j _. j = k) (settle now' (handler (handed k r))) t =
      gm_update_where (\<lambda>j _. j = k) (\<lambda>r.
       case handler ((WorkRow.truncate r)\<lparr>wr_Seq := k, wr_Attempts := wr_Attempts r + 1\<rparr>) of
         None \<Rightarrow> r\<lparr>wr_State := ''done'', wr_Attempts := wr_Attempts r + 1, q_completed_at := Some now'\<rparr>
       | Some x \<Rightarrow>
           if errors_is x ErrDeferWork then r\<lparr>wr_State := ''pending'', q_available_at := now' + 1\<rparr>
           else r\<lparr>wr_State := (if wr_Attempts r \<ge> 2 then ''failed'' else ''pending''),
                 wr_Attempts := wr_Attempts r + 1, q_error := Some x\<rparr>) t"
  proof (rule gm_update_where_cong_fun)
    fix s assume "(k, s) \<in> set t"
    then have s: "s = r" using assms(1,2) by (metis gm_get_iff option.inject)
    show "settle now' (handler (handed k r)) s =
       (case handler ((WorkRow.truncate s)\<lparr>wr_Seq := k, wr_Attempts := wr_Attempts s + 1\<rparr>) of
         None \<Rightarrow> s\<lparr>wr_State := ''done'', wr_Attempts := wr_Attempts s + 1, q_completed_at := Some now'\<rparr>
       | Some x \<Rightarrow>
           if errors_is x ErrDeferWork then s\<lparr>wr_State := ''pending'', q_available_at := now' + 1\<rparr>
           else s\<lparr>wr_State := (if wr_Attempts s \<ge> 2 then ''failed'' else ''pending''),
                 wr_Attempts := wr_Attempts s + 1, q_error := Some x\<rparr>)"
      unfolding s settle_def handed_def deferBackoffSecs_def maxAttempts_def
      by (simp split: option.split)
  qed
  then show ?thesis using processOne_row [OF assms(1) nr] by simp
qed

theorem tick_settles_oldest_row_witness:
  "fst (processOne (\<lambda>_. None) id WorkKindEmbed (\<lambda>_. Some (Errs ''boom'')) 1 2 [(9, sample_work 0), (7, sample_work 2)])
   = [(9, sample_work 0), (7, (sample_work 2)\<lparr>wr_State := ''failed'', wr_Attempts := 3, q_error := Some (Errs ''boom'')\<rparr>)]"
  by (subst tick_settles_oldest_row [where k = 7 and r = "sample_work 2"])
    (auto simp: eligible_def sample_work_def gm_update_where_def ErrDeferWork_def)

text \<open>
  C21. A lane drains: as long as the handler never defers, the poll loop returns for every table
  and every clock, and it returns a table with no eligible row of the lane left.
\<close>

theorem lane_drains_completely:
  assumes "queue_inv t" and "\<And>row x. handler row = Some x \<Longrightarrow> \<not> errors_is x ErrDeferWork"
  shows "\<exists>m t'. drain (\<lambda>_. False) (lane_step clock kind handler) (n, t) = Some (Suc (Suc m), t')
    \<and> queue_inv t' \<and> (\<forall>(k, r) \<in> set t'. \<not> eligible kind (clock m) k r)"
  using assms by (rule lane_drains)

theorem lane_drains_completely_witness:
  "\<exists>m t'. drain (\<lambda>_. False) (lane_step (\<lambda>n. int n) WorkKindEmbed (\<lambda>_. Some (Errs ''boom''))) (0, [(9, sample_work 0), (7, sample_work 0)])
     = Some (Suc (Suc m), t') \<and> queue_inv t' \<and> (\<forall>(k, r) \<in> set t'. \<not> eligible WorkKindEmbed (int m) k r)"
  by (rule lane_drains_completely [OF sample_queue_inv(2)]) (auto simp: ErrDeferWork_def)

text \<open>
  C39. A row left in progress (by a crash, or because the statement that ends a tick failed) is
  never picked up again: no tick of any lane, with any faults, changes it.
\<close>

theorem in_progress_rows_are_stuck:
  assumes "gm_wf t" and "map_of t k = Some r" and "wr_State r = ''in_progress''"
  shows "map_of (foldl (\<lambda>t (fault, kind, handler, now, now'). fst (processOne fault id kind handler now now' t)) t ticks) k = Some r"
  using assms
proof (induction ticks arbitrary: t)
  case (Cons p ticks)
  obtain fault kind handler now now' where p: "p = (fault, kind, handler, now, now')" by (cases p) auto
  let ?t = "fst (processOne fault id kind handler now now' t)"
  have "map_of ?t k = Some r"
    using Cons.prems by (intro processOne_frame) (simp_all add: eligible_def)
  moreover have "gm_wf ?t" using Cons.prems(1) by (rule processOne_wf)
  ultimately show ?case
    unfolding p foldl_Cons prod.case using Cons.IH [of ?t] Cons.prems(3) by blast
qed simp

theorem in_progress_rows_are_stuck_witness:
  "map_of (foldl (\<lambda>t (fault, kind, handler, now, now'). fst (processOne fault id kind handler now now' t))
      [(7, (sample_work 1)\<lparr>wr_State := ''in_progress''\<rparr>)] [((\<lambda>_. None), WorkKindEmbed, (\<lambda>_. None), 5, 6)]) 7
   = Some ((sample_work 1)\<lparr>wr_State := ''in_progress''\<rparr>)"
  by (rule in_progress_rows_are_stuck) simp_all

end
