(* ===== verification/Promotion.thy ===== *)
theory Promotion
  imports Ingest Checks Work_Queue
begin

text \<open>
  \<open>promotion_store.go\<close> and \<open>promoter.go\<close> of \<open>internal/application\<close>: the batch the promoter hands
  to the \<open>PromotionStore\<close> port and the orchestration around it. The store, the check runner and
  the added-lines callback are parameters over an arbitrary database state \<open>'d\<close>; what other
  goroutines do to the staging area while the store's transaction runs is the argument
  \<open>meanwhile\<close>.
\<close>

section \<open>Batches\<close>

definition workKinds :: "string list" where
  "workKinds = [WorkKindEmbed, WorkKindAutoLink, WorkKindRevalidate, WorkKindFTS]"

definition PromotionWorkKinds :: "bool \<Rightarrow> bool \<Rightarrow> string list" where
  "PromotionWorkKinds reviewEnabled summaryEnabled =
     workKinds @ (if reviewEnabled then [WorkKindReview] else [])
               @ (if summaryEnabled then [WorkKindSummary] else [])"

text \<open>The typed error \<open>ErrUnregisteredRepo\<close>, with the text its \<open>Error\<close> method renders.\<close>

definition ErrUnregisteredRepo :: "string \<Rightarrow> err" where
  "ErrUnregisteredRepo repoID =
     Errorf ''promoter: repo %q is not registered - run: veska repo add <path>'' [repoID]"

record PromotionFile =
  pmf_Path :: string
  pmf_Nodes :: "Node option list"
  pmf_Edges :: "Edge option list"
  pmf_UnresolvedCalls :: "UnresolvedCall list"
  pmf_Imports :: "(string, string) gomap"

record PromotionBatch =
  pb_RepoID :: string
  pb_Branch :: string
  pb_GitSHA :: string
  pb_Actor :: Actor
  pb_PromotedAt :: int
  pb_Files :: "PromotionFile list"

record CheckRunInput =
  cri_RepoID :: string
  cri_Branch :: string
  cri_GitSHA :: string
  cri_FilePaths :: "string list"
  cri_AddedLines :: "(string, Line list) gomap"

section \<open>The promoter\<close>

record 'd Promoter =
  pm_staging :: Area
  pm_db :: 'd
  pm_store :: "'d \<Rightarrow> PromotionBatch \<Rightarrow> 'd \<times> err option"
  pm_checks :: "('d \<Rightarrow> CheckRunInput \<Rightarrow> 'd) option"
  pm_added :: "(string \<Rightarrow> string \<Rightarrow> (string, Line list) gomap result) option"

type_synonym 'd PromoterOption = "'d Promoter \<Rightarrow> 'd Promoter"

definition WithCheckRunner :: "('d \<Rightarrow> CheckRunInput \<Rightarrow> 'd) option \<Rightarrow> 'd PromoterOption" where
  "WithCheckRunner r p = p\<lparr>pm_checks := r\<rparr>"

definition WithAddedLinesFunc ::
  "(string \<Rightarrow> string \<Rightarrow> (string, Line list) gomap result) option \<Rightarrow> 'd PromoterOption" where
  "WithAddedLinesFunc f p = p\<lparr>pm_added := f\<rparr>"

definition NewPromoter ::
  "Area \<Rightarrow> 'd \<Rightarrow> ('d \<Rightarrow> PromotionBatch \<Rightarrow> 'd \<times> err option) \<Rightarrow> 'd PromoterOption list \<Rightarrow> 'd Promoter" where
  "NewPromoter area db store opts =
     foldl (\<lambda>p opt. opt p)
       \<lparr>pm_staging = area, pm_db = db, pm_store = store, pm_checks = None, pm_added = None\<rparr> opts"

definition promotion_file :: "string \<Rightarrow> File \<Rightarrow> PromotionFile" where
  "promotion_file path sf =
     \<lparr>pmf_Path = path, pmf_Nodes = sf_Nodes sf, pmf_Edges = sf_Edges sf,
      pmf_UnresolvedCalls = sf_UnresolvedCalls sf, pmf_Imports = sf_Imports sf\<rparr>"

definition promotion_batch ::
  "string \<Rightarrow> string \<Rightarrow> string \<Rightarrow> Actor \<Rightarrow> int \<Rightarrow> (string, File) gomap \<Rightarrow> PromotionBatch" where
  "promotion_batch repoID branch gitSHA actor now snap =
     \<lparr>pb_RepoID = repoID, pb_Branch = branch, pb_GitSHA = gitSHA, pb_Actor = actor,
      pb_PromotedAt = now, pb_Files = map (\<lambda>(path, sf). promotion_file path sf) snap\<rparr>"

definition Promote ::
  "(Area \<Rightarrow> Area) \<Rightarrow> int \<Rightarrow> 'd Promoter \<Rightarrow> string \<Rightarrow> string \<Rightarrow> string \<Rightarrow> Actor \<Rightarrow> 'd Promoter \<times> err option" where
  "Promote meanwhile now p repoID branch gitSHA actor =
     (let snap = Snapshot (pm_staging p) repoID branch;
          batch = promotion_batch repoID branch gitSHA actor now snap;
          (d1, err) = pm_store p (pm_db p) batch;
          p1 = p\<lparr>pm_db := d1, pm_staging := meanwhile (pm_staging p)\<rparr>
      in case err of
           Some e \<Rightarrow> (p1, Some e)
         | None \<Rightarrow>
             if pb_Files batch = [] then (p1, None)
             else let filePaths = map pmf_Path (pb_Files batch);
                      area = foldl (\<lambda>a path. DeleteStagedFile a repoID branch path) (pm_staging p1) filePaths;
                      p2 = p1\<lparr>pm_staging := area\<rparr>
                  in case pm_checks p of
                       None \<Rightarrow> (p2, None)
                     | Some run \<Rightarrow>
                         let addedLines = (case pm_added p of
                               None \<Rightarrow> []
                             | Some f \<Rightarrow> (case f repoID gitSHA of Inr al \<Rightarrow> al | Inl _ \<Rightarrow> []))
                         in (p2\<lparr>pm_db := run (pm_db p2)
                                \<lparr>cri_RepoID = repoID, cri_Branch = branch, cri_GitSHA = gitSHA,
                                 cri_FilePaths = filePaths, cri_AddedLines = addedLines\<rparr>\<rparr>, None))"

section \<open>What a promotion does to the staging area\<close>

lemma batch_paths: "map pmf_Path (pb_Files (promotion_batch r b s a now snap)) = map fst snap"
  by (auto simp: promotion_batch_def promotion_file_def)

lemma delete_all_eq:
  "foldl (\<lambda>a path. DeleteStagedFile a r b path) a ps = foldl (\<lambda>a p. area_drop a (mk_key r b p)) a ps"
  by (simp add: DeleteStagedFile_drop)

lemma Promote_error:
  assumes "pm_store p (pm_db p) (promotion_batch r b s a now (Snapshot (pm_staging p) r b)) = (d', Some e)"
  shows "Promote mw now p r b s a = (p\<lparr>pm_db := d', pm_staging := mw (pm_staging p)\<rparr>, Some e)"
  using assms by (simp add: Promote_def Let_def)

lemma Promote_staging:
  assumes "pm_store p (pm_db p) (promotion_batch r b s a now (Snapshot (pm_staging p) r b)) = (d', None)"
  shows "\<exists>p'. Promote mw now p r b s a = (p', None)
    \<and> pm_staging p' = foldl (\<lambda>a p. area_drop a (mk_key r b p)) (mw (pm_staging p)) (map fst (Snapshot (pm_staging p) r b))
    \<and> (pm_checks p = None \<longrightarrow> p' = p\<lparr>pm_db := d', pm_staging := pm_staging p'\<rparr>)"
proof -
  let ?b = "promotion_batch r b s a now (Snapshot (pm_staging p) r b)"
  have "pb_Files ?b = [] \<longleftrightarrow> Snapshot (pm_staging p) r b = []" by (simp add: promotion_batch_def)
  then show ?thesis
    using assms batch_paths [of r b s a now "Snapshot (pm_staging p) r b"]
    by (cases "pm_checks p") (auto simp: Promote_def Let_def delete_all_eq split: option.split)
qed

text \<open>Without interference the scope is drained and nothing else is touched.\<close>

lemma Promote_drains:
  assumes "area_wf (pm_staging p)"
    and "pm_store p (pm_db p) (promotion_batch r b s a now (Snapshot (pm_staging p) r b)) = (d', None)"
    and "Promote id now p r b s a = (p', err)"
  shows "area_get (pm_staging p') k = (if in_scope r b k then None else area_get (pm_staging p) k)"
  using Promote_staging [OF assms(2), of id] assms(1,3) overlay.drop_snapshot by auto

lemma batch_files_exact:
  assumes "area_wf a"
  shows "distinct (map pmf_Path (pb_Files (promotion_batch r b s ac now (Snapshot a r b))))"
    and "f \<in> set (pb_Files (promotion_batch r b s ac now (Snapshot a r b))) \<longleftrightarrow>
      (\<exists>e. area_get a (mk_key r b (pmf_Path f)) = Some e \<and> f = promotion_file (pmf_Path f) (file_of e))"
proof -
  show "distinct (map pmf_Path (pb_Files (promotion_batch r b s ac now (Snapshot a r b))))"
    using overlay.wf_snap [OF assms, of r b] by (simp add: batch_paths gm_wf_def)
  have "f \<in> set (pb_Files (promotion_batch r b s ac now (Snapshot a r b))) \<longleftrightarrow>
      (\<exists>path sf. map_of (Snapshot a r b) path = Some sf \<and> f = promotion_file path sf)"
    using overlay.wf_snap [OF assms, of r b] by (auto simp: promotion_batch_def gm_get_iff)
  then show "f \<in> set (pb_Files (promotion_batch r b s ac now (Snapshot a r b))) \<longleftrightarrow>
      (\<exists>e. area_get a (mk_key r b (pmf_Path f)) = Some e \<and> f = promotion_file (pmf_Path f) (file_of e))"
    by (auto simp: overlay.get_snap [OF assms] promotion_file_def)
qed

text \<open>
  A file that is staged again while the transaction runs is deleted with the others: its new
  content is neither in the batch nor in the area afterwards.
\<close>

lemma Promote_restaged:
  assumes wf: "area_wf (pm_staging p)"
    and store: "pm_store p (pm_db p) (promotion_batch r b s a now (Snapshot (pm_staging p) r b)) = (d', None)"
    and staged: "area_get (pm_staging p) (mk_key r b path) = Some old"
    and run: "Promote (\<lambda>ar. fst (Stage ar r b path new [])) now p r b s a = (p', err)"
  shows "area_get (pm_staging p') (mk_key r b path) = None \<and> err = None"
proof -
  have "path \<in> fst ` set (Snapshot (pm_staging p) r b)"
    using StagedFiles_iff [OF wf] staged by (simp add: StagedFiles_keys)
  then show ?thesis
    using Promote_staging [OF store, of "\<lambda>ar. fst (Stage ar r b path new [])"] run
    by (auto simp: overlay.get_drop_list)
qed

section \<open>Properties\<close>

text \<open>
  C1. A promotion that the store accepts, with no concurrent save, hands over exactly what was
  staged for the repository and branch (every staged file once, with its staged content),
  drains that scope of the staging area and touches no other scope.
\<close>

theorem promotion_exact:
  assumes "area_wf (pm_staging p)"
    and "pm_store p (pm_db p) (promotion_batch r b sha a now (Snapshot (pm_staging p) r b)) = (d', None)"
  shows "\<exists>p'. Promote id now p r b sha a = (p', None)
    \<and> (\<forall>k. area_get (pm_staging p') k = (if in_scope r b k then None else area_get (pm_staging p) k))
    \<and> distinct (map pmf_Path (pb_Files (promotion_batch r b sha a now (Snapshot (pm_staging p) r b))))
    \<and> (\<forall>f. f \<in> set (pb_Files (promotion_batch r b sha a now (Snapshot (pm_staging p) r b))) \<longleftrightarrow>
         (\<exists>e. area_get (pm_staging p) (mk_key r b (pmf_Path f)) = Some e \<and> f = promotion_file (pmf_Path f) (file_of e)))"
proof -
  obtain p' where p': "Promote id now p r b sha a = (p', None)" using Promote_staging [OF assms(2), of id] by blast
  show ?thesis
    using p' Promote_drains [OF assms p'] batch_files_exact(1) [OF assms(1), of r b sha a now]
      batch_files_exact(2) [OF assms(1), of _ r b sha a now] by blast
qed

definition logging_promoter :: "PromotionBatch list Promoter" where
  "logging_promoter = NewPromoter (fst (Stage NewArea ''r'' ''main'' ''a.go'' empty_file [])) []
     (\<lambda>log batch. (log @ [batch], None)) []"

definition refusing_promoter :: "nat Promoter" where
  "refusing_promoter = NewPromoter (fst (Stage NewArea ''r'' ''main'' ''a.go'' empty_file [])) 7
     (\<lambda>d batch. (d, Some (ErrUnregisteredRepo (pb_RepoID batch)))) []"

lemma logging_promoter_facts:
  "area_wf (pm_staging logging_promoter)"
  "pm_store logging_promoter d batch = (d @ [batch], None)"
  "area_get (pm_staging logging_promoter) (mk_key ''r'' ''main'' ''a.go'') = Some (entry_of empty_file)"
  by (simp_all add: logging_promoter_def NewPromoter_def Stage_unguarded overlay.wf_put overlay.get_put)

definition sample_actor :: Actor where
  "sample_actor = \<lparr>a_ID = ''u'', a_Kind = ActorKindSystem\<rparr>"

theorem promotion_exact_witness:
  "\<exists>p'. Promote id 5 logging_promoter ''r'' ''main'' ''s'' sample_actor = (p', None)
    \<and> area_get (pm_staging p') (mk_key ''r'' ''main'' ''a.go'') = None"
  using promotion_exact [OF logging_promoter_facts(1,2), where r = "''r''" and b = "''main''" and sha = "''s''"
      and a = sample_actor and now = 5] by auto

text \<open>
  A promotion the store refuses returns the store's error and leaves the staging area as it
  was, so that a later promotion sends the same files; no check runs.
\<close>

theorem failed_promotion_keeps_staging:
  assumes "pm_store p (pm_db p) (promotion_batch r b sha a now (Snapshot (pm_staging p) r b)) = (d', Some e)"
  shows "\<exists>p'. Promote id now p r b sha a = (p', Some e) \<and> p' = p\<lparr>pm_db := d'\<rparr>
    \<and> pb_Files (promotion_batch r b sha a now' (Snapshot (pm_staging p') r b))
      = pb_Files (promotion_batch r b sha a now (Snapshot (pm_staging p) r b))"
  using Promote_error [OF assms, of id] by (simp add: promotion_batch_def)

theorem failed_promotion_keeps_staging_witness:
  "\<exists>p'. Promote id 5 refusing_promoter ''r'' ''main'' ''s'' sample_actor = (p', Some (ErrUnregisteredRepo ''r''))
    \<and> pb_Files (promotion_batch ''r'' ''main'' ''s'' sample_actor 6 (Snapshot (pm_staging p') ''r'' ''main''))
      = [promotion_file ''a.go'' empty_file]"
proof -
  have store: "pm_store refusing_promoter (pm_db refusing_promoter)
      (promotion_batch ''r'' ''main'' ''s'' sample_actor 5 (Snapshot (pm_staging refusing_promoter) ''r'' ''main''))
      = (7, Some (ErrUnregisteredRepo ''r''))"
    by (simp add: refusing_promoter_def NewPromoter_def promotion_batch_def)
  have "pb_Files (promotion_batch ''r'' ''main'' ''s'' sample_actor 5 (Snapshot (pm_staging refusing_promoter) ''r'' ''main''))
      = [promotion_file ''a.go'' empty_file]"
    by (simp add: refusing_promoter_def NewPromoter_def Stage_unguarded area_put_def NewArea_def gm_put_def
        Snapshot_def promotion_batch_def)
  then show ?thesis using failed_promotion_keeps_staging [OF store, of 6] by auto
qed

lemma Promote_db:
  assumes "pm_store p (pm_db p) (promotion_batch r b s a now (Snapshot (pm_staging p) r b)) = (d', None)"
    and "Promote mw now p r b s a = (p', None)"
  shows "pm_db p' = d' \<or> (\<exists>run inp. pm_checks p = Some run \<and> pm_db p' = run d' inp)"
  using assms by (auto simp: Promote_def Let_def split: if_splits option.splits)

lemma filter_key_single: "distinct (map f xs) \<Longrightarrow> x \<in> set xs \<Longrightarrow> filter (\<lambda>y. f y = f x) xs = [x]"
  by (induction xs) (auto simp: filter_empty_conv, metis imageI)

text \<open>
  C38. A file that is saved again with other content while the store's transaction runs is lost. The
  promotion reports success; the only version of the file that it hands to the store is the one
  staged before, so the database is what the store makes of that version and the new content
  is not promoted; and the path is no longer staged, so no later promotion hands it over either.
\<close>

theorem promotion_drops_restaged_file:
  assumes wf: "area_wf (pm_staging p)"
    and batch: "batch = promotion_batch r b sha a now (Snapshot (pm_staging p) r b)"
    and store: "pm_store p (pm_db p) batch = (d', None)"
    and staged: "area_get (pm_staging p) (mk_key r b path) = Some old"
    and differs: "promotion_file path new \<noteq> promotion_file path (file_of old)"
  shows "\<exists>p'. Promote (\<lambda>ar. fst (Stage ar r b path new [])) now p r b sha a = (p', None)
    \<and> (pm_db p' = d' \<or> (\<exists>run inp. pm_checks p = Some run \<and> pm_db p' = run d' inp))
    \<and> filter (\<lambda>f. pmf_Path f = path) (pb_Files batch) = [promotion_file path (file_of old)]
    \<and> promotion_file path new \<notin> set (pb_Files batch)
    \<and> area_get (pm_staging p') (mk_key r b path) = None
    \<and> path \<notin> pmf_Path ` set (pb_Files (promotion_batch r b sha' a' now' (Snapshot (pm_staging p') r b)))"
proof -
  note st = store [unfolded batch]
  obtain p' err where run: "Promote (\<lambda>ar. fst (Stage ar r b path new [])) now p r b sha a = (p', err)" by force
  have gone: "err = None" "area_get (pm_staging p') (mk_key r b path) = None" using Promote_restaged [OF wf st staged run] by simp_all
  have db: "pm_db p' = d' \<or> (\<exists>run inp. pm_checks p = Some run \<and> pm_db p' = run d' inp)"
    using Promote_db [OF st] run gone(1) by simp
  have files: "f \<in> set (pb_Files batch) \<longleftrightarrow> (\<exists>e. area_get (pm_staging p) (mk_key r b (pmf_Path f)) = Some e \<and> f = promotion_file (pmf_Path f) (file_of e))" for f
    unfolding batch by (rule batch_files_exact(2) [OF wf])
  have path: "pmf_Path (promotion_file q x) = q" for q x by (simp add: promotion_file_def)
  have "promotion_file path (file_of old) \<in> set (pb_Files batch)" using files staged by (simp add: path)
  moreover have "distinct (map pmf_Path (pb_Files batch))" unfolding batch by (rule batch_files_exact(1) [OF wf])
  ultimately have "filter (\<lambda>f. pmf_Path f = path) (pb_Files batch) = [promotion_file path (file_of old)]"
    using filter_key_single [of pmf_Path "pb_Files batch" "promotion_file path (file_of old)"] by (simp add: path)
  moreover have "promotion_file path new \<notin> set (pb_Files batch)" using files [of "promotion_file path new"] staged differs by (simp add: path)
  moreover have "path \<notin> pmf_Path ` set (pb_Files (promotion_batch r b sha' a' now' (Snapshot (pm_staging p') r b)))"
  proof -
    have "area_wf (pm_staging p')"
      using Promote_staging [OF st, of "\<lambda>ar. fst (Stage ar r b path new [])"] run overlay.wf_drop_list [OF Stage_wf [OF wf]] by auto
    from batch_files_exact(2) [OF this] show ?thesis using gone(2) by fastforce
  qed
  ultimately show ?thesis using run gone db by blast
qed
theorem promotion_drops_restaged_file_witness:
  "\<exists>p'. Promote (\<lambda>ar. fst (Stage ar ''r'' ''main'' ''a.go'' (empty_file\<lparr>sf_Imports := [(''fmt'', ''fmt'')]\<rparr>) [])) 5
      logging_promoter ''r'' ''main'' ''s'' sample_actor = (p', None)
    \<and> area_get (pm_staging p') (mk_key ''r'' ''main'' ''a.go'') = None
    \<and> pm_db p' = [promotion_batch ''r'' ''main'' ''s'' sample_actor 5 (Snapshot (pm_staging logging_promoter) ''r'' ''main'')]
    \<and> promotion_file ''a.go'' (empty_file\<lparr>sf_Imports := [(''fmt'', ''fmt'')]\<rparr>)
        \<notin> set (pb_Files (promotion_batch ''r'' ''main'' ''s'' sample_actor 5 (Snapshot (pm_staging logging_promoter) ''r'' ''main'')))"
proof -
  have "promotion_file ''a.go'' (empty_file\<lparr>sf_Imports := [(''fmt'', ''fmt'')]\<rparr>) \<noteq> promotion_file ''a.go'' (file_of (entry_of empty_file))"
    by (simp add: promotion_file_def empty_file_def file_of_def entry_of_def)
  moreover have "pm_checks logging_promoter = None" "pm_db logging_promoter = []" by (simp_all add: logging_promoter_def NewPromoter_def)
  ultimately show ?thesis
    using promotion_drops_restaged_file [OF logging_promoter_facts(1) refl logging_promoter_facts(2,3)] by fastforce
qed

end
