(* ===== verification/Resync.thy ===== *)
theory Resync
  imports Promotion
begin

text \<open>
  \<open>branchreconcile.go\<close>, \<open>scan_tracker.go\<close> and \<open>resync.go\<close> of \<open>internal/application\<close>: the branch
  reconciler, the registry of running scans, and the startup resync that replays the commits
  missed since the last promotion. Git is a parameter. The resync is written over an abstract
  world \<open>'s\<close>, as the code is written over function seams; below it is run on the world made of
  the modelled ingester and promoter.
\<close>

definition ErrMissingDependency :: err where
  "ErrMissingDependency = Errs ''application: missing required dependency''"

definition ErrDaemonStarting :: err where
  "ErrDaemonStarting = Errs ''veska: daemon starting (startup resync in progress)''"

section \<open>The branch reconciler\<close>

text \<open>The collaborators of the reconciler: gate, area, and the active branch per repository.\<close>

record recon =
  rc_gate :: Gate
  rc_area :: Area
  rc_active :: "string \<Rightarrow> string"

definition Reconcile ::
  "(string \<Rightarrow> string result) \<Rightarrow> err option \<Rightarrow> err option \<Rightarrow> recon \<Rightarrow> string \<Rightarrow> string
     \<Rightarrow> recon \<times> string \<times> err option" where
  "Reconcile CurrentBranch get_fault set_fault st repoID rootPath =
     (case CurrentBranch rootPath of
        Inl e \<Rightarrow> (st, [], None)
      | Inr cur \<Rightarrow>
          if cur = [] then (st, [], None)
          else case get_fault of
            Some e \<Rightarrow> (st, [], Some (Wrap ''branch reconcile: read active branch for %s: %w'' [repoID] e))
          | None \<Rightarrow>
              let prev = rc_active st repoID
              in if cur = prev then (st, [], None)
                 else let st1 = st\<lparr>rc_gate := BumpGeneration (rc_gate st),
                                   rc_area := Clear (rc_area st) repoID prev\<rparr>
                      in case set_fault of
                           Some e \<Rightarrow> (st1, [], Some (Wrap ''branch reconcile: set active branch for %s: %w'' [repoID] e))
                         | None \<Rightarrow> (st1\<lparr>rc_active := (rc_active st1)(repoID := cur)\<rparr>, cur, None))"

section \<open>The scan tracker\<close>

record ScanState =
  sc_RepoID :: string
  sc_Phase :: string
  sc_StartedAt :: int
  sc_FilesSeen :: int
  sc_FilesTotal :: int

text \<open>A nil tracker is \<open>None\<close>: every method is a no-op on it.\<close>

type_synonym ScanTracker = "(string, ScanState) gomap option"

definition NewScanTracker :: ScanTracker where
  "NewScanTracker = Some []"

definition ScanTracker_Start :: "int \<Rightarrow> ScanTracker \<Rightarrow> string \<Rightarrow> ScanTracker" where
  "ScanTracker_Start now t repoID =
     map_option (gm_put repoID \<lparr>sc_RepoID = repoID, sc_Phase = ''running'', sc_StartedAt = now,
                                sc_FilesSeen = 0, sc_FilesTotal = 0\<rparr>) t"

definition modify_scan :: "(ScanState \<Rightarrow> ScanState) \<Rightarrow> ScanTracker \<Rightarrow> string \<Rightarrow> ScanTracker" where
  "modify_scan f t repoID =
     map_option (\<lambda>m. case map_of m repoID of None \<Rightarrow> m | Some st \<Rightarrow> gm_put repoID (f st) m) t"

definition ScanTracker_Progress :: "ScanTracker \<Rightarrow> string \<Rightarrow> int \<Rightarrow> int \<Rightarrow> ScanTracker" where
  "ScanTracker_Progress t repoID filesSeen filesTotal =
     modify_scan (\<lambda>st. st\<lparr>sc_FilesSeen := filesSeen, sc_FilesTotal := filesTotal\<rparr>) t repoID"

definition ScanTracker_SetPhase :: "ScanTracker \<Rightarrow> string \<Rightarrow> string \<Rightarrow> ScanTracker" where
  "ScanTracker_SetPhase t repoID phase = modify_scan (\<lambda>st. st\<lparr>sc_Phase := phase\<rparr>) t repoID"

definition ScanTracker_End :: "ScanTracker \<Rightarrow> string \<Rightarrow> ScanTracker" where
  "ScanTracker_End t repoID = map_option (gm_del repoID) t"

definition IsAnyScanRunning :: "ScanTracker \<Rightarrow> bool" where
  "IsAnyScanRunning t \<longleftrightarrow> (case t of None \<Rightarrow> False | Some m \<Rightarrow> length m > 0)"

definition ScanTracker_Snapshot :: "ScanTracker \<Rightarrow> ScanState list" where
  "ScanTracker_Snapshot t = (case t of None \<Rightarrow> [] | Some m \<Rightarrow> sort_key sc_RepoID (map snd m))"

text \<open>The state of a repository's scan as the tracker shows it.\<close>

definition scan_of :: "ScanTracker \<Rightarrow> string \<Rightarrow> ScanState option" where
  "scan_of t repoID = (case t of None \<Rightarrow> None | Some m \<Rightarrow> map_of m repoID)"

definition tracker_wf :: "ScanTracker \<Rightarrow> bool" where
  "tracker_wf t \<longleftrightarrow> (case t of None \<Rightarrow> True
     | Some m \<Rightarrow> gm_wf m \<and> (\<forall>(k, st) \<in> set m. sc_RepoID st = k))"

section \<open>The startup resync\<close>

record RepoRecord =
  rr_RepoID :: string
  rr_RootPath :: string
  rr_ActiveBranch :: string
  rr_LastPromotedSHA :: string
  rr_Kind :: string
  rr_Aliases :: "string list"

record GitQuerier =
  gq_HEAD :: "string \<Rightarrow> string result"
  gq_IsAncestor :: "string \<Rightarrow> string \<Rightarrow> string \<Rightarrow> bool result"
  gq_CommitsSince :: "string \<Rightarrow> string \<Rightarrow> string \<Rightarrow> string list result"
  gq_ChangedFiles :: "string \<Rightarrow> string \<Rightarrow> string list result"
  gq_ReadFileAtCommit :: "string \<Rightarrow> string \<Rightarrow> string \<Rightarrow> string result"

record 's StartupResync =
  sr_repos :: "'s \<Rightarrow> RepoRecord list result"
  sr_git :: GitQuerier
  sr_save :: "'s \<Rightarrow> string \<Rightarrow> string \<Rightarrow> string \<Rightarrow> string \<Rightarrow> 's"
  sr_promote :: "'s \<Rightarrow> string \<Rightarrow> string \<Rightarrow> string \<Rightarrow> Actor \<Rightarrow> 's \<times> err option"
  sr_reparser :: "'s \<Rightarrow> RepoRecord \<Rightarrow> 's \<times> err option"
  sr_br :: "('s \<Rightarrow> string \<Rightarrow> string \<Rightarrow> 's \<times> string \<times> err option) option"
  sr_ctx_err :: "'s \<Rightarrow> err option"

definition systemActor :: Actor where
  "systemActor = \<lparr>a_ID = ''service:veska'', a_Kind = ActorKindSystem\<rparr>"

fun save_files :: "'s StartupResync \<Rightarrow> RepoRecord \<Rightarrow> string \<Rightarrow> string list \<Rightarrow> 's \<Rightarrow> 's" where
  "save_files r repo sha [] s = s"
| "save_files r repo sha (f # fs) s =
     (case gq_ReadFileAtCommit (sr_git r) (rr_RootPath repo) sha f of
        Inl e \<Rightarrow> save_files r repo sha fs s
      | Inr src \<Rightarrow> save_files r repo sha fs (sr_save r s (rr_RepoID repo) (rr_ActiveBranch repo) f src))"

definition replayCommit :: "'s StartupResync \<Rightarrow> RepoRecord \<Rightarrow> string \<Rightarrow> 's \<Rightarrow> 's \<times> err option" where
  "replayCommit r repo sha s =
     (case gq_ChangedFiles (sr_git r) (rr_RootPath repo) sha of
        Inl e \<Rightarrow> (s, Some (Wrap ''startup resync: ChangedFiles for commit %q in repo %q: %w'' [sha, rr_RepoID repo] e))
      | Inr files \<Rightarrow>
          sr_promote r (save_files r repo sha files s) (rr_RepoID repo) (rr_ActiveBranch repo) sha systemActor)"

fun replay_commits :: "'s StartupResync \<Rightarrow> RepoRecord \<Rightarrow> string list \<Rightarrow> 's \<Rightarrow> 's \<times> err option" where
  "replay_commits r repo [] s = (s, None)"
| "replay_commits r repo (sha # shas) s =
     (case sr_ctx_err r s of
        Some e \<Rightarrow> (s, Some e)
      | None \<Rightarrow>
          (case replayCommit r repo sha s of
             (s', Some e) \<Rightarrow> (s', Some e)
           | (s', None) \<Rightarrow> replay_commits r repo shas s'))"

definition resyncRepo :: "'s StartupResync \<Rightarrow> RepoRecord \<Rightarrow> 's \<Rightarrow> 's \<times> err option" where
  "resyncRepo r repo0 s0 =
     (let (s, repo) = (case sr_br r of
            None \<Rightarrow> (s0, repo0)
          | Some rec \<Rightarrow>
              (case rec s0 (rr_RepoID repo0) (rr_RootPath repo0) of
                 (s', b, _) \<Rightarrow> (s', if b \<noteq> [] then repo0\<lparr>rr_ActiveBranch := b\<rparr> else repo0)))
      in case gq_HEAD (sr_git r) (rr_RootPath repo) of
           Inl e \<Rightarrow> (s, Some (Wrap ''startup resync: HEAD for repo %q: %w'' [rr_RepoID repo] e))
         | Inr head \<Rightarrow>
             if rr_LastPromotedSHA repo = head then (s, None)
             else if rr_LastPromotedSHA repo = [] then sr_reparser r s repo
             else case gq_IsAncestor (sr_git r) (rr_RootPath repo) (rr_LastPromotedSHA repo) head of
                    Inl e \<Rightarrow> (s, Some (Wrap ''startup resync: IsAncestor for repo %q: %w'' [rr_RepoID repo] e))
                  | Inr ancestor \<Rightarrow>
                      if \<not> ancestor then sr_reparser r s repo
                      else case gq_CommitsSince (sr_git r) (rr_RootPath repo) (rr_LastPromotedSHA repo) head of
                             Inl e \<Rightarrow> (s, Some (Wrap ''startup resync: CommitsSince for repo %q: %w'' [rr_RepoID repo] e))
                           | Inr commits \<Rightarrow> replay_commits r repo commits s)"

fun resync_all :: "'s StartupResync \<Rightarrow> RepoRecord list \<Rightarrow> 's \<Rightarrow> 's \<times> err option" where
  "resync_all r [] s = (s, None)"
| "resync_all r (repo # repos) s =
     (case sr_ctx_err r s of
        Some e \<Rightarrow> (s, Some e)
      | None \<Rightarrow> resync_all r repos (fst (resyncRepo r repo s)))"

definition StartupResync_Run :: "'s StartupResync \<Rightarrow> 's \<Rightarrow> 's \<times> err option" where
  "StartupResync_Run r s =
     (case sr_repos r s of
        Inl e \<Rightarrow> (s, Some (Wrap ''startup resync: list repos: %w'' [] e))
      | Inr repos \<Rightarrow> resync_all r repos s)"

section \<open>Properties of the reconciler and the tracker\<close>

lemma Reconcile_switch:
  assumes "CurrentBranch root = Inr cur" "cur \<noteq> []" "cur \<noteq> rc_active st repoID"
  shows "Reconcile CurrentBranch None None st repoID root =
    (\<lparr>rc_gate = BumpGeneration (rc_gate st), rc_area = Clear (rc_area st) repoID (rc_active st repoID),
      rc_active = (rc_active st)(repoID := cur)\<rparr>, cur, None)"
  using assms by (simp add: Reconcile_def Let_def)

lemma Reconcile_settled:
  assumes "CurrentBranch root = Inr (rc_active st repoID)"
  shows "Reconcile CurrentBranch None None st repoID root = (st, [], None)"
  using assms by (simp add: Reconcile_def Let_def)

lemma scan_of_Start: "scan_of (ScanTracker_Start now (Some m) r) = (scan_of (Some m))(r \<mapsto>
    \<lparr>sc_RepoID = r, sc_Phase = ''running'', sc_StartedAt = now, sc_FilesSeen = 0, sc_FilesTotal = 0\<rparr>)"
  by (simp add: fun_eq_iff scan_of_def ScanTracker_Start_def gomap_simps)

lemma scan_of_End: "scan_of (ScanTracker_End t r) = (scan_of t)(r := None)"
  by (cases t) (simp_all add: fun_eq_iff scan_of_def ScanTracker_End_def gomap_simps)

lemma scan_of_modify: "scan_of (modify_scan f t r) = (scan_of t)(r := map_option f (scan_of t r))"
  by (cases t) (auto simp: fun_eq_iff scan_of_def modify_scan_def gomap_simps split: option.split)

lemma modify_scan_None: "scan_of t r = None \<Longrightarrow> modify_scan f t r = t"
  by (cases t) (simp_all add: scan_of_def modify_scan_def)

lemma tracker_wf_put:
  "tracker_wf (Some m) \<Longrightarrow> sc_RepoID st = r \<Longrightarrow> tracker_wf (Some (gm_put r st m))"
  by (auto simp: tracker_wf_def gomap_simps set_gm_put)

lemma tracker_wf_Start: "tracker_wf t \<Longrightarrow> tracker_wf (ScanTracker_Start now t r)"
  by (cases t) (auto simp: ScanTracker_Start_def tracker_wf_def gomap_simps set_gm_put)

lemma tracker_wf_modify:
  assumes "tracker_wf t" "\<And>st. sc_RepoID (f st) = sc_RepoID st"
  shows "tracker_wf (modify_scan f t r)"
proof (cases t)
  case (Some m)
  show ?thesis
  proof (cases "map_of m r")
    case (Some st)
    then have "sc_RepoID st = r" using assms(1) \<open>t = Some m\<close> by (auto simp: tracker_wf_def gm_get_iff)
    then show ?thesis using assms Some \<open>t = Some m\<close> by (simp add: modify_scan_def tracker_wf_put)
  qed (use assms(1) Some in \<open>simp add: modify_scan_def\<close>)
qed (use assms(1) in \<open>simp add: modify_scan_def\<close>)

lemma tracker_wf_End: "tracker_wf t \<Longrightarrow> tracker_wf (ScanTracker_End t r)"
  by (cases t) (auto simp: ScanTracker_End_def tracker_wf_def gomap_simps, auto simp: gm_del_def AList.delete_eq)

section \<open>The resync on the modelled ingester and promoter\<close>

text \<open>
  The world of a daemon: its ingester (whose staging area the promoter shares) and the batches
  that were committed, oldest first.
\<close>

record daemon =
  dm_ing :: Ingester
  dm_log :: "PromotionBatch list"

definition daemon_save :: "daemon \<Rightarrow> string \<Rightarrow> string \<Rightarrow> string \<Rightarrow> string \<Rightarrow> daemon" where
  "daemon_save s repoID branch path src =
     (case Save id (dm_ing s) repoID branch path src of None \<Rightarrow> s | Some ing \<Rightarrow> s\<lparr>dm_ing := ing\<rparr>)"

text \<open>The store of the replay: it records every batch and refuses none.\<close>

definition commit_batch :: "PromotionBatch list \<Rightarrow> PromotionBatch \<Rightarrow> PromotionBatch list \<times> err option" where
  "commit_batch log batch = (log @ [batch], None)"

definition daemon_promote :: "daemon \<Rightarrow> string \<Rightarrow> string \<Rightarrow> string \<Rightarrow> Actor \<Rightarrow> daemon \<times> err option" where
  "daemon_promote s repoID branch sha actor =
     (let (p, err) = Promote id 0 (NewPromoter (ing_staging (dm_ing s)) (dm_log s) commit_batch []) repoID branch sha actor
      in (s\<lparr>dm_ing := (dm_ing s)\<lparr>ing_staging := pm_staging p\<rparr>, dm_log := pm_db p\<rparr>, err))"

definition daemon_resync :: "GitQuerier \<Rightarrow> daemon StartupResync" where
  "daemon_resync git =
     \<lparr>sr_repos = (\<lambda>_. Inr []), sr_git = git, sr_save = daemon_save, sr_promote = daemon_promote,
      sr_reparser = (\<lambda>s _. (s, None)), sr_br = None, sr_ctx_err = (\<lambda>_. None)\<rparr>"

lemma daemon_resync_sel [simp]:
  "sr_git (daemon_resync git) = git" "sr_save (daemon_resync git) = daemon_save"
  "sr_promote (daemon_resync git) = daemon_promote" "sr_ctx_err (daemon_resync git) s = None"
  "sr_br (daemon_resync git) = None"
  by (simp_all add: daemon_resync_def)

text \<open>What the committed batches hold for a path: the file of the last batch that has it.\<close>

definition batch_map :: "string \<Rightarrow> string \<Rightarrow> PromotionBatch \<Rightarrow> string \<rightharpoonup> PromotionFile" where
  "batch_map r b bt =
     (if pb_RepoID bt = r \<and> pb_Branch bt = b then map_of (map (\<lambda>f. (pmf_Path f, f)) (pb_Files bt)) else Map.empty)"

definition promoted_view :: "PromotionBatch list \<Rightarrow> string \<Rightarrow> string \<Rightarrow> string \<rightharpoonup> PromotionFile" where
  "promoted_view log r b = foldl (\<lambda>m bt. m ++ batch_map r b bt) Map.empty log"

lemma promoted_view_snoc: "promoted_view (log @ [bt]) r b = promoted_view log r b ++ batch_map r b bt"
  by (simp add: promoted_view_def)

lemma batch_map_snapshot:
  assumes "area_wf a"
  shows "batch_map r b (promotion_batch r b sha ac now (Snapshot a r b)) p
    = map_option (\<lambda>e. promotion_file p (file_of e)) (area_get a (mk_key r b p))"
proof -
  have "map_of (map (\<lambda>f. (pmf_Path f, f)) (map (\<lambda>(path, sf). promotion_file path sf) snap)) p
      = map_option (promotion_file p) (map_of snap p)" for snap
    by (induction snap) (auto simp: promotion_file_def)
  then show ?thesis
    using overlay.get_snap [OF assms, of r b p]
    by (simp add: batch_map_def promotion_batch_def option.map_comp comp_def)
qed

text \<open>A daemon at rest: gate open, nothing staged for the branch.\<close>

definition resting :: "CodeParser \<Rightarrow> string \<Rightarrow> string \<Rightarrow> daemon \<Rightarrow> bool" where
  "resting ps r b s \<longleftrightarrow> (\<exists>a g l. dm_ing s = ingester ps a g l \<and> area_wf a \<and> \<not> gt_paused g
     \<and> (\<forall>p. area_get a (mk_key r b p) = None))"

lemma daemon_save_eq:
  assumes "dm_ing s = ingester ps a g l" "\<not> gt_paused g" "cp_ParseFile ps r p src = Inr res" "p \<noteq> []"
  shows "daemon_save s r b p src = s\<lparr>dm_ing := ingester ps (area_put a (mk_key r b p) (entry_of (file_of_result res)))
    g (l @ save_calls r b p res False)\<rparr>"
  using assms save_parsed [of g ps r p src res id a l b False] by (simp add: daemon_save_def Save_def)

text \<open>The file a save stages, as a function of the source.\<close>

definition parsed_file :: "CodeParser \<Rightarrow> string \<Rightarrow> string \<Rightarrow> string \<Rightarrow> File" where
  "parsed_file ps r p src = (case cp_ParseFile ps r p src of Inr res \<Rightarrow> file_of_result res | Inl _ \<Rightarrow> empty_file)"

definition parser_total :: "CodeParser \<Rightarrow> string \<Rightarrow> bool" where
  "parser_total ps r \<longleftrightarrow> (\<forall>p src. is_ok (cp_ParseFile ps r p src))"

text \<open>What is staged for a path once the changed files of a commit are saved.\<close>

definition staged_after ::
  "GitQuerier \<Rightarrow> CodeParser \<Rightarrow> RepoRecord \<Rightarrow> string \<Rightarrow> string list \<Rightarrow> Area \<Rightarrow> string \<Rightarrow> entry option" where
  "staged_after git ps repo sha fs a p =
     (case gq_ReadFileAtCommit git (rr_RootPath repo) sha p of
        Inr src \<Rightarrow> (if p \<in> set fs then Some (entry_of (parsed_file ps (rr_RepoID repo) p src))
                    else area_get a (mk_key (rr_RepoID repo) (rr_ActiveBranch repo) p))
      | Inl _ \<Rightarrow> area_get a (mk_key (rr_RepoID repo) (rr_ActiveBranch repo) p))"

lemma save_files_area:
  assumes par: "parser_total ps (rr_RepoID repo)" and fs: "[] \<notin> set fs"
    and s: "dm_ing s = ingester ps a g l" "area_wf a" "\<not> gt_paused g"
  shows "\<exists>a' l'. save_files (daemon_resync git) repo sha fs s = s\<lparr>dm_ing := ingester ps a' g l'\<rparr> \<and> area_wf a'
    \<and> (\<forall>p. area_get a' (mk_key (rr_RepoID repo) (rr_ActiveBranch repo) p) = staged_after git ps repo sha fs a p)"
  using fs s
proof (induction fs arbitrary: s a l)
  case Nil
  have "s = s\<lparr>dm_ing := ingester ps a g l\<rparr>" using Nil.prems(2) by simp
  then show ?case using Nil.prems(3)
    by (intro exI [of _ a] exI [of _ l]) (auto simp: staged_after_def split: sum.split)
next
  case (Cons f fs)
  let ?r = "rr_RepoID repo" and ?b = "rr_ActiveBranch repo"
  show ?case
  proof (cases "gq_ReadFileAtCommit git (rr_RootPath repo) sha f")
    case (Inl e)
    then have step: "save_files (daemon_resync git) repo sha (f # fs) s = save_files (daemon_resync git) repo sha fs s"
      by simp
    have "staged_after git ps repo sha (f # fs) a = staged_after git ps repo sha fs a"
      using Inl by (auto simp: fun_eq_iff staged_after_def split: sum.split)
    then show ?thesis unfolding step
      using Cons.IH [OF _ Cons.prems(2-4)] Cons.prems(1) by simp
  next
    case (Inr src)
    obtain res where res: "cp_ParseFile ps ?r f src = Inr res"
      using par by (auto simp: parser_total_def is_ok_iff)
    let ?a = "area_put a (mk_key ?r ?b f) (entry_of (file_of_result res))"
    let ?s = "s\<lparr>dm_ing := ingester ps ?a g (l @ save_calls ?r ?b f res False)\<rparr>"
    have step: "save_files (daemon_resync git) repo sha (f # fs) s = save_files (daemon_resync git) repo sha fs ?s"
      using Inr daemon_save_eq [OF Cons.prems(2,4) res, of ?b] Cons.prems(1) by auto
    have "parsed_file ps ?r f src = file_of_result res" by (simp add: parsed_file_def res)
    then have "staged_after git ps repo sha (f # fs) a = staged_after git ps repo sha fs ?a"
      using Inr by (auto simp: fun_eq_iff staged_after_def overlay.get_put split: sum.split)
    moreover have "area_wf ?a" using Cons.prems(3) by (rule overlay.wf_put)
    ultimately show ?thesis unfolding step
      using Cons.IH [of ?s ?a] Cons.prems by auto
  qed
qed

text \<open>One replayed commit: the readable changed files are promoted, nothing else changes.\<close>

lemma replayCommit_view:
  assumes par: "parser_total ps (rr_RepoID repo)" and fs: "gq_ChangedFiles git (rr_RootPath repo) sha = Inr fs" "[] \<notin> set fs"
    and s: "resting ps (rr_RepoID repo) (rr_ActiveBranch repo) s"
  shows "\<exists>s'. replayCommit (daemon_resync git) repo sha s = (s', None)
    \<and> resting ps (rr_RepoID repo) (rr_ActiveBranch repo) s'
    \<and> (\<forall>p. promoted_view (dm_log s') (rr_RepoID repo) (rr_ActiveBranch repo) p =
         (case gq_ReadFileAtCommit git (rr_RootPath repo) sha p of
            Inr src \<Rightarrow> if p \<in> set fs then Some (promotion_file p (parsed_file ps (rr_RepoID repo) p src))
                       else promoted_view (dm_log s) (rr_RepoID repo) (rr_ActiveBranch repo) p
          | Inl _ \<Rightarrow> promoted_view (dm_log s) (rr_RepoID repo) (rr_ActiveBranch repo) p))"
proof -
  let ?r = "rr_RepoID repo" and ?b = "rr_ActiveBranch repo"
  obtain a g l where a: "dm_ing s = ingester ps a g l" "area_wf a" "\<not> gt_paused g"
    "\<And>p. area_get a (mk_key ?r ?b p) = None"
    using s by (auto simp: resting_def)
  obtain a' l' where a': "save_files (daemon_resync git) repo sha fs s = s\<lparr>dm_ing := ingester ps a' g l'\<rparr>"
    "area_wf a'" "\<And>p. area_get a' (mk_key ?r ?b p) = staged_after git ps repo sha fs a p"
    using save_files_area [OF par fs(2) a(1-3)] by blast
  let ?pm = "NewPromoter a' (dm_log s) commit_batch []"
  let ?bt = "promotion_batch ?r ?b sha systemActor 0 (Snapshot a' ?r ?b)"
  have store: "pm_store ?pm (pm_db ?pm) (promotion_batch ?r ?b sha systemActor 0 (Snapshot (pm_staging ?pm) ?r ?b))
      = (dm_log s @ [?bt], None)"
    by (simp add: NewPromoter_def commit_batch_def)
  obtain p' where p': "Promote id 0 ?pm ?r ?b sha systemActor = (p', None)" "pm_db p' = dm_log s @ [?bt]"
    using Promote_staging [OF store, of id] by (auto simp: NewPromoter_def)
  have drained: "area_get (pm_staging p') k = (if in_scope ?r ?b k then None else area_get a' k)" for k
    using Promote_drains [OF _ store p'(1)] a'(2) by (simp add: NewPromoter_def)
  have wf': "area_wf (pm_staging p')"
    using Promote_staging [OF store, of id] p'(1) a'(2) overlay.wf_drop_list by (auto simp: NewPromoter_def)
  let ?s' = "s\<lparr>dm_ing := ingester ps (pm_staging p') g l', dm_log := dm_log s @ [?bt]\<rparr>"
  have run: "replayCommit (daemon_resync git) repo sha s = (?s', None)"
    using fs(1) a'(1) p' by (simp add: replayCommit_def daemon_promote_def ingester_eq)
  have "resting ps ?r ?b ?s'"
    unfolding resting_def using wf' a(3) drained
    by (intro exI [of _ "pm_staging p'"] exI [of _ g] exI [of _ l']) auto
  moreover have "promoted_view (dm_log ?s') ?r ?b p =
      (case gq_ReadFileAtCommit git (rr_RootPath repo) sha p of
         Inr src \<Rightarrow> if p \<in> set fs then Some (promotion_file p (parsed_file ps ?r p src))
                    else promoted_view (dm_log s) ?r ?b p
       | Inl _ \<Rightarrow> promoted_view (dm_log s) ?r ?b p)" for p
    using batch_map_snapshot [OF a'(2), of ?r ?b sha systemActor 0 p]
    by (simp add: promoted_view_snoc map_add_def a'(3) staged_after_def a(4) split: sum.split)
  ultimately show ?thesis using run by blast
qed

text \<open>
  A linear history: each commit reports at least the paths on which its tree differs from its
  parent's, and reads the files its tree has.
\<close>

fun consistent_history ::
  "GitQuerier \<Rightarrow> string \<Rightarrow> (string \<Rightarrow> string \<rightharpoonup> string) \<Rightarrow> string \<Rightarrow> string list \<Rightarrow> bool" where
  "consistent_history git root tree base [] \<longleftrightarrow> True"
| "consistent_history git root tree base (c # cs) \<longleftrightarrow>
     (\<exists>fs. gq_ChangedFiles git root c = Inr fs \<and> [] \<notin> set fs \<and> (\<forall>p. tree c p \<noteq> tree base p \<longrightarrow> p \<in> set fs))
     \<and> (\<forall>p src. gq_ReadFileAtCommit git root c p = Inr src \<longleftrightarrow> tree c p = Some src)
     \<and> consistent_history git root tree c cs"

definition view_matches :: "CodeParser \<Rightarrow> RepoRecord \<Rightarrow> (string \<rightharpoonup> string) \<Rightarrow> daemon \<Rightarrow> bool" where
  "view_matches ps repo t s \<longleftrightarrow>
     (\<forall>p src. t p = Some src \<longrightarrow>
        promoted_view (dm_log s) (rr_RepoID repo) (rr_ActiveBranch repo) p
        = Some (promotion_file p (parsed_file ps (rr_RepoID repo) p src)))"

lemma replayCommit_matches:
  assumes "parser_total ps (rr_RepoID repo)" "consistent_history git (rr_RootPath repo) tree base (c # cs)"
    "resting ps (rr_RepoID repo) (rr_ActiveBranch repo) s" "view_matches ps repo (tree base) s"
  shows "\<exists>s'. replayCommit (daemon_resync git) repo c s = (s', None)
    \<and> resting ps (rr_RepoID repo) (rr_ActiveBranch repo) s' \<and> view_matches ps repo (tree c) s'"
proof -
  obtain fs where fs: "gq_ChangedFiles git (rr_RootPath repo) c = Inr fs" "[] \<notin> set fs"
    "\<And>p. tree c p \<noteq> tree base p \<Longrightarrow> p \<in> set fs"
    and rd: "\<And>p src. gq_ReadFileAtCommit git (rr_RootPath repo) c p = Inr src \<longleftrightarrow> tree c p = Some src"
    using assms(2) by auto
  obtain s' where s': "replayCommit (daemon_resync git) repo c s = (s', None)"
    "resting ps (rr_RepoID repo) (rr_ActiveBranch repo) s'"
    and view: "\<And>p. promoted_view (dm_log s') (rr_RepoID repo) (rr_ActiveBranch repo) p =
         (case gq_ReadFileAtCommit git (rr_RootPath repo) c p of
            Inr src \<Rightarrow> if p \<in> set fs then Some (promotion_file p (parsed_file ps (rr_RepoID repo) p src))
                       else promoted_view (dm_log s) (rr_RepoID repo) (rr_ActiveBranch repo) p
          | Inl _ \<Rightarrow> promoted_view (dm_log s) (rr_RepoID repo) (rr_ActiveBranch repo) p)"
    using replayCommit_view [OF assms(1) fs(1,2) assms(3)] by blast
  have "view_matches ps repo (tree c) s'"
    unfolding view_matches_def
  proof (intro allI impI)
    fix p src
    assume t: "tree c p = Some src"
    then have "gq_ReadFileAtCommit git (rr_RootPath repo) c p = Inr src" using rd by simp
    moreover have "tree base p = Some src" if "p \<notin> set fs" using fs(3) t that by metis
    ultimately show "promoted_view (dm_log s') (rr_RepoID repo) (rr_ActiveBranch repo) p
        = Some (promotion_file p (parsed_file ps (rr_RepoID repo) p src))"
      using view [of p] assms(4) by (auto simp: view_matches_def)
  qed
  then show ?thesis using s' by blast
qed

lemma replay_converges:
  assumes "parser_total ps (rr_RepoID repo)" "consistent_history git (rr_RootPath repo) tree base cs"
    "resting ps (rr_RepoID repo) (rr_ActiveBranch repo) s" "view_matches ps repo (tree base) s"
  shows "\<exists>s'. replay_commits (daemon_resync git) repo cs s = (s', None)
    \<and> resting ps (rr_RepoID repo) (rr_ActiveBranch repo) s' \<and> view_matches ps repo (tree (last (base # cs))) s'"
  using assms(2-)
proof (induction cs arbitrary: base s)
  case (Cons c cs)
  obtain s1 where s1: "replayCommit (daemon_resync git) repo c s = (s1, None)"
    "resting ps (rr_RepoID repo) (rr_ActiveBranch repo) s1" "view_matches ps repo (tree c) s1"
    using replayCommit_matches [OF assms(1) Cons.prems] by blast
  then show ?case using Cons.IH [of c s1] Cons.prems(1) by auto
qed simp

section \<open>Properties\<close>

text \<open>
  C19. Replaying the commits missed since the last promotion converges: over a linear history in
  which every commit reports the paths it changed, the replay ends without an error with
  nothing staged for the branch, and every file of the last commit's tree is promoted with the
  content the parser gives for that commit.
\<close>

theorem replay_promotes_the_head_tree:
  assumes "parser_total ps (rr_RepoID repo)" and "consistent_history git (rr_RootPath repo) tree base cs"
    and "resting ps (rr_RepoID repo) (rr_ActiveBranch repo) s" and "view_matches ps repo (tree base) s"
  shows "\<exists>s'. replay_commits (daemon_resync git) repo cs s = (s', None)
    \<and> resting ps (rr_RepoID repo) (rr_ActiveBranch repo) s'
    \<and> (\<forall>p src. tree (last (base # cs)) p = Some src \<longrightarrow>
        promoted_view (dm_log s') (rr_RepoID repo) (rr_ActiveBranch repo) p
        = Some (promotion_file p (parsed_file ps (rr_RepoID repo) p src)))"
  using replay_converges [OF assms] by (simp add: view_matches_def)

definition sample_repo :: RepoRecord where
  "sample_repo = \<lparr>rr_RepoID = ''r'', rr_RootPath = ''/r'', rr_ActiveBranch = ''main'', rr_LastPromotedSHA = ''c0'',
     rr_Kind = ''tracked'', rr_Aliases = []\<rparr>"

text \<open>A history of two commits: \<open>a.go\<close> is added by \<open>c1\<close> and deleted by \<open>c2\<close>, which adds \<open>b.go\<close>.\<close>

definition sample_tree :: "string \<Rightarrow> string \<rightharpoonup> string" where
  "sample_tree c = (if c = ''c1'' then [''a.go'' \<mapsto> ''ok''] else if c = ''c2'' then [''b.go'' \<mapsto> ''ok''] else Map.empty)"

definition sample_git :: GitQuerier where
  "sample_git = \<lparr>gq_HEAD = (\<lambda>_. Inr ''c2''), gq_IsAncestor = (\<lambda>_ _ _. Inr True), gq_CommitsSince = (\<lambda>_ _ _. Inr [''c1'', ''c2'']),
     gq_ChangedFiles = (\<lambda>_ c. Inr (if c = ''c1'' then [''a.go''] else [''a.go'', ''b.go''])),
     gq_ReadFileAtCommit = (\<lambda>_ c p. case sample_tree c p of Some src \<Rightarrow> Inr src | None \<Rightarrow> Inl (Errs ''no such path''))\<rparr>"

definition sample_daemon :: daemon where
  "sample_daemon = \<lparr>dm_ing = ingester sample_parser NewArea NewGate [], dm_log = []\<rparr>"

lemma sample_history_facts:
  "parser_total sample_parser (rr_RepoID sample_repo)"
  "consistent_history sample_git (rr_RootPath sample_repo) sample_tree ''c0'' [''c1'', ''c2'']"
  "resting sample_parser (rr_RepoID sample_repo) (rr_ActiveBranch sample_repo) sample_daemon"
  "view_matches sample_parser sample_repo (sample_tree ''c0'') sample_daemon"
proof -
  show "parser_total sample_parser (rr_RepoID sample_repo)" by (simp add: parser_total_def sample_parser_def)
  show "consistent_history sample_git (rr_RootPath sample_repo) sample_tree ''c0'' [''c1'', ''c2'']"
    by (auto simp: sample_git_def sample_tree_def split: option.splits if_splits)
  show "resting sample_parser (rr_RepoID sample_repo) (rr_ActiveBranch sample_repo) sample_daemon"
    unfolding resting_def by (intro exI [of _ NewArea] exI [of _ NewGate] exI [of _ "[]"]) (simp add: sample_daemon_def NewGate_def)
  show "view_matches sample_parser sample_repo (sample_tree ''c0'') sample_daemon"
    by (simp add: view_matches_def sample_tree_def)
qed

theorem replay_promotes_the_head_tree_witness:
  "\<exists>s'. replay_commits (daemon_resync sample_git) sample_repo [''c1'', ''c2''] sample_daemon = (s', None)
    \<and> promoted_view (dm_log s') ''r'' ''main'' ''b.go'' = Some (promotion_file ''b.go'' (parsed_file sample_parser ''r'' ''b.go'' ''ok''))"
proof -
  have t: "sample_tree (last [''c0'', ''c1'', ''c2'']) ''b.go'' = Some ''ok''" by (simp add: sample_tree_def)
  show ?thesis
    using replay_promotes_the_head_tree [OF sample_history_facts] t by (auto simp: sample_repo_def)
qed

text \<open>
  C40. A file that a replayed commit deletes stays promoted: reading it at the commit fails, the
  replay skips it, and what was promoted for it before is still what is promoted after.
\<close>

theorem replay_keeps_deleted_files:
  assumes "parser_total ps (rr_RepoID repo)" and "gq_ChangedFiles git (rr_RootPath repo) sha = Inr fs" and "[] \<notin> set fs"
    and "resting ps (rr_RepoID repo) (rr_ActiveBranch repo) s"
    and "p \<in> set fs" and "gq_ReadFileAtCommit git (rr_RootPath repo) sha p = Inl e"
  shows "\<exists>s'. replayCommit (daemon_resync git) repo sha s = (s', None)
    \<and> promoted_view (dm_log s') (rr_RepoID repo) (rr_ActiveBranch repo) p
      = promoted_view (dm_log s) (rr_RepoID repo) (rr_ActiveBranch repo) p"
proof -
  obtain s' where s': "replayCommit (daemon_resync git) repo sha s = (s', None)"
    and view: "\<forall>p. promoted_view (dm_log s') (rr_RepoID repo) (rr_ActiveBranch repo) p =
         (case gq_ReadFileAtCommit git (rr_RootPath repo) sha p of
            Inr src \<Rightarrow> if p \<in> set fs then Some (promotion_file p (parsed_file ps (rr_RepoID repo) p src))
                       else promoted_view (dm_log s) (rr_RepoID repo) (rr_ActiveBranch repo) p
          | Inl _ \<Rightarrow> promoted_view (dm_log s) (rr_RepoID repo) (rr_ActiveBranch repo) p)"
    using replayCommit_view [OF assms(1-4)] by blast
  then show ?thesis using spec [OF view, of p] assms(6) by simp
qed

theorem replay_keeps_deleted_files_witness:
  "\<exists>s'. replayCommit (daemon_resync sample_git) sample_repo ''c2'' sample_daemon = (s', None)
    \<and> promoted_view (dm_log s') ''r'' ''main'' ''a.go'' = promoted_view (dm_log sample_daemon) ''r'' ''main'' ''a.go''"
proof -
  have "gq_ChangedFiles sample_git (rr_RootPath sample_repo) ''c2'' = Inr [''a.go'', ''b.go'']"
    "gq_ReadFileAtCommit sample_git (rr_RootPath sample_repo) ''c2'' ''a.go'' = Inl (Errs ''no such path'')"
    by (simp_all add: sample_git_def sample_tree_def)
  from replay_keeps_deleted_files [OF sample_history_facts(1) this(1) _ sample_history_facts(3) _ this(2)]
  show ?thesis by (simp add: sample_repo_def)
qed

text \<open>
  Reconciling a switched branch discards what the old branch had staged and everything in
  flight: afterwards the old scope is empty, no other entry changed, a save that started before
  is rejected by the gate, the new branch is recorded, and reconciling again does nothing.
\<close>

theorem reconcile_switches_once:
  assumes "area_wf (rc_area st)" and "CurrentBranch root = Inr cur" and "cur \<noteq> []" and "cur \<noteq> rc_active st repoID"
  shows "\<exists>st'. Reconcile CurrentBranch None None st repoID root = (st', cur, None)
    \<and> rc_active st' = (rc_active st)(repoID := cur)
    \<and> (\<forall>k. area_get (rc_area st') k = (if in_scope repoID (rc_active st repoID) k then None else area_get (rc_area st) k))
    \<and> (\<forall>q c p f. Stage (rc_area st') q c p f [WithGenerationGuard (Generation (rc_gate st)) (rc_gate st')] = (rc_area st', False))
    \<and> Reconcile CurrentBranch None None st' repoID root = (st', [], None)"
proof -
  let ?st = "\<lparr>rc_gate = BumpGeneration (rc_gate st), rc_area = Clear (rc_area st) repoID (rc_active st repoID),
      rc_active = (rc_active st)(repoID := cur)\<rparr>"
  have run: "Reconcile CurrentBranch None None st repoID root = (?st, cur, None)"
    using assms(2,3,4) by (rule Reconcile_switch)
  have again: "Reconcile CurrentBranch None None ?st repoID root = (?st, [], None)"
    by (rule Reconcile_settled) (simp add: assms(2))
  show ?thesis
    using run again overlay.get_clear [OF assms(1)]
    by (intro exI [of _ ?st]) (simp add: Stage_guarded Generation_def BumpGeneration_def)
qed

theorem reconcile_switches_once_witness:
  "\<exists>st'. Reconcile (\<lambda>_. Inr ''dev'') None None \<lparr>rc_gate = NewGate, rc_area = NewArea, rc_active = (\<lambda>_. ''main'')\<rparr> ''r'' ''/r''
      = (st', ''dev'', None) \<and> rc_active st' ''r'' = ''dev''"
  using reconcile_switches_once [of "\<lparr>rc_gate = NewGate, rc_area = NewArea, rc_active = (\<lambda>_. ''main'')\<rparr>" "\<lambda>_. Inr ''dev''"
      "''/r''" "''dev''" "''r''"] by auto

end
