(* ===== verification/Cold_Scan.thy ===== *)
theory Cold_Scan
  imports Resync
begin

text \<open>
  \<open>coldscan.go\<close> of \<open>internal/application\<close>: the full reparse of a repository. The file system is a
  tree as \<open>filepath.WalkDir\<close> visits it, with the outcome of every read; the ignore matcher,
  \<open>strings.ToLower\<close> and the save and promote seams are parameters. The walk threads the world of
  the save seam together with the scan tracker.
\<close>

section \<open>The file tree\<close>

text \<open>
  A directory has the outcome of listing it, a file whether it is regular and the outcome of
  reading it. The listing is in the order the walk visits.
\<close>

datatype fs_entry =
    FsDir (fs_name: string) (fs_children: "fs_entry list result")
  | FsFile (fs_name: string) (fs_regular: bool) (fs_content: "string result")

definition rel_join :: "string \<Rightarrow> string \<Rightarrow> string" where
  "rel_join rel name = (if rel = ''.'' then name else rel @ ''/'' @ name)"

section \<open>What is staged\<close>

definition extensionSet :: "(string \<Rightarrow> string) \<Rightarrow> string list \<Rightarrow> string list" where
  "extensionSet ToLower exts = map ToLower exts"

definition manifestBaseNames :: "string list" where
  "manifestBaseNames = [''go.mod'']"

text \<open>\<open>filepath.Ext\<close> of a base name: from its last dot on, empty if it has none.\<close>

definition base_ext :: "string \<Rightarrow> string" where
  "base_ext base = (if CHR ''.'' \<in> set base then CHR ''.'' # after_last (\<lambda>c. c = CHR ''.'') base else [])"

definition isInterestingForStaging :: "(string \<Rightarrow> string) \<Rightarrow> string \<Rightarrow> string list \<Rightarrow> bool" where
  "isInterestingForStaging ToLower base exts \<longleftrightarrow>
     base \<in> set manifestBaseNames \<or> ToLower (base_ext base) \<in> set exts"

definition isLikelyBinary :: "string \<Rightarrow> bool" where
  "isLikelyBinary src \<longleftrightarrow> NUL \<in> set (take 8192 src)"

definition skip_dir :: "(string \<Rightarrow> bool) \<Rightarrow> string \<Rightarrow> string \<Rightarrow> bool" where
  "skip_dir ShouldIgnore rel name \<longleftrightarrow>
     (if rel = ''.'' then False else if name = ''.git'' then True else ShouldIgnore (rel @ ''/''))"

record coldScanConfig =
  cs_loader :: "string \<Rightarrow> (string \<Rightarrow> bool) result"
  cs_extensions :: "string list"
  cs_ToLower :: "string \<Rightarrow> string"

record 's coldScanSeams =
  se_save :: "'s \<Rightarrow> string \<Rightarrow> string \<Rightarrow> string \<Rightarrow> string \<Rightarrow> 's"
  se_promote :: "'s \<Rightarrow> string \<Rightarrow> string \<Rightarrow> string \<Rightarrow> Actor \<Rightarrow> 's \<times> err option"
  se_HEAD :: "string \<Rightarrow> string result"
  se_ctx_err :: "'s \<Rightarrow> err option"
  se_fs :: "string \<Rightarrow> fs_entry"

text \<open>The content to save for a file, if the filters let it through.\<close>

definition stageable :: "(string \<Rightarrow> string) \<Rightarrow> (string \<Rightarrow> bool) \<Rightarrow> string list \<Rightarrow> string \<Rightarrow> string \<Rightarrow> bool \<Rightarrow> string result \<Rightarrow> string option" where
  "stageable ToLower ShouldIgnore exts rel name regular content =
     (if \<not> regular then None
      else if name = ''.veskaignore'' then None
      else if ShouldIgnore rel then None
      else case content of
             Inl e \<Rightarrow> None
           | Inr src \<Rightarrow>
               if isLikelyBinary src then None
               else if \<not> isInterestingForStaging ToLower name exts then None
               else Some src)"

section \<open>The walk\<close>

text \<open>
  The state of a walk: the world, the number of files saved so far and the tracker, which
  \<open>countingSave\<close> updates after every save.
\<close>

record 's walk_state =
  wk_world :: 's
  wk_saved :: int
  wk_tracker :: ScanTracker

definition countingSave :: "'s coldScanSeams \<Rightarrow> RepoRecord \<Rightarrow> string \<Rightarrow> string \<Rightarrow> 's walk_state \<Rightarrow> 's walk_state" where
  "countingSave seams repo rel src w =
     (let world = se_save seams (wk_world w) (rr_RepoID repo) (rr_ActiveBranch repo) rel src;
          n = wk_saved w + 1
      in \<lparr>wk_world = world, wk_saved = n, wk_tracker = ScanTracker_Progress (wk_tracker w) (rr_RepoID repo) n 0\<rparr>)"

definition stage_file ::
  "coldScanConfig \<Rightarrow> 's coldScanSeams \<Rightarrow> RepoRecord \<Rightarrow> (string \<Rightarrow> bool) \<Rightarrow> string \<Rightarrow> string \<Rightarrow> bool \<Rightarrow> string result
     \<Rightarrow> 's walk_state \<Rightarrow> 's walk_state" where
  "stage_file cfg seams repo ignore rel name regular content w =
     (case stageable (cs_ToLower cfg) ignore (cs_extensions cfg) rel name regular content of
        None \<Rightarrow> w
      | Some src \<Rightarrow> countingSave seams repo rel src w)"

fun walk_entry ::
  "coldScanConfig \<Rightarrow> 's coldScanSeams \<Rightarrow> RepoRecord \<Rightarrow> (string \<Rightarrow> bool) \<Rightarrow> string \<Rightarrow> fs_entry
     \<Rightarrow> 's walk_state \<Rightarrow> 's walk_state \<times> err option"
and walk_list ::
  "coldScanConfig \<Rightarrow> 's coldScanSeams \<Rightarrow> RepoRecord \<Rightarrow> (string \<Rightarrow> bool) \<Rightarrow> string \<Rightarrow> fs_entry list
     \<Rightarrow> 's walk_state \<Rightarrow> 's walk_state \<times> err option" where
  "walk_entry cfg seams repo ignore rel (FsFile name regular content) w =
     (case se_ctx_err seams (wk_world w) of
        Some e \<Rightarrow> (w, Some e)
      | None \<Rightarrow> (stage_file cfg seams repo ignore rel name regular content w, None))"
| "walk_entry cfg seams repo ignore rel (FsDir name children) w =
     (case se_ctx_err seams (wk_world w) of
        Some e \<Rightarrow> (w, Some e)
      | None \<Rightarrow>
          if skip_dir ignore rel name then (w, None)
          else case children of
                 Inl e \<Rightarrow> (w, Some e)
               | Inr es \<Rightarrow> walk_list cfg seams repo ignore rel es w)"
| "walk_list cfg seams repo ignore rel [] w = (w, None)"
| "walk_list cfg seams repo ignore rel (e # es) w =
     (case walk_entry cfg seams repo ignore (rel_join rel (fs_name e)) e w of
        (w', Some err) \<Rightarrow> (w', Some err)
      | (w', None) \<Rightarrow> walk_list cfg seams repo ignore rel es w')"

definition walkAndSave ::
  "coldScanConfig \<Rightarrow> 's coldScanSeams \<Rightarrow> RepoRecord \<Rightarrow> (string \<Rightarrow> bool) \<Rightarrow> 's walk_state \<Rightarrow> 's walk_state \<times> err option" where
  "walkAndSave cfg seams repo ignore w = walk_entry cfg seams repo ignore ''.'' (se_fs seams (rr_RootPath repo)) w"

definition walkPhase ::
  "coldScanConfig \<Rightarrow> 's coldScanSeams \<Rightarrow> RepoRecord \<Rightarrow> (string \<Rightarrow> bool) \<Rightarrow> 's \<Rightarrow> ScanTracker
     \<Rightarrow> 's walk_state \<times> err option" where
  "walkPhase cfg seams repo ignore s t =
     (let (w, err) = walkAndSave cfg seams repo ignore \<lparr>wk_world = s, wk_saved = 0, wk_tracker = t\<rparr>
      in (w\<lparr>wk_tracker := ScanTracker_Progress (wk_tracker w) (rr_RepoID repo) (wk_saved w) 0\<rparr>, err))"

definition coldScanActor :: Actor where
  "coldScanActor = \<lparr>a_ID = ''service:veska'', a_Kind = ActorKindSystem\<rparr>"

definition runColdScan ::
  "int \<Rightarrow> coldScanConfig \<Rightarrow> 's coldScanSeams \<Rightarrow> RepoRecord \<Rightarrow> 's \<Rightarrow> ScanTracker
     \<Rightarrow> 's \<times> ScanTracker \<times> err option" where
  "runColdScan now cfg seams repo s t =
     (let rid = rr_RepoID repo;
          t1 = ScanTracker_SetPhase (ScanTracker_Start now t rid) rid ''walking''
      in case se_HEAD seams (rr_RootPath repo) of
           Inl e \<Rightarrow> (s, ScanTracker_End t1 rid, Some (Wrap ''cold scan: HEAD for repo %q: %w'' [rid] e))
         | Inr head \<Rightarrow>
             (case cs_loader cfg (rr_RootPath repo) of
                Inl e \<Rightarrow> (s, ScanTracker_End t1 rid, Some (Wrap ''cold scan: load ignore list for repo %q: %w'' [rid] e))
              | Inr ignore \<Rightarrow>
                  (case walkPhase cfg seams repo ignore s t1 of
                     (w, Some e) \<Rightarrow> (wk_world w, ScanTracker_End (wk_tracker w) rid, Some e)
                   | (w, None) \<Rightarrow>
                       let t2 = ScanTracker_SetPhase (wk_tracker w) rid ''promoting'';
                           (s', err) = se_promote seams (wk_world w) rid (rr_ActiveBranch repo) head coldScanActor
                       in (s', ScanTracker_End t2 rid, err))))"

section \<open>Which files a walk saves\<close>

text \<open>The files below an entry that no skipped directory hides, with their relative paths.\<close>

inductive located :: "(string \<Rightarrow> bool) \<Rightarrow> string \<Rightarrow> fs_entry \<Rightarrow> string \<Rightarrow> fs_entry \<Rightarrow> bool" for ignore where
  here: "located ignore rel (FsFile n r c) rel (FsFile n r c)"
| down: "rel = ''.'' \<or> n \<noteq> ''.git'' \<and> \<not> ignore (rel @ ''/'') \<Longrightarrow> e \<in> set es \<Longrightarrow> located ignore (rel_join rel (fs_name e)) e p f \<Longrightarrow>
    located ignore rel (FsDir n (Inr es)) p f"

inductive_simps located_FsFile: "located ignore rel (FsFile n r c) p f"
inductive_simps located_FsDir: "located ignore rel (FsDir n ch) p f"

text \<open>Every directory the walk enters can be listed.\<close>

fun listable :: "(string \<Rightarrow> bool) \<Rightarrow> string \<Rightarrow> fs_entry \<Rightarrow> bool"
and listable_all :: "(string \<Rightarrow> bool) \<Rightarrow> string \<Rightarrow> fs_entry list \<Rightarrow> bool" where
  "listable ignore rel (FsFile n r c) \<longleftrightarrow> True"
| "listable ignore rel (FsDir n ch) \<longleftrightarrow>
     skip_dir ignore rel n \<or> (case ch of Inl _ \<Rightarrow> False | Inr es \<Rightarrow> listable_all ignore rel es)"
| "listable_all ignore rel [] \<longleftrightarrow> True"
| "listable_all ignore rel (e # es) \<longleftrightarrow> listable ignore (rel_join rel (fs_name e)) e \<and> listable_all ignore rel es"

definition saves_at ::
  "coldScanConfig \<Rightarrow> (string \<Rightarrow> bool) \<Rightarrow> string \<Rightarrow> fs_entry \<Rightarrow> (string \<times> string) set" where
  "saves_at cfg ignore rel e =
     {(p, src). \<exists>n r c. located ignore rel e p (FsFile n r c)
        \<and> stageable (cs_ToLower cfg) ignore (cs_extensions cfg) p n r c = Some src}"

lemma stageable_Some:
  "stageable low ignore exts rel name regular content = Some src \<longleftrightarrow>
     regular \<and> content = Inr src \<and> name \<noteq> ''.veskaignore'' \<and> \<not> ignore rel \<and> NUL \<notin> set (take 8192 src)
     \<and> (name = ''go.mod'' \<or> low (base_ext name) \<in> set exts)"
  by (cases content) (auto simp: stageable_def isLikelyBinary_def isInterestingForStaging_def manifestBaseNames_def)

text \<open>The seams of a scan whose world records the saved paths and sources in order.\<close>

definition recording :: "(string \<times> string) list coldScanSeams \<Rightarrow> bool" where
  "recording seams \<longleftrightarrow> (\<forall>l r b p src. se_save seams l r b p src = l @ [(p, src)]) \<and> (\<forall>l. se_ctx_err seams l = None)"

lemma countingSave_world:
  "recording seams \<Longrightarrow> wk_world (countingSave seams repo rel src w) = wk_world w @ [(rel, src)]"
  "wk_saved (countingSave seams repo rel src w) = wk_saved w + 1"
  by (simp_all add: countingSave_def Let_def recording_def)

lemma saves_at_FsFile:
  "saves_at cfg ignore rel (FsFile n r c) =
     (case stageable (cs_ToLower cfg) ignore (cs_extensions cfg) rel n r c of None \<Rightarrow> {} | Some src \<Rightarrow> {(rel, src)})"
  by (auto simp: saves_at_def located_FsFile split: option.split)

lemma saves_at_FsDir:
  "saves_at cfg ignore rel (FsDir n ch) =
     (if skip_dir ignore rel n then {}
      else case ch of Inl _ \<Rightarrow> {} | Inr es \<Rightarrow> (\<Union>e \<in> set es. saves_at cfg ignore (rel_join rel (fs_name e)) e))"
  by (auto simp: saves_at_def located_FsDir skip_dir_def split: sum.split)

text \<open>A part of a walk that saved exactly the pairs of a set and counted them.\<close>

definition walked ::
  "(string \<times> string) list walk_state \<Rightarrow> (string \<times> string) set \<Rightarrow> (string \<times> string) list walk_state \<Rightarrow> bool" where
  "walked w S w' \<longleftrightarrow> (\<exists>l. wk_world w' = wk_world w @ l \<and> set l = S \<and> wk_saved w' = wk_saved w + int (length l))"

lemma walked_none [simp]: "walked w {} w"
  by (simp add: walked_def)

lemma walked_trans: "walked u S v \<Longrightarrow> walked v T w \<Longrightarrow> walked u (S \<union> T) w"
  unfolding walked_def by (elim exE, rename_tac l m, rule_tac x = "l @ m" in exI) simp

lemma walked_save:
  "recording seams \<Longrightarrow> walked w {(rel, src)} (countingSave seams repo rel src w)"
  unfolding walked_def by (rule exI [of _ "[(rel, src)]"]) (simp add: countingSave_world)

lemma walk_saves:
  "recording seams \<Longrightarrow> listable ignore rel e \<Longrightarrow>
     \<exists>w'. walk_entry cfg seams repo ignore rel e w = (w', None) \<and> walked w (saves_at cfg ignore rel e) w'"
  "recording seams \<Longrightarrow> listable_all ignore rel es \<Longrightarrow>
     \<exists>w'. walk_list cfg seams repo ignore rel es w = (w', None)
       \<and> walked w (\<Union>e \<in> set es. saves_at cfg ignore (rel_join rel (fs_name e)) e) w'"
proof (induction cfg seams repo ignore rel e w and cfg seams repo ignore rel es w
    rule: walk_entry_walk_list.induct)
  case (1 cfg seams repo ignore rel name regular content w)
  then show ?case
    by (auto simp: recording_def stage_file_def saves_at_FsFile intro: walked_save split: option.split)
next
  case (2 cfg seams repo ignore rel name children w)
  then show ?case
    by (cases children) (auto simp: recording_def saves_at_FsDir)
next
  case (3 cfg seams repo ignore rel w)
  then show ?case by simp
next
  case (4 cfg seams repo ignore rel e es w)
  obtain w1 where w1: "walk_entry cfg seams repo ignore (rel_join rel (fs_name e)) e w = (w1, None)"
    "walked w (saves_at cfg ignore (rel_join rel (fs_name e)) e) w1"
    using 4 by auto
  obtain w2 where "walk_list cfg seams repo ignore rel es w1 = (w2, None)"
    "walked w1 (\<Union>e \<in> set es. saves_at cfg ignore (rel_join rel (fs_name e)) e) w2"
    using 4(2) [OF w1(1) [symmetric]] 4(3,4) by auto
  then show ?case using w1 walked_trans by fastforce
qed

section \<open>The tracker across a scan\<close>

lemma walk_tracker:
  "r \<noteq> rr_RepoID repo \<Longrightarrow> scan_of (wk_tracker (fst (walk_entry cfg seams repo ignore rel e w))) r = scan_of (wk_tracker w) r"
  "r \<noteq> rr_RepoID repo \<Longrightarrow> scan_of (wk_tracker (fst (walk_list cfg seams repo ignore rel es w))) r = scan_of (wk_tracker w) r"
proof (induction cfg seams repo ignore rel e w and cfg seams repo ignore rel es w
    rule: walk_entry_walk_list.induct)
  case (1 cfg seams repo ignore rel name regular content w)
  then show ?case
    by (auto simp: stage_file_def countingSave_def Let_def ScanTracker_Progress_def scan_of_modify split: option.split)
next
  case (2 cfg seams repo ignore rel name children w)
  then show ?case by (auto split: option.split sum.split)
next
  case (3 cfg seams repo ignore rel w)
  then show ?case by simp
next
  case (4 cfg seams repo ignore rel e es w)
  obtain w1 err where w1: "walk_entry cfg seams repo ignore (rel_join rel (fs_name e)) e w = (w1, err)" by force
  then show ?case using 4(1) [OF 4(3)] 4(2) [OF w1 [symmetric] _ 4(3)] by (cases err) auto
qed

lemma scan_of_Start_other: "q \<noteq> r \<Longrightarrow> scan_of (ScanTracker_Start now t r) q = scan_of t q"
  by (cases t) (simp_all add: scan_of_def ScanTracker_Start_def gomap_simps)

lemma walkPhase_tracker:
  "r \<noteq> rr_RepoID repo \<Longrightarrow> scan_of (wk_tracker (fst (walkPhase cfg seams repo ignore s t))) r = scan_of t r"
  using walk_tracker(1) [of r repo cfg seams ignore "''.''" "se_fs seams (rr_RootPath repo)"
      "\<lparr>wk_world = s, wk_saved = 0, wk_tracker = t\<rparr>"]
  by (simp add: walkPhase_def walkAndSave_def Let_def case_prod_beta ScanTracker_Progress_def scan_of_modify)

lemma runColdScan_tracker:
  "scan_of (fst (snd (runColdScan now cfg seams repo s t))) r =
     (if r = rr_RepoID repo then None else scan_of t r)"
proof -
  let ?t1 = "ScanTracker_SetPhase (ScanTracker_Start now t (rr_RepoID repo)) (rr_RepoID repo) ''walking''"
  have "scan_of ?t1 r = scan_of t r" if "r \<noteq> rr_RepoID repo"
    using that by (simp add: ScanTracker_SetPhase_def scan_of_modify scan_of_Start_other)
  then show ?thesis
    using walkPhase_tracker [of r repo cfg seams _ s ?t1]
    by (auto simp: runColdScan_def Let_def scan_of_End ScanTracker_SetPhase_def scan_of_modify case_prod_beta
        split: sum.split option.split)
qed

section \<open>Properties\<close>

text \<open>
  C30. A cold scan saves exactly the files of the tree that are regular, not ignored, not below
  a skipped directory, readable, not binary and of a supported extension (or a manifest), each
  under its relative path with its content, and promotes at the commit it started from.
\<close>

theorem cold_scan_saves_exactly:
  assumes "recording seams" and "se_HEAD seams (rr_RootPath repo) = Inr head"
    and "cs_loader cfg (rr_RootPath repo) = Inr ignore"
    and "listable ignore ''.'' (se_fs seams (rr_RootPath repo))"
  shows "\<exists>log t'. runColdScan now cfg seams repo [] t =
      (fst (se_promote seams log (rr_RepoID repo) (rr_ActiveBranch repo) head coldScanActor), t',
       snd (se_promote seams log (rr_RepoID repo) (rr_ActiveBranch repo) head coldScanActor))
    \<and> set log = {(p, src). \<exists>n. located ignore ''.'' (se_fs seams (rr_RootPath repo)) p (FsFile n True (Inr src))
          \<and> n \<noteq> ''.veskaignore'' \<and> \<not> ignore p \<and> NUL \<notin> set (take 8192 src)
          \<and> (n = ''go.mod'' \<or> cs_ToLower cfg (base_ext n) \<in> set (cs_extensions cfg))}"
proof -
  let ?t1 = "ScanTracker_SetPhase (ScanTracker_Start now t (rr_RepoID repo)) (rr_RepoID repo) ''walking''"
  obtain w where w: "walk_entry cfg seams repo ignore ''.'' (se_fs seams (rr_RootPath repo))
      \<lparr>wk_world = [], wk_saved = 0, wk_tracker = ?t1\<rparr> = (w, None)"
    "walked \<lparr>wk_world = [], wk_saved = 0, wk_tracker = ?t1\<rparr> (saves_at cfg ignore ''.'' (se_fs seams (rr_RootPath repo))) w"
    using walk_saves(1) [OF assms(1,4)] by blast
  then have "set (wk_world w) = saves_at cfg ignore ''.'' (se_fs seams (rr_RootPath repo))"
    by (simp add: walked_def)
  also have "\<dots> = {(p, src). \<exists>n. located ignore ''.'' (se_fs seams (rr_RootPath repo)) p (FsFile n True (Inr src))
          \<and> n \<noteq> ''.veskaignore'' \<and> \<not> ignore p \<and> NUL \<notin> set (take 8192 src)
          \<and> (n = ''go.mod'' \<or> cs_ToLower cfg (base_ext n) \<in> set (cs_extensions cfg))}"
    unfolding saves_at_def stageable_Some by (rule Collect_cong) (simp add: case_prod_beta ex_bool_eq)
  finally have "set (wk_world w) = {(p, src). \<exists>n. located ignore ''.'' (se_fs seams (rr_RootPath repo)) p (FsFile n True (Inr src))
          \<and> n \<noteq> ''.veskaignore'' \<and> \<not> ignore p \<and> NUL \<notin> set (take 8192 src)
          \<and> (n = ''go.mod'' \<or> cs_ToLower cfg (base_ext n) \<in> set (cs_extensions cfg))}" .
  moreover have "\<exists>t'. runColdScan now cfg seams repo [] t =
      (fst (se_promote seams (wk_world w) (rr_RepoID repo) (rr_ActiveBranch repo) head coldScanActor), t',
       snd (se_promote seams (wk_world w) (rr_RepoID repo) (rr_ActiveBranch repo) head coldScanActor))"
    using w(1) assms(2,3)
    by (simp add: runColdScan_def Let_def walkPhase_def walkAndSave_def case_prod_beta)
  ultimately show ?thesis by blast
qed

definition sample_fs :: fs_entry where
  "sample_fs = FsDir ''r'' (Inr [FsDir ''.git'' (Inl (Errs ''denied'')), FsFile ''a.go'' True (Inr ''package a''),
     FsFile ''b.bin'' True (Inr ''x''), FsDir ''sub'' (Inr [FsFile ''go.mod'' True (Inr ''module m'')])])"

definition sample_seams :: "(string \<times> string) list coldScanSeams" where
  "sample_seams = \<lparr>se_save = (\<lambda>l r b p src. l @ [(p, src)]), se_promote = (\<lambda>l r b h a. (l, None)),
     se_HEAD = (\<lambda>_. Inr ''c1''), se_ctx_err = (\<lambda>_. None), se_fs = (\<lambda>_. sample_fs)\<rparr>"

definition sample_cfg :: coldScanConfig where
  "sample_cfg = \<lparr>cs_loader = (\<lambda>_. Inr (\<lambda>_. False)), cs_extensions = [''.go''], cs_ToLower = id\<rparr>"

theorem cold_scan_saves_exactly_witness:
  "\<exists>log t'. runColdScan 1 sample_cfg sample_seams sample_repo [] NewScanTracker = (log, t', None)
     \<and> (''a.go'', ''package a'') \<in> set log"
proof -
  have p: "recording sample_seams" "se_HEAD sample_seams (rr_RootPath sample_repo) = Inr ''c1''"
    "cs_loader sample_cfg (rr_RootPath sample_repo) = Inr (\<lambda>_. False)"
    "listable (\<lambda>_. False) ''.'' (se_fs sample_seams (rr_RootPath sample_repo))"
    by (simp_all add: recording_def sample_seams_def sample_cfg_def sample_fs_def skip_dir_def rel_join_def)
  have st: "NUL \<notin> set (take 8192 ''package a'')" "cs_ToLower sample_cfg (base_ext ''a.go'') \<in> set (cs_extensions sample_cfg)"
    by (simp_all add: NUL_def char_of_def sample_cfg_def base_ext_def after_last_def)
  have loc: "located (\<lambda>_. False) ''.'' (se_fs sample_seams (rr_RootPath sample_repo)) ''a.go'' (FsFile ''a.go'' True (Inr ''package a''))"
    unfolding sample_seams_def sample_fs_def coldScanSeams.simps
    by (rule located.down [where e = "FsFile ''a.go'' True (Inr ''package a'')"])
      (simp_all add: located_FsFile skip_dir_def rel_join_def)
  have pr: "se_promote sample_seams l r b h a = (l, None)" for l r b h a by (simp add: sample_seams_def)
  obtain log t' where run: "runColdScan 1 sample_cfg sample_seams sample_repo [] NewScanTracker = (log, t', None)"
    and log: "set log = {(p, src). \<exists>n. located (\<lambda>_. False) ''.'' (se_fs sample_seams (rr_RootPath sample_repo)) p (FsFile n True (Inr src))
          \<and> n \<noteq> ''.veskaignore'' \<and> \<not> False \<and> NUL \<notin> set (take 8192 src)
          \<and> (n = ''go.mod'' \<or> cs_ToLower sample_cfg (base_ext n) \<in> set (cs_extensions sample_cfg))}"
    using cold_scan_saves_exactly [OF p, of 1 NewScanTracker] unfolding pr fst_conv snd_conv by (elim exE conjE)
  have "(''a.go'', ''package a'') \<in> set log" unfolding log mem_Collect_eq prod.case
    using st loc by (intro exI [of _ "''a.go''"] conjI disjI2) simp_all
  then show ?thesis using run by blast
qed

text \<open>
  However a cold scan ends (no HEAD, no ignore list, an aborted walk, a failed promotion or
  success), its repository is no longer shown as scanning afterwards and the other scans of the
  tracker are untouched.
\<close>

theorem cold_scan_clears_tracker:
  "scan_of (fst (snd (runColdScan now cfg seams repo s t))) r =
     (if r = rr_RepoID repo then None else scan_of t r)"
  by (rule runColdScan_tracker)

end
