(* ===== verification/Graph_Tables.thy ===== *)
theory Graph_Tables
  imports Finding_Repo Work_Queue
begin

text \<open>
  The tables of the promoted graph as the migrations of \<open>internal/infrastructure/sqlite\<close> declare
  them: \<open>repos\<close>, \<open>nodes\<close>, \<open>edges\<close>, \<open>cross_repo_edge_stubs\<close>, \<open>file_imports\<close>, the work queue, the
  embedding references and the two full-text tables, each a map from its primary key to its
  rows. A statement acts on all of them, with its conflict clause, the check constraint on
  \<open>actor_kind\<close>, the foreign keys and their cascade; the pool refuses to open a database without
  foreign keys. The invariant is that no edge and no stub dangles.
\<close>

section \<open>Rows\<close>

record repo_rec =
  rp_root_path :: "string option"
  rp_module_path :: "string option"
  rp_last_promoted_sha :: "string option"
  rp_active_branch :: "string option"

text \<open>
  The columns that the modelled statements read or write; \<open>external\<close> and \<open>short_summary\<close> of a node and
  \<open>attempts\<close> of an embedding reference are left out.
\<close>

record node_rec =
  nd_repo_id :: string
  nd_language :: string
  nd_kind :: string
  nd_symbol_path :: string
  nd_file_path :: string
  nd_line_start :: "int option"
  nd_line_end :: "int option"
  nd_content_hash :: string
  nd_structural_hash :: "string option"
  nd_last_promoted_at :: int
  nd_actor_id :: string
  nd_actor_kind :: string
  nd_signature :: "string option"
  nd_snippet :: "string option"
  nd_prev_signature :: "string option"
  nd_exported :: "int option"

text \<open>The columns of \<open>edges\<close> beyond those that the queries of the findings repository join on.\<close>

record edge_rec = edge_row +
  ex_confidence :: string
  ex_last_promoted_at :: int
  ex_src_line :: "int option"
  ex_score :: "32 word option"

record stub_rec =
  sb_repo_id :: string
  sb_src_node_id :: string
  sb_kind :: string
  sb_module_path :: string
  sb_symbol_path :: string
  sb_language :: string
  sb_last_promoted_at :: int
  sb_method_call :: int
  sb_src_line :: "int option"

record import_rec =
  im_alias :: string
  im_language :: string
  im_last_promoted_at :: int

record embed_ref =
  em_content_hash :: "string option"
  em_state :: string
  em_enqueued_at :: int
  em_embedded_at :: "int option"

record fts_row =
  ft_node_id :: string
  ft_branch :: string
  ft_repo_id :: string
  ft_text :: string

text \<open>\<open>gb_seq\<close> is the last sequence number of the queue's \<open>AUTOINCREMENT\<close> column.\<close>

record graph_tables =
  gb_repos :: "(string, repo_rec) gomap"
  gb_nodes :: "(string \<times> string, node_rec) gomap"
  gb_edges :: "(string \<times> string, edge_rec) gomap"
  gb_stubs :: "(string \<times> string, stub_rec) gomap"
  gb_imports :: "(string \<times> string \<times> string \<times> string, import_rec) gomap"
  gb_queue :: queue_table
  gb_seq :: int
  gb_embed_refs :: "(string, embed_ref) gomap"
  gb_fts_words :: "fts_row list"
  gb_fts_trigrams :: "fts_row list"

section \<open>Statements\<close>

definition fk_error :: err where
  "fk_error = Errs ''FOREIGN KEY constraint failed''"

definition check_error :: err where
  "check_error = Errs ''CHECK constraint failed: actor_kind''"

definition has_node :: "graph_tables \<Rightarrow> string \<times> string \<Rightarrow> bool" where
  "has_node db k \<longleftrightarrow> map_of (gb_nodes db) k \<noteq> None"

text \<open>
  \<open>INSERT INTO nodes \<dots> ON CONFLICT(node_id, branch) DO NOTHING\<close>: the check constraint comes
  first, a conflicting row ends the statement, and only a row that is written has its
  repository checked.
\<close>

definition insert_node_row :: "string \<times> string \<Rightarrow> node_rec \<Rightarrow> graph_tables \<Rightarrow> graph_tables result" where
  "insert_node_row k row db =
     (if nd_actor_kind row \<notin> set validActorKinds then Inl check_error
      else if has_node db k then Inr db
      else if map_of (gb_repos db) (nd_repo_id row) = None then Inl fk_error
      else Inr (db\<lparr>gb_nodes := gm_put k row (gb_nodes db)\<rparr>))"

definition insert_edge_row :: "string \<times> string \<Rightarrow> edge_rec \<Rightarrow> graph_tables \<Rightarrow> graph_tables result" where
  "insert_edge_row k row db =
     (if map_of (gb_edges db) k \<noteq> None then Inr db
      else if \<not> has_node db (er_src_node_id row, snd k) \<or> \<not> has_node db (er_dst_node_id row, snd k) then Inl fk_error
      else Inr (db\<lparr>gb_edges := gm_put k row (gb_edges db)\<rparr>))"

definition insert_stub_row :: "string \<times> string \<Rightarrow> stub_rec \<Rightarrow> graph_tables \<Rightarrow> graph_tables result" where
  "insert_stub_row k row db =
     (if map_of (gb_stubs db) k \<noteq> None then Inr db
      else if \<not> has_node db (sb_src_node_id row, snd k) \<or> map_of (gb_repos db) (sb_repo_id row) = None then Inl fk_error
      else Inr (db\<lparr>gb_stubs := gm_put k row (gb_stubs db)\<rparr>))"

definition insert_import_row ::
  "string \<times> string \<times> string \<times> string \<Rightarrow> import_rec \<Rightarrow> graph_tables \<Rightarrow> graph_tables result" where
  "insert_import_row k row db =
     (if map_of (gb_imports db) k \<noteq> None then Inr db
      else if map_of (gb_repos db) (fst k) = None then Inl fk_error
      else Inr (db\<lparr>gb_imports := gm_put k row (gb_imports db)\<rparr>))"

definition enqueue_row ::
  "string \<Rightarrow> string \<Rightarrow> string \<Rightarrow> string \<Rightarrow> string \<Rightarrow> int \<Rightarrow> graph_tables \<Rightarrow> graph_tables" where
  "enqueue_row sha repoID branch kind payload now db =
     (let seq = gb_seq db + 1
      in db\<lparr>gb_seq := seq,
            gb_queue := gm_put seq
              \<lparr>wr_Seq = seq, wr_PromotionID = sha, wr_RepoID = repoID, wr_Branch = branch, wr_GitSHA = sha,
               wr_Kind = kind, wr_Payload = payload, wr_State = ''pending'', wr_Attempts = 0,
               wr_EnqueuedAt = now, q_available_at = 0, q_completed_at = None, q_error = None\<rparr> (gb_queue db)\<rparr>)"

text \<open>
  \<open>DELETE FROM nodes WHERE file_path = ? AND branch = ? AND repo_id = ?\<close>. The foreign keys of
  edges (both ends) and of stubs cascade.
\<close>

definition in_file :: "string \<Rightarrow> string \<Rightarrow> string \<Rightarrow> string \<times> string \<Rightarrow> node_rec \<Rightarrow> bool" where
  "in_file path branch repoID k row \<longleftrightarrow> nd_file_path row = path \<and> snd k = branch \<and> nd_repo_id row = repoID"

definition file_node_ids :: "string \<Rightarrow> string \<Rightarrow> string \<Rightarrow> graph_tables \<Rightarrow> string list" where
  "file_node_ids path branch repoID db =
     map (\<lambda>(k, row). fst k) (filter (\<lambda>(k, row). in_file path branch repoID k row) (gb_nodes db))"

definition delete_file_nodes :: "string \<Rightarrow> string \<Rightarrow> string \<Rightarrow> graph_tables \<Rightarrow> graph_tables" where
  "delete_file_nodes path branch repoID db =
     (let dead = file_node_ids path branch repoID db
      in db\<lparr>gb_nodes := filter (\<lambda>(k, row). \<not> in_file path branch repoID k row) (gb_nodes db),
            gb_edges := filter (\<lambda>(k, e). \<not> (snd k = branch \<and> (er_src_node_id e \<in> set dead \<or> er_dst_node_id e \<in> set dead)))
                          (gb_edges db),
            gb_stubs := filter (\<lambda>(k, s). \<not> (snd k = branch \<and> sb_src_node_id s \<in> set dead)) (gb_stubs db)\<rparr>)"

definition delete_file_imports :: "string \<Rightarrow> string \<Rightarrow> string \<Rightarrow> graph_tables \<Rightarrow> graph_tables" where
  "delete_file_imports repoID branch path db =
     db\<lparr>gb_imports := filter (\<lambda>((r, b, p, i), row). \<not> (r = repoID \<and> b = branch \<and> p = path)) (gb_imports db)\<rparr>"

text \<open>The upsert of \<open>node_embedding_refs\<close> resets an existing row.\<close>

definition upsert_embed_ref :: "string \<Rightarrow> int \<Rightarrow> graph_tables \<Rightarrow> graph_tables" where
  "upsert_embed_ref nodeID now db =
     db\<lparr>gb_embed_refs := gm_put nodeID
          \<lparr>em_content_hash = None, em_state = ''pending'', em_enqueued_at = now, em_embedded_at = None\<rparr>
          (gb_embed_refs db)\<rparr>"

text \<open>\<open>DELETE FROM node_fts_\<dots> WHERE \<dots> node_id IN (SELECT node_id FROM nodes \<dots>)\<close>.\<close>

definition drop_fts :: "string \<Rightarrow> string \<Rightarrow> string list \<Rightarrow> fts_row list \<Rightarrow> fts_row list" where
  "drop_fts branch repoID ids rows =
     filter (\<lambda>f. \<not> (ft_branch f = branch \<and> ft_repo_id f = repoID \<and> ft_node_id f \<in> set ids)) rows"

section \<open>Pattern matching\<close>

text \<open>
  SQLite's \<open>LIKE\<close> on bytes: \<open>%\<close> matches any run, \<open>_\<close> one character, and letters of the ASCII range
  match in either case.
\<close>

definition ascii_lower :: "char \<Rightarrow> char" where
  "ascii_lower c = (let n = of_char c :: nat in if 65 \<le> n \<and> n \<le> 90 then char_of (n + 32) else c)"

fun sql_like :: "string \<Rightarrow> string \<Rightarrow> bool" where
  "sql_like [] s \<longleftrightarrow> s = []"
| "sql_like (p # ps) [] \<longleftrightarrow> p = CHR ''%'' \<and> sql_like ps []"
| "sql_like (p # ps) (c # s) \<longleftrightarrow>
     (if p = CHR ''%'' then sql_like ps (c # s) \<or> sql_like (p # ps) s
      else (p = CHR ''_'' \<or> ascii_lower p = ascii_lower c) \<and> sql_like ps s)"

section \<open>Referential integrity\<close>

definition edge_rooted :: "graph_tables \<Rightarrow> string \<times> string \<Rightarrow> edge_rec \<Rightarrow> bool" where
  "edge_rooted db k e \<longleftrightarrow> has_node db (er_src_node_id e, snd k) \<and> has_node db (er_dst_node_id e, snd k)"

text \<open>
  What the keys of the schema give for nodes, edges, stubs and imports: one row per key in each, and
  no edge or stub whose end is missing.
\<close>

definition tables_ok :: "graph_tables \<Rightarrow> bool" where
  "tables_ok db \<longleftrightarrow> gm_wf (gb_nodes db) \<and> gm_wf (gb_edges db) \<and> gm_wf (gb_stubs db) \<and> gm_wf (gb_imports db)
     \<and> (\<forall>(k, e) \<in> set (gb_edges db). edge_rooted db k e)
     \<and> (\<forall>(k, s) \<in> set (gb_stubs db). has_node db (sb_src_node_id s, snd k))"

lemma has_node_iff: "has_node db k \<longleftrightarrow> k \<in> fst ` set (gb_nodes db)"
  by (auto simp: has_node_def map_of_eq_None_iff)

lemma tables_okI:
  assumes "gm_wf (gb_nodes db)" "gm_wf (gb_edges db)" "gm_wf (gb_stubs db)" "gm_wf (gb_imports db)"
    and "\<And>k e. (k, e) \<in> set (gb_edges db) \<Longrightarrow> edge_rooted db k e"
    and "\<And>k s. (k, s) \<in> set (gb_stubs db) \<Longrightarrow> has_node db (sb_src_node_id s, snd k)"
  shows "tables_ok db"
  using assms by (auto simp: tables_ok_def)

lemma tables_okD:
  assumes "tables_ok db"
  shows "gm_wf (gb_nodes db)" "gm_wf (gb_edges db)" "gm_wf (gb_stubs db)" "gm_wf (gb_imports db)"
    and "(k, e) \<in> set (gb_edges db) \<Longrightarrow> edge_rooted db k e"
    and "(k, s) \<in> set (gb_stubs db) \<Longrightarrow> has_node db (sb_src_node_id s, snd k)"
  using assms by (auto simp: tables_ok_def)

text \<open>Adding nodes keeps the integrity.\<close>

lemma tables_ok_more_nodes:
  assumes "tables_ok db" and "gm_wf (gb_nodes db')" and "fst ` set (gb_nodes db) \<subseteq> fst ` set (gb_nodes db')"
    and "gb_edges db' = gb_edges db" and "gb_stubs db' = gb_stubs db" and "gm_wf (gb_imports db')"
  shows "tables_ok db'"
  using assms by (auto simp: tables_ok_def edge_rooted_def has_node_iff)

lemma insert_node_row_ok:
  assumes "tables_ok db" and "insert_node_row k row db = Inr db'"
  shows "tables_ok db'"
proof -
  consider "db' = db" | "db' = db\<lparr>gb_nodes := gm_put k row (gb_nodes db)\<rparr>"
    using assms(2) by (auto simp: insert_node_row_def split: if_splits)
  then show ?thesis
  proof cases
    case 2
    show ?thesis using assms(1)
      by (rule tables_ok_more_nodes) (use tables_okD [OF assms(1)] in \<open>simp_all add: 2 gomap_simps subset_insertI\<close>)
  qed (use assms in simp)
qed

lemma insert_edge_row_ok:
  assumes "tables_ok db" and "insert_edge_row k row db = Inr db'"
  shows "tables_ok db'"
proof (cases "map_of (gb_edges db) k")
  case None
  then have db': "db' = db\<lparr>gb_edges := gm_put k row (gb_edges db)\<rparr>" and r: "edge_rooted db k row"
    using assms(2) by (auto simp: insert_edge_row_def edge_rooted_def split: if_splits)
  note ok = tables_okD [OF assms(1)]
  show ?thesis unfolding db'
  proof (rule tables_okI)
    fix k' e assume "(k', e) \<in> set (gb_edges (db\<lparr>gb_edges := gm_put k row (gb_edges db)\<rparr>))"
    then have "edge_rooted db k' e"
      using in_gm_put [OF ok(2), of k' e k row] r ok(5) [of k' e] by auto
    then show "edge_rooted (db\<lparr>gb_edges := gm_put k row (gb_edges db)\<rparr>) k' e"
      by (simp add: edge_rooted_def has_node_def)
  qed (use ok in \<open>simp_all add: gomap_simps has_node_def\<close>)
qed (use assms in \<open>simp add: insert_edge_row_def\<close>)

lemma insert_stub_row_ok:
  assumes "tables_ok db" and "insert_stub_row k row db = Inr db'"
  shows "tables_ok db'"
proof (cases "map_of (gb_stubs db) k")
  case None
  then have db': "db' = db\<lparr>gb_stubs := gm_put k row (gb_stubs db)\<rparr>" and r: "has_node db (sb_src_node_id row, snd k)"
    using assms(2) by (auto simp: insert_stub_row_def split: if_splits)
  note ok = tables_okD [OF assms(1)]
  show ?thesis unfolding db'
  proof (rule tables_okI)
    fix k' e assume "(k', e) \<in> set (gb_stubs (db\<lparr>gb_stubs := gm_put k row (gb_stubs db)\<rparr>))"
    then have "has_node db (sb_src_node_id e, snd k')" using in_gm_put [OF ok(3), of k' e k row] r ok(6) [of k' e] by auto
    then show "has_node (db\<lparr>gb_stubs := gm_put k row (gb_stubs db)\<rparr>) (sb_src_node_id e, snd k')"
      by (simp add: has_node_def)
  next
    fix k' e assume "(k', e) \<in> set (gb_edges (db\<lparr>gb_stubs := gm_put k row (gb_stubs db)\<rparr>))"
    then have "edge_rooted db k' e" using ok(5) by simp
    then show "edge_rooted (db\<lparr>gb_stubs := gm_put k row (gb_stubs db)\<rparr>) k' e"
      by (simp add: edge_rooted_def has_node_def)
  qed (use ok in \<open>simp_all add: gomap_simps\<close>)
qed (use assms in \<open>simp add: insert_stub_row_def\<close>)

text \<open>The cascade removes exactly what would dangle.\<close>

lemma in_file_node_ids:
  assumes wf: "gm_wf (gb_nodes db)" and row: "((x, branch), row) \<in> set (gb_nodes db)"
  shows "x \<in> set (file_node_ids path branch repoID db) \<longleftrightarrow> in_file path branch repoID (x, branch) row"
proof -
  have "x \<in> set (file_node_ids path branch repoID db)
      \<longleftrightarrow> (\<exists>r. ((x, branch), r) \<in> set (gb_nodes db) \<and> in_file path branch repoID (x, branch) r)"
    by (force simp: file_node_ids_def in_file_def)
  then show ?thesis using gm_unique [OF wf row] row by blast
qed

lemma delete_file_nodes_has_node:
  assumes "gm_wf (gb_nodes db)"
  shows "has_node (delete_file_nodes path branch repoID db) (x, b)
    \<longleftrightarrow> has_node db (x, b) \<and> \<not> (b = branch \<and> x \<in> set (file_node_ids path branch repoID db))"
proof -
  have "has_node (delete_file_nodes path branch repoID db) (x, b)
      \<longleftrightarrow> (\<exists>row. ((x, b), row) \<in> set (gb_nodes db) \<and> \<not> in_file path branch repoID (x, b) row)"
    by (force simp: has_node_iff delete_file_nodes_def Let_def)
  also have "\<dots> \<longleftrightarrow> has_node db (x, b) \<and> \<not> (b = branch \<and> x \<in> set (file_node_ids path branch repoID db))"
  proof (cases "b = branch")
    case True
    then show ?thesis using in_file_node_ids [OF assms, of x branch _ path repoID]
      by (auto simp: has_node_iff intro: rev_image_eqI)
  next
    case False
    then show ?thesis by (force simp: has_node_iff in_file_def)
  qed
  finally show ?thesis .
qed

lemma delete_file_nodes_ok:
  assumes "tables_ok db"
  shows "tables_ok (delete_file_nodes path branch repoID db)" (is "tables_ok ?d")
proof (rule tables_okI)
  note ok = tables_okD [OF assms]
  show "edge_rooted ?d k e" if "(k, e) \<in> set (gb_edges ?d)" for k e
    using that ok(5) [of k e] by (auto simp: edge_rooted_def delete_file_nodes_has_node [OF ok(1)]) (auto simp: delete_file_nodes_def Let_def)
  show "has_node ?d (sb_src_node_id s, snd k)" if "(k, s) \<in> set (gb_stubs ?d)" for k s
    using that ok(6) [of k s] by (auto simp: delete_file_nodes_has_node [OF ok(1)]) (auto simp: delete_file_nodes_def Let_def)
qed (use tables_okD [OF assms] in \<open>simp_all add: delete_file_nodes_def Let_def\<close>)

end
