(* ===== verification/Go_Path.thy ===== *)
theory Go_Path
  imports Prelude
begin

text \<open>
  What the sources use of the standard packages \<open>path\<close>, \<open>path/filepath\<close> and \<open>strings\<close> on
  slash-separated paths: \<open>Clean\<close> and \<open>Dir\<close> by their documented rules, \<open>Cut\<close>, \<open>CutPrefix\<close> and
  \<open>Contains\<close>. \<open>filepath\<close> is taken on a Unix system, where it agrees with \<open>path\<close> and \<open>ToSlash\<close> is
  the identity. \<open>Clean\<close> is shown to be idempotent, so that directories can be compared as strings.
\<close>

definition slash :: char where
  "slash = CHR ''/''"

text \<open>
  The elements of a path from left to right, with those kept so far in reverse: empty
  elements and \<open>.\<close> are dropped, \<open>..\<close> removes the element before it unless there is none, in
  which case it is kept in a relative path and dropped behind the root.
\<close>

fun clean_segs :: "bool \<Rightarrow> string list \<Rightarrow> string list \<Rightarrow> string list" where
  "clean_segs rooted out [] = rev out"
| "clean_segs rooted out (s # ss) =
     (if s = [] \<or> s = ''.'' then clean_segs rooted out ss
      else if s = ''..'' then
        (case out of
           [] \<Rightarrow> clean_segs rooted (if rooted then [] else [''..'']) ss
         | x # out' \<Rightarrow> clean_segs rooted (if x = ''..'' then ''..'' # out else out') ss)
      else clean_segs rooted (s # out) ss)"

definition path_Clean :: "string \<Rightarrow> string" where
  "path_Clean p =
     (if p = [] then ''.''
      else let rooted = (hd p = slash);
               s = join [slash] (clean_segs rooted [] (split_on slash p))
           in if rooted then slash # s else if s = [] then ''.'' else s)"

definition path_Dir :: "string \<Rightarrow> string" where
  "path_Dir p = path_Clean (take (length p - length (after_last (\<lambda>c. c = slash) p)) p)"

text \<open>\<open>strings.Cut\<close> at the first separator (one character), \<open>strings.CutPrefix\<close>, \<open>strings.Contains\<close>.\<close>

definition cut_before :: "char \<Rightarrow> string \<Rightarrow> string" where
  "cut_before c s = takeWhile (\<lambda>x. x \<noteq> c) s"

definition CutPrefix :: "string \<Rightarrow> string \<Rightarrow> string option" where
  "CutPrefix s p = (if HasPrefix s p then Some (drop (length p) s) else None)"

lemma CutPrefix_Some_iff: "CutPrefix s p = Some r \<longleftrightarrow> s = p @ r"
  by (auto simp: CutPrefix_def HasPrefix_iff)

section \<open>Clean is idempotent\<close>

text \<open>The element lists \<open>Clean\<close> produces: plain elements behind, in a relative path, some \<open>..\<close>.\<close>

definition plain_seg :: "string \<Rightarrow> bool" where
  "plain_seg s \<longleftrightarrow> s \<noteq> [] \<and> s \<noteq> ''.'' \<and> s \<noteq> ''..'' \<and> slash \<notin> set s"

fun clean_out :: "bool \<Rightarrow> string list \<Rightarrow> bool" where
  "clean_out rooted [] \<longleftrightarrow> True"
| "clean_out rooted (x # out) \<longleftrightarrow>
     (if x = ''..'' then \<not> rooted \<and> list_all (\<lambda>y. y = ''..'') out else plain_seg x \<and> clean_out rooted out)"

lemma clean_out_dots: "\<not> rooted \<Longrightarrow> list_all (\<lambda>y. y = ''..'') out \<Longrightarrow> clean_out rooted out"
  by (cases out) auto

lemma clean_out_tail: "clean_out rooted (x # out) \<Longrightarrow> clean_out rooted out"
  using clean_out_dots by (auto split: if_splits)

lemma clean_out_suffix: "clean_out rooted (xs @ out) \<Longrightarrow> clean_out rooted out"
  by (induction xs) (auto simp del: clean_out.simps(2) dest: clean_out_tail)

lemma clean_segs_out:
  assumes "clean_out rooted out" and "\<forall>s \<in> set segs. slash \<notin> set s"
  shows "clean_out rooted (rev (clean_segs rooted out segs))"
  using assms
proof (induction rooted out segs rule: clean_segs.induct)
  case (2 rooted out s ss)
  consider "s = [] \<or> s = ''.''" | "s = ''..''" "out = []" | x out' where "s = ''..''" "out = x # out'"
    | "s \<noteq> []" "s \<noteq> ''.''" "s \<noteq> ''..''"
    by (cases out) auto
  then show ?case
  proof cases
    case 1
    then show ?thesis using 2 by auto
  next
    case 2
    then show ?thesis using "2.IH"(2) "2.prems" by (cases rooted) auto
  next
    case 3
    then show ?thesis using "2.IH"(3) "2.prems" clean_out_tail [of rooted x out'] by (auto split: if_splits)
  next
    case 4
    then show ?thesis using "2.IH"(4) "2.prems" by (auto simp: plain_seg_def)
  qed
qed simp

lemma clean_segs_fixed: "clean_out rooted out \<Longrightarrow> clean_segs rooted [] (rev out) = rev out"
proof -
  have "clean_segs rooted out' xs = rev out' @ xs" if "clean_out rooted (rev xs @ out')" for out' xs
    using that
  proof (induction xs arbitrary: out')
    case (Cons x xs)
    have "clean_out rooted (x # out')" by (rule clean_out_suffix [of rooted "rev xs"]) (use Cons.prems in simp)
    then have "clean_segs rooted out' (x # xs) = clean_segs rooted (x # out') xs"
      by (cases out') (auto simp: plain_seg_def split: if_splits)
    then show ?case using Cons.IH [of "x # out'"] Cons.prems by simp
  qed simp
  from this [of "rev out" "[]"] show "clean_out rooted out \<Longrightarrow> clean_segs rooted [] (rev out) = rev out" by simp
qed

lemma split_on_join:
  "xs \<noteq> [] \<Longrightarrow> \<forall>s \<in> set xs. c \<notin> set s \<Longrightarrow> split_on c (join [c] xs) = xs"
proof (induction "[c]" xs rule: join.induct)
  case (2 x)
  have "split_on c x = [x]" if "c \<notin> set x" for x using that by (induction x) auto
  then show ?case using 2 by simp
next
  case (3 x y zs)
  have "split_on c (x @ c # r) = x # split_on c r" if "c \<notin> set x" for x r
    using that by (induction x) auto
  then show ?case using 3 by simp
qed simp

lemma clean_out_no_slash: "clean_out rooted out \<Longrightarrow> s \<in> set out \<Longrightarrow> slash \<notin> set s \<and> s \<noteq> []"
proof (induction out)
  case (Cons x out)
  show ?case
  proof (cases "x = ''..''")
    case True
    then have "s = ''..''" using Cons.prems by (auto simp: list_all_iff)
    then show ?thesis by (simp add: slash_def)
  qed (use Cons in \<open>auto simp: plain_seg_def\<close>)
qed simp

lemma join_hd:
  assumes "segs \<noteq> []" and "hd segs \<noteq> []"
  shows "join sep segs \<noteq> []" and "hd (join sep segs) = hd (hd segs)"
proof -
  obtain x xs where x: "segs = x # xs" using assms(1) by (cases segs) auto
  then show "join sep segs \<noteq> []" "hd (join sep segs) = hd (hd segs)"
    using assms(2) by (cases xs; simp)+
qed

lemma path_Clean_idem: "path_Clean (path_Clean p) = path_Clean p"
proof (cases "p = []")
  case False
  define rooted where "rooted = (hd p = slash)"
  define segs where "segs = clean_segs rooted [] (split_on slash p)"
  have out: "clean_out rooted (rev segs)"
    unfolding segs_def by (rule clean_segs_out) (auto dest: split_on_no_sep)
  then have fix': "clean_segs rooted [] segs = segs" using clean_segs_fixed [of rooted "rev segs"] by simp
  have ns: "slash \<notin> set s" "s \<noteq> []" if "s \<in> set segs" for s
    using clean_out_no_slash [OF out, of s] that by auto
  have hd: "hd (join [slash] segs) \<noteq> slash" "join [slash] segs \<noteq> []" if "segs \<noteq> []"
    using join_hd [OF that] ns that by (metis hd_in_set list.set_sel(1))+
  have P: "path_Clean p = (if rooted then slash # join [slash] segs
      else if join [slash] segs = [] then ''.'' else join [slash] segs)"
    using False by (simp add: path_Clean_def rooted_def segs_def Let_def)
  have sp: "split_on slash (join [slash] segs) = (if segs = [] then [[]] else segs)"
    using split_on_join [of segs slash] ns(1) by auto
  show ?thesis
  proof (cases rooted)
    case True
    then show ?thesis unfolding P using fix' sp by (simp add: path_Clean_def Let_def)
  next
    case False
    then show ?thesis unfolding P using fix' sp hd
      by (cases "segs = []") (simp_all add: path_Clean_def Let_def slash_def)
  qed
qed (simp add: path_Clean_def Let_def slash_def)

lemma path_Dir_clean: "path_Clean (path_Dir p) = path_Dir p"
  by (simp add: path_Dir_def path_Clean_idem)

lemma path_examples:
  "path_Clean ''a//b/./../c/'' = ''a/c''" "path_Clean ''/../x'' = ''/x''" "path_Clean ''../../a'' = ''../../a''"
  "path_Dir ''a/b.go'' = ''a''" "path_Dir ''b.go'' = ''.''" "path_Dir ''/b.go'' = ''/''"
  by code_simp+

end
