(* ===== verification/Promotion_Store.thy ===== *)
theory Promotion_Store
  imports Graph_Tables Promotion Go_Path
begin

text \<open>
  \<open>promotion_store.go\<close>, \<open>promotion_stmts.go\<close>, \<open>promotion_symbolmap.go\<close>, \<open>promotion_callresolve.go\<close>,
  \<open>promotion_sink.go\<close>, \<open>promotion_node_columns.go\<close> and \<open>snippet.go\<close> of
  \<open>internal/infrastructure/sqlite\<close>: the transaction that writes a batch into the tables of the
  graph. Every statement may fail: \<open>fault i\<close> is the outcome of the \<open>i\<close>-th one, and the state of
  the promotion counts them. A dereferenced nil node is an error of its own. The iteration order
  of a Go map and the row order of a query are the order of the association list, so what is
  proved holds for every order.
\<close>

section \<open>Columns\<close>

definition nodeLanguage :: "Node \<Rightarrow> string" where
  "nodeLanguage n = (case n_Language n of None \<Rightarrow> [] | Some l \<Rightarrow> l)"

definition nodeLines :: "Node \<Rightarrow> int option \<times> int option" where
  "nodeLines n = (case n_Lines n of None \<Rightarrow> (None, None) | Some l \<Rightarrow> (Some (lr_Start l), Some (lr_End l)))"

definition nodeStructuralHash :: "Node \<Rightarrow> string option" where
  "nodeStructuralHash n = n_StructuralHash n"

definition nodeContentHash :: "Node \<Rightarrow> string" where
  "nodeContentHash n = (case n_ContentHash n of None \<Rightarrow> [] | Some h \<Rightarrow> h)"

definition nodeSignature :: "Node \<Rightarrow> string option" where
  "nodeSignature n = n_Signature n"

definition nodeExported :: "Node \<Rightarrow> int option" where
  "nodeExported n = (case n_Exported n of None \<Rightarrow> None | Some e \<Rightarrow> Some (if e then 1 else 0))"

definition maxSnippetBytes :: nat where
  "maxSnippetBytes = 2000"

text \<open>The loop that moves the cut left while it points at a continuation byte (\<open>10xxxxxx\<close>).\<close>

definition continuation_byte :: "char \<Rightarrow> bool" where
  "continuation_byte c \<longleftrightarrow> of_char c div 64 = (2 :: nat)"

fun rune_cut :: "string \<Rightarrow> nat \<Rightarrow> nat" where
  "rune_cut s 0 = 0"
| "rune_cut s (Suc n) = (if continuation_byte (s ! Suc n) then rune_cut s n else Suc n)"

definition capSnippet :: "string \<Rightarrow> string" where
  "capSnippet s = (if length s \<le> maxSnippetBytes then s else take (rune_cut s maxSnippetBytes) s)"

definition nodeSnippet :: "Node \<Rightarrow> string option" where
  "nodeSnippet n = map_option capSnippet (n_RawContent n)"

definition confidenceText :: "Confidence \<Rightarrow> string" where
  "confidenceText c =
     (if c = Definite then ''definite'' else if c = Strong then ''strong''
      else if c = Probable then ''probable'' else ''unresolved'')"

definition edgeSrcLine :: "Edge \<Rightarrow> int option" where
  "edgeSrcLine e = e_SourceLine e"

definition ucSrcLine :: "UnresolvedCall \<Rightarrow> int option" where
  "ucSrcLine uc = (if uc_SrcLine uc \<le> 0 then None else Some (uc_SrcLine uc))"

definition ucEdgeKind :: "UnresolvedCall \<Rightarrow> EdgeKind" where
  "ucEdgeKind uc = (if uc_EdgeKind uc = [] then EdgeCalls else uc_EdgeKind uc)"

definition stubSymbolKey :: "UnresolvedCall \<Rightarrow> EdgeKind \<Rightarrow> string" where
  "stubSymbolKey uc kind =
     (let key = (if uc_IsMethodCall uc then ''@method:'' @ uc_CalleeName uc else uc_CalleeName uc)
      in if kind \<noteq> EdgeCalls then ''@'' @ kind @ '':'' @ key else key)"

definition stubID :: "string \<Rightarrow> string \<Rightarrow> string \<Rightarrow> string" where
  "stubID srcNodeID modulePath symbol = sha256_hex (nul_join3 srcNodeID modulePath symbol)"

section \<open>Packages and symbols\<close>

definition moduleRelDir :: "string \<Rightarrow> string \<Rightarrow> string" where
  "moduleRelDir path root =
     (let p = (if root \<noteq> [] then (case CutPrefix path (root @ [slash]) of Some rest \<Rightarrow> rest | None \<Rightarrow> path)
               else path);
          dir = path_Dir p
      in if dir = ''.'' \<or> dir = [slash] then [] else dir)"

definition modulePackageDir :: "string \<Rightarrow> string \<Rightarrow> string option" where
  "modulePackageDir modulePath importPath =
     (if modulePath = [] then None
      else if importPath = modulePath then Some []
      else CutPrefix importPath (modulePath @ [slash]))"

definition isExternalModulePath :: "string \<Rightarrow> bool" where
  "isExternalModulePath importPath \<longleftrightarrow> CHR ''.'' \<in> set (cut_before slash importPath)"

text \<open>
  The two symbol maps of a batch: per package directory, the name of a node to its identity; a
  later node of the same name overwrites. A missing bucket reads as the empty one.
\<close>

definition put_names :: "Node option list \<Rightarrow> (string, string) gomap \<Rightarrow> (string, string) gomap" where
  "put_names ns bucket = foldl (\<lambda>m n. gm_put (n_Name n) (n_ID n) m) bucket (somes ns)"

definition symbol_map :: "(string \<Rightarrow> string) \<Rightarrow> PromotionBatch \<Rightarrow> string \<Rightarrow> (string, string) gomap" where
  "symbol_map dirOf batch dir =
     foldl (\<lambda>m f. if dirOf (pmf_Path f) = dir then put_names (pmf_Nodes f) m else m) [] (pb_Files batch)"

definition buildPackageSymbolMap :: "PromotionBatch \<Rightarrow> string \<Rightarrow> (string, string) gomap" where
  "buildPackageSymbolMap batch = symbol_map path_Dir batch"

definition buildModuleRelSymbolMap :: "PromotionBatch \<Rightarrow> string \<Rightarrow> string \<Rightarrow> (string, string) gomap" where
  "buildModuleRelSymbolMap batch root = symbol_map (\<lambda>p. moduleRelDir p root) batch"

definition findInBatchMethod :: "(string \<Rightarrow> (string, string) gomap) \<Rightarrow> string \<Rightarrow> string \<Rightarrow> string option" where
  "findInBatchMethod byPkgDir relDir methodName =
     (case filter (\<lambda>(name, x). HasSuffix name (CHR ''.'' # methodName)) (byPkgDir relDir) of
        [(name, x)] \<Rightarrow> Some x
      | _ \<Rightarrow> None)"

section \<open>Lookups in the tables\<close>

record promotedScope =
  sc_repoID :: string
  sc_branch :: string
  sc_root :: string
  sc_relDir :: string

definition in_scope_row :: "promotedScope \<Rightarrow> (string \<times> string) \<times> node_rec \<Rightarrow> bool" where
  "in_scope_row scope kr \<longleftrightarrow> nd_repo_id (snd kr) = sc_repoID scope \<and> snd (fst kr) = sc_branch scope"

definition lookupPromotedMethodInDir :: "graph_tables \<Rightarrow> promotedScope \<Rightarrow> string \<Rightarrow> string option" where
  "lookupPromotedMethodInDir db scope methodName =
     (let rows = filter (\<lambda>kr. in_scope_row scope kr \<and> nd_kind (snd kr) = ''method''
                          \<and> sql_like (''%.'' @ methodName) (nd_symbol_path (snd kr))) (gb_nodes db);
          hits = filter (\<lambda>kr. moduleRelDir (nd_file_path (snd kr)) (sc_root scope) = sc_relDir scope) rows;
          tests = filter (\<lambda>kr. HasSuffix (nd_file_path (snd kr)) ''_test.go'') hits;
          prods = filter (\<lambda>kr. \<not> HasSuffix (nd_file_path (snd kr)) ''_test.go'') hits
      in (case prods of
            [kr] \<Rightarrow> Some (fst (fst kr))
          | [] \<Rightarrow> (case tests of [kr] \<Rightarrow> Some (fst (fst kr)) | _ \<Rightarrow> None)
          | _ \<Rightarrow> None))"

definition lookupPromotedSymbolDir :: "graph_tables \<Rightarrow> promotedScope \<Rightarrow> string \<Rightarrow> string option" where
  "lookupPromotedSymbolDir db scope name =
     (let rows = filter (\<lambda>kr. in_scope_row scope kr \<and> nd_symbol_path (snd kr) = name) (gb_nodes db)
      in map_option (\<lambda>kr. fst (fst kr))
           (find (\<lambda>kr. moduleRelDir (nd_file_path (snd kr)) (sc_root scope) = sc_relDir scope) rows))"

text \<open>
  The import whose registered module has a package node of the given name: exactly one such
  module among the external imports, or none.
\<close>

definition module_of_row :: "graph_tables \<Rightarrow> node_rec \<Rightarrow> string option" where
  "module_of_row db row = (case map_of (gb_repos db) (nd_repo_id row) of None \<Rightarrow> None | Some r \<Rightarrow> rp_module_path r)"

definition findImportByPackageName :: "graph_tables \<Rightarrow> (string, string) gomap \<Rightarrow> string \<Rightarrow> string option" where
  "findImportByPackageName db imports pkgName =
     (let paths = filter isExternalModulePath (map snd imports)
      in if pkgName = [] \<or> imports = [] \<or> paths = [] then None
         else case dedup (somes (map (\<lambda>kr. if nd_kind (snd kr) = ''package'' \<and> nd_symbol_path (snd kr) = pkgName
                                          then (case module_of_row db (snd kr) of
                                                  Some m \<Rightarrow> if m \<in> set paths then Some m else None
                                                | None \<Rightarrow> None)
                                          else None) (gb_nodes db))) of
                [m] \<Rightarrow> Some m
              | _ \<Rightarrow> None)"

section \<open>The store and its transaction\<close>

datatype PromotionSink = embedRefSink | ftsSink

record PromotionStore =
  st_sinks :: "PromotionSink list"
  st_reviewEnabled :: bool
  st_summaryEnabled :: bool
  st_workKinds :: "string list"
  st_vectorPruner :: bool

type_synonym PromotionStoreOption = "PromotionStore \<Rightarrow> PromotionStore"

definition WithReviewEnabled :: "bool \<Rightarrow> PromotionStoreOption" where
  "WithReviewEnabled enabled s = s\<lparr>st_reviewEnabled := enabled\<rparr>"

definition WithSummaryEnabled :: "bool \<Rightarrow> PromotionStoreOption" where
  "WithSummaryEnabled enabled s = s\<lparr>st_summaryEnabled := enabled\<rparr>"

text \<open>The pruner is a callback whose error is only logged: the model keeps whether one is set.\<close>

definition WithVectorPruner :: "bool \<Rightarrow> PromotionStoreOption" where
  "WithVectorPruner fn s = s\<lparr>st_vectorPruner := fn\<rparr>"

definition NewPromotionStore :: "PromotionSink list \<Rightarrow> PromotionStoreOption list \<Rightarrow> PromotionStore" where
  "NewPromotionStore sinks opts =
     (let s = foldl (\<lambda>s opt. opt s)
                \<lparr>st_sinks = sinks, st_reviewEnabled = False, st_summaryEnabled = False, st_workKinds = [],
                 st_vectorPruner = False\<rparr> opts
      in s\<lparr>st_workKinds := PromotionWorkKinds (st_reviewEnabled s) (st_summaryEnabled s)\<rparr>)"

record promotion =
  pn_s :: PromotionStore
  pn_batch :: PromotionBatch
  pn_rootPath :: string
  pn_modulePath :: string
  pn_stmts :: nat
  pn_tx :: graph_tables
  pn_deletedNodeIDs :: "string list"
  pn_droppedDups :: nat

type_synonym faults = "nat \<Rightarrow> err option"

text \<open>Running a statement, and a query, inside the transaction.\<close>

definition exec :: "faults \<Rightarrow> (err \<Rightarrow> err) \<Rightarrow> (graph_tables \<Rightarrow> graph_tables result) \<Rightarrow> promotion \<Rightarrow> promotion result" where
  "exec fault wrap f p =
     (case fault (pn_stmts p) of
        Some e \<Rightarrow> Inl (wrap e)
      | None \<Rightarrow> (case f (pn_tx p) of Inl e \<Rightarrow> Inl (wrap e)
                | Inr db \<Rightarrow> Inr (p\<lparr>pn_stmts := Suc (pn_stmts p), pn_tx := db\<rparr>)))"

definition query :: "faults \<Rightarrow> (err \<Rightarrow> err) \<Rightarrow> (graph_tables \<Rightarrow> 'a) \<Rightarrow> promotion \<Rightarrow> (promotion \<times> 'a) result" where
  "query fault wrap g p =
     (case fault (pn_stmts p) of
        Some e \<Rightarrow> Inl (wrap e)
      | None \<Rightarrow> Inr (p\<lparr>pn_stmts := Suc (pn_stmts p)\<rparr>, g (pn_tx p)))"

definition nil_deref :: err where
  "nil_deref = Errs ''runtime error: invalid memory address or nil pointer dereference''"

abbreviation pn_repoID :: "promotion \<Rightarrow> string" where "pn_repoID p \<equiv> pb_RepoID (pn_batch p)"
abbreviation pn_branch :: "promotion \<Rightarrow> string" where "pn_branch p \<equiv> pb_Branch (pn_batch p)"
abbreviation pn_now :: "promotion \<Rightarrow> int" where "pn_now p \<equiv> pb_PromotedAt (pn_batch p)"

section \<open>Sinks\<close>

definition sink_BeforeNodeDelete :: "faults \<Rightarrow> string \<Rightarrow> PromotionSink \<Rightarrow> promotion \<Rightarrow> promotion result" where
  "sink_BeforeNodeDelete fault filePath sink p =
     (let wrap = (\<lambda>e. Wrap ''promoter: sink before-delete for %q: %w'' [filePath] e);
          ids = (\<lambda>db. file_node_ids filePath (pn_branch p) (pn_repoID p) db)
      in case sink of
           embedRefSink \<Rightarrow> Inr p
         | ftsSink \<Rightarrow>
             bind_r (exec fault wrap (\<lambda>db. Inr (db\<lparr>gb_fts_words := drop_fts (pn_branch p) (pn_repoID p) (ids db) (gb_fts_words db)\<rparr>)) p)
               (exec fault wrap (\<lambda>db. Inr (db\<lparr>gb_fts_trigrams := drop_fts (pn_branch p) (pn_repoID p) (ids db) (gb_fts_trigrams db)\<rparr>))))"

definition sink_AfterNodeInsert :: "faults \<Rightarrow> string \<Rightarrow> PromotionSink \<Rightarrow> promotion \<Rightarrow> promotion result" where
  "sink_AfterNodeInsert fault nodeID sink p =
     (case sink of
        embedRefSink \<Rightarrow>
          exec fault (\<lambda>e. Wrap ''promoter: sink after-insert for %q: %w'' [nodeID] e)
            (\<lambda>db. Inr (upsert_embed_ref nodeID (pn_now p) db)) p
      | ftsSink \<Rightarrow> Inr p)"

definition sink_Prepare :: "faults \<Rightarrow> PromotionSink \<Rightarrow> promotion \<Rightarrow> promotion result" where
  "sink_Prepare fault sink p =
     (case sink of
        embedRefSink \<Rightarrow> exec fault (\<lambda>e. Wrap ''promoter: prepare sink: %w'' [] e) Inr p
      | ftsSink \<Rightarrow> Inr p)"

section \<open>Phase one: the nodes of each file\<close>

definition capturePrevSignatures ::
  "faults \<Rightarrow> string \<Rightarrow> promotion \<Rightarrow> (promotion \<times> (string, string option) gomap) result" where
  "capturePrevSignatures fault filePath p =
     query fault (\<lambda>e. Wrap ''promoter: select prev signatures for %q: %w'' [filePath] e)
       (\<lambda>db. map (\<lambda>(k, row). (fst k, nd_signature row))
               (filter (\<lambda>(k, row). in_file filePath (pn_branch p) (pn_repoID p) k row) (gb_nodes db))) p"

text \<open>The symbols a re-promotion drops, recorded for the vector pruner.\<close>

definition record_deleted :: "PromotionFile \<Rightarrow> (string, string option) gomap \<Rightarrow> promotion \<Rightarrow> promotion result" where
  "record_deleted file prevSig p =
     (if st_vectorPruner (pn_s p) \<and> prevSig \<noteq> []
      then if None \<in> set (pmf_Nodes file) then Inl nil_deref
           else Inr (p\<lparr>pn_deletedNodeIDs := pn_deletedNodeIDs p
                       @ filter (\<lambda>x. x \<notin> n_ID ` set (somes (pmf_Nodes file))) (map fst prevSig)\<rparr>)
      else Inr p)"

definition insert_import ::
  "faults \<Rightarrow> string \<Rightarrow> string \<times> string \<Rightarrow> promotion \<Rightarrow> promotion result" where
  "insert_import fault filePath entry p =
     (case entry of (alias, importPath) \<Rightarrow>
        if importPath = [] \<or> \<not> isExternalModulePath importPath \<or> modulePackageDir (pn_modulePath p) importPath \<noteq> None
        then Inr p
        else exec fault (\<lambda>e. Wrap ''promoter: insert file_imports for %q (%s): %w'' [filePath, importPath] e)
               (insert_import_row (pn_repoID p, pn_branch p, filePath, importPath)
                  \<lparr>im_alias = alias, im_language = ''go'', im_last_promoted_at = pn_now p\<rparr>) p)"

definition syncFileImports :: "faults \<Rightarrow> PromotionFile \<Rightarrow> promotion \<Rightarrow> promotion result" where
  "syncFileImports fault file p =
     bind_r (exec fault (\<lambda>e. Wrap ''promoter: delete file_imports for %q: %w'' [pmf_Path file] e)
               (\<lambda>db. Inr (delete_file_imports (pn_repoID p) (pn_branch p) (pmf_Path file) db)) p)
       (for_r (insert_import fault (pmf_Path file)) (pmf_Imports file))"

definition node_columns :: "PromotionBatch \<Rightarrow> (string, string option) gomap \<Rightarrow> Node \<Rightarrow> node_rec" where
  "node_columns batch prevSig n =
     \<lparr>nd_repo_id = pb_RepoID batch, nd_language = nodeLanguage n, nd_kind = n_Kind n, nd_symbol_path = n_Name n,
      nd_file_path = n_Path n, nd_line_start = fst (nodeLines n), nd_line_end = snd (nodeLines n),
      nd_content_hash = nodeContentHash n, nd_structural_hash = nodeStructuralHash n,
      nd_last_promoted_at = pb_PromotedAt batch, nd_actor_id = a_ID (pb_Actor batch),
      nd_actor_kind = a_Kind (pb_Actor batch), nd_signature = nodeSignature n,
      nd_snippet = nodeSnippet n,
      nd_prev_signature = (case map_of prevSig (n_ID n) of Some (Some s) \<Rightarrow> Some s | _ \<Rightarrow> None),
      nd_exported = nodeExported n\<rparr>"

text \<open>The text of the error leaves out the line range, the last value of its message.\<close>

definition insertNode ::
  "faults \<Rightarrow> (string, string option) gomap \<Rightarrow> Node option \<Rightarrow> promotion \<Rightarrow> promotion result" where
  "insertNode fault prevSig no p =
     (case no of
        None \<Rightarrow> Inl nil_deref
      | Some n \<Rightarrow>
          bind_r (exec fault (\<lambda>e. Wrap ''promoter: insert node %q (kind=%s name=%q path=%q): %w''
                                    [n_ID n, n_Kind n, n_Name n, n_Path n] e)
                    (insert_node_row (n_ID n, pn_branch p) (node_columns (pn_batch p) prevSig n)) p)
            (\<lambda>p1. if has_node (pn_tx p) (n_ID n, pn_branch p)
                  then Inr (p1\<lparr>pn_droppedDups := Suc (pn_droppedDups p1)\<rparr>)
                  else for_r (sink_AfterNodeInsert fault (n_ID n)) (st_sinks (pn_s p1)) p1))"

definition insertFileNodes ::
  "faults \<Rightarrow> PromotionFile \<Rightarrow> (string, string option) gomap \<Rightarrow> promotion \<Rightarrow> promotion result" where
  "insertFileNodes fault file prevSig = for_r (insertNode fault prevSig) (pmf_Nodes file)"

definition enqueueFileWork :: "faults \<Rightarrow> string \<Rightarrow> promotion \<Rightarrow> promotion result" where
  "enqueueFileWork fault filePath p =
     for_r (\<lambda>wk q. exec fault (\<lambda>e. Wrap ''promoter: enqueue %q for %q: %w'' [wk, filePath] e)
              (\<lambda>db. Inr (enqueue_row (pb_GitSHA (pn_batch q)) (pn_repoID q) (pn_branch q) wk filePath (pn_now q) db)) q)
       (st_workKinds (pn_s p)) p"

definition promoteFile :: "faults \<Rightarrow> PromotionFile \<Rightarrow> promotion \<Rightarrow> promotion result" where
  "promoteFile fault file p =
     bind_r (capturePrevSignatures fault (pmf_Path file) p) (\<lambda>(p1, prevSig).
     bind_r (record_deleted file prevSig p1) (\<lambda>p2.
     bind_r (for_r (sink_BeforeNodeDelete fault (pmf_Path file)) (st_sinks (pn_s p2)) p2) (\<lambda>p3.
     bind_r (exec fault (\<lambda>e. Wrap ''promoter: delete nodes for %q: %w'' [pmf_Path file] e)
               (\<lambda>db. Inr (delete_file_nodes (pmf_Path file) (pn_branch p3) (pn_repoID p3) db)) p3) (\<lambda>p4.
     bind_r (syncFileImports fault file p4) (\<lambda>p5.
     bind_r (insertFileNodes fault file prevSig p5) (\<lambda>p6.
     enqueueFileWork fault (pmf_Path file) p6))))))"

definition promoteFiles :: "faults \<Rightarrow> promotion \<Rightarrow> promotion result" where
  "promoteFiles fault p = for_r (promoteFile fault) (pb_Files (pn_batch p)) p"

definition enqueueWiki :: "faults \<Rightarrow> promotion \<Rightarrow> promotion result" where
  "enqueueWiki fault p =
     exec fault (\<lambda>e. Wrap ''promoter: enqueue wiki: %w'' [] e)
       (\<lambda>db. Inr (enqueue_row (pb_GitSHA (pn_batch p)) (pn_repoID p) (pn_branch p) WorkKindWiki [] (pn_now p) db)) p"

section \<open>Phase two: edges\<close>

definition edge_columns :: "promotion \<Rightarrow> Edge \<Rightarrow> edge_rec" where
  "edge_columns p e =
     \<lparr>er_edge_id = e_ID e, er_repo_id = pn_repoID p, er_branch = pn_branch p, er_kind = e_Kind e,
      er_src_node_id = e_Src e, er_dst_node_id = e_Tgt e, ex_confidence = confidenceText (e_Confidence e),
      ex_last_promoted_at = pn_now p, ex_src_line = edgeSrcLine e, ex_score = None\<rparr>"

definition insertEdge :: "faults \<Rightarrow> string \<Rightarrow> Edge \<Rightarrow> promotion \<Rightarrow> promotion result" where
  "insertEdge fault label e p =
     exec fault (\<lambda>err. Wrap label [e_ID e] err) (insert_edge_row (e_ID e, pn_branch p) (edge_columns p e)) p"

definition insertParserEdges :: "faults \<Rightarrow> promotion \<Rightarrow> promotion result" where
  "insertParserEdges fault p =
     for_r (\<lambda>file. for_r (insertEdge fault ''promoter: insert edge %q: %w'') (somes (pmf_Edges file)))
       (pb_Files (pn_batch p)) p"

definition buildCallEdge :: "UnresolvedCall \<Rightarrow> NodeID \<Rightarrow> Edge option" where
  "buildCallEdge uc targetID =
     (case NewEdge \<lparr>es_Src = uc_CallerID uc, es_Tgt = targetID, es_Kind = ucEdgeKind uc\<rparr>
             (WithConfidence Probable # (if uc_SrcLine uc > 0 then [WithSourceLine (uc_SrcLine uc)] else [])) of
        Inl _ \<Rightarrow> None
      | Inr e \<Rightarrow> Some e)"

text \<open>Binding a call to its target: no target, a self-call or a refused edge writes nothing.\<close>

definition bind_call :: "faults \<Rightarrow> string \<Rightarrow> UnresolvedCall \<Rightarrow> string option \<Rightarrow> promotion \<Rightarrow> promotion result" where
  "bind_call fault label uc target p =
     (case target of
        None \<Rightarrow> Inr p
      | Some targetID \<Rightarrow>
          if uc_CallerID uc = targetID then Inr p
          else case buildCallEdge uc targetID of None \<Rightarrow> Inr p | Some e \<Rightarrow> insertEdge fault label e p)"

definition lookupIntraPackageTarget ::
  "faults \<Rightarrow> (string, string) gomap \<Rightarrow> PromotionFile \<Rightarrow> UnresolvedCall \<Rightarrow> promotion \<Rightarrow> (promotion \<times> string option) result" where
  "lookupIntraPackageTarget fault names file uc p =
     (case map_of names (uc_CalleeName uc) of
        Some tid \<Rightarrow> Inr (p, Some tid)
      | None \<Rightarrow>
          if uc_IsMethodCall uc then Inr (p, None)
          else query fault (\<lambda>e. Wrap ''promoter: intra-package lookup %q: %w'' [uc_CalleeName uc] e)
                 (\<lambda>db. lookupPromotedSymbolDir db
                    \<lparr>sc_repoID = pn_repoID p, sc_branch = pn_branch p, sc_root = pn_rootPath p,
                     sc_relDir = moduleRelDir (pmf_Path file) (pn_rootPath p)\<rparr> (uc_CalleeName uc)) p)"

definition resolve_intra_call :: "faults \<Rightarrow> PromotionFile \<Rightarrow> UnresolvedCall \<Rightarrow> promotion \<Rightarrow> promotion result" where
  "resolve_intra_call fault file uc p =
     (if uc_PkgQualifier uc \<noteq> [] then Inr p
      else bind_r (lookupIntraPackageTarget fault (buildPackageSymbolMap (pn_batch p) (path_Dir (pmf_Path file))) file uc p)
             (\<lambda>(p1, target). bind_call fault ''promoter: insert cross-file edge %q: %w'' uc target p1))"

definition resolveIntraPackageCalls :: "faults \<Rightarrow> promotion \<Rightarrow> promotion result" where
  "resolveIntraPackageCalls fault p =
     for_r (\<lambda>file. for_r (resolve_intra_call fault file) (pmf_UnresolvedCalls file)) (pb_Files (pn_batch p)) p"

definition emitCrossRepoStub :: "faults \<Rightarrow> UnresolvedCall \<Rightarrow> string \<Rightarrow> promotion \<Rightarrow> promotion result" where
  "emitCrossRepoStub fault uc importPath p =
     (if \<not> isExternalModulePath importPath then Inr p
      else let kind = ucEdgeKind uc;
               sid = stubID (uc_CallerID uc) importPath (stubSymbolKey uc kind)
           in exec fault (\<lambda>e. Wrap ''promoter: insert cross-repo stub %q: %w'' [sid] e)
                (insert_stub_row (sid, pn_branch p)
                   \<lparr>sb_repo_id = pn_repoID p, sb_src_node_id = uc_CallerID uc, sb_kind = kind,
                    sb_module_path = importPath, sb_symbol_path = uc_CalleeName uc, sb_language = ''go'',
                    sb_last_promoted_at = pn_now p, sb_method_call = (if uc_IsMethodCall uc then 1 else 0),
                    sb_src_line = ucSrcLine uc\<rparr>) p)"

definition lookupInModuleTarget ::
  "faults \<Rightarrow> string \<Rightarrow> UnresolvedCall \<Rightarrow> promotion \<Rightarrow> (promotion \<times> string option) result" where
  "lookupInModuleTarget fault relDir uc p =
     (let byPkgDir = buildModuleRelSymbolMap (pn_batch p) (pn_rootPath p);
          scope = \<lparr>sc_repoID = pn_repoID p, sc_branch = pn_branch p, sc_root = pn_rootPath p, sc_relDir = relDir\<rparr>
      in if uc_IsMethodCall uc
         then (case findInBatchMethod byPkgDir relDir (uc_CalleeName uc) of
                 Some tid \<Rightarrow> Inr (p, Some tid)
               | None \<Rightarrow> query fault (\<lambda>e. Wrap ''promoter: method-call lookup %q: %w'' [uc_CalleeName uc] e)
                           (\<lambda>db. lookupPromotedMethodInDir db scope (uc_CalleeName uc)) p)
         else (case map_of (byPkgDir relDir) (uc_CalleeName uc) of
                 Some tid \<Rightarrow> Inr (p, Some tid)
               | None \<Rightarrow> query fault (\<lambda>e. Wrap ''promoter: cross-package lookup %q: %w'' [uc_CalleeName uc] e)
                           (\<lambda>db. lookupPromotedSymbolDir db scope (uc_CalleeName uc)) p))"

definition resolveInModuleCall :: "faults \<Rightarrow> UnresolvedCall \<Rightarrow> string \<Rightarrow> promotion \<Rightarrow> promotion result" where
  "resolveInModuleCall fault uc relDir p =
     bind_r (lookupInModuleTarget fault relDir uc p)
       (\<lambda>(p1, target). bind_call fault ''promoter: insert cross-package edge %q: %w'' uc target p1)"

text \<open>The import a qualifier stands for: its alias, or the package name of a registered module.\<close>

definition qualifier_import ::
  "faults \<Rightarrow> PromotionFile \<Rightarrow> UnresolvedCall \<Rightarrow> promotion \<Rightarrow> (promotion \<times> string option) result" where
  "qualifier_import fault file uc p =
     (case map_of (pmf_Imports file) (uc_PkgQualifier uc) of
        Some ip \<Rightarrow> Inr (p, Some ip)
      | None \<Rightarrow>
          if filter isExternalModulePath (map snd (pmf_Imports file)) = [] then Inr (p, None)
          else query fault (\<lambda>e. Wrap ''promoter: cross-repo pkg-name lookup %q: %w'' [uc_PkgQualifier uc] e)
                 (\<lambda>db. findImportByPackageName db (pmf_Imports file) (uc_PkgQualifier uc)) p)"

definition resolveQualifiedCall :: "faults \<Rightarrow> PromotionFile \<Rightarrow> UnresolvedCall \<Rightarrow> promotion \<Rightarrow> promotion result" where
  "resolveQualifiedCall fault file uc p =
     bind_r (qualifier_import fault file uc p) (\<lambda>(p1, ip).
       case ip of
         None \<Rightarrow> Inr p1
       | Some importPath \<Rightarrow>
           (case modulePackageDir (pn_modulePath p1) importPath of
              None \<Rightarrow> emitCrossRepoStub fault uc importPath p1
            | Some relDir \<Rightarrow> resolveInModuleCall fault uc relDir p1))"

definition resolve_cross_call :: "faults \<Rightarrow> PromotionFile \<Rightarrow> UnresolvedCall \<Rightarrow> promotion \<Rightarrow> promotion result" where
  "resolve_cross_call fault file uc p =
     (if uc_PkgQualifier uc = [] then Inr p else resolveQualifiedCall fault file uc p)"

definition resolveCrossPackageCalls :: "faults \<Rightarrow> promotion \<Rightarrow> promotion result" where
  "resolveCrossPackageCalls fault p =
     (if pn_modulePath p = [] then Inr p
      else bind_r (exec fault (\<lambda>e. Wrap ''promoter: prepare %s: %w'' [''stub insert''] e) Inr p)
        (for_r (\<lambda>file q. if pmf_Imports file = [] then Inr q
                         else for_r (resolve_cross_call fault file) (pmf_UnresolvedCalls file) q)
           (pb_Files (pn_batch p))))"

section \<open>The whole promotion\<close>

definition advanceRepoSHA :: "faults \<Rightarrow> promotion \<Rightarrow> promotion result" where
  "advanceRepoSHA fault p =
     (if pb_GitSHA (pn_batch p) = [] then Inr p
      else exec fault (\<lambda>e. Wrap ''promoter: advance last_promoted_sha: %w'' [] e)
        (\<lambda>db. Inr (db\<lparr>gb_repos := gm_update_where (\<lambda>k r. k = pn_repoID p)
                        (\<lambda>r. if pn_branch p \<noteq> [] then r\<lparr>rp_last_promoted_sha := Some (pb_GitSHA (pn_batch p)),
                                                      rp_active_branch := Some (pn_branch p)\<rparr>
                             else r\<lparr>rp_last_promoted_sha := Some (pb_GitSHA (pn_batch p))\<rparr>) (gb_repos db)\<rparr>)) p)"

definition stmt_labels :: "string list" where
  "stmt_labels = [''delete'', ''insert'', ''prev-sig select'', ''queue insert'', ''file_imports delete'',
                  ''file_imports insert'', ''edge insert'']"

definition prepareStmts :: "faults \<Rightarrow> promotion \<Rightarrow> promotion result" where
  "prepareStmts fault p =
     for_r (\<lambda>label. exec fault (\<lambda>e. Wrap ''promoter: prepare %s: %w'' [label] e) Inr) stmt_labels p"

text \<open>The lookup of the repository and the begin of the transaction are statements 0 and 1.\<close>

definition newPromotion :: "faults \<Rightarrow> PromotionStore \<Rightarrow> graph_tables \<Rightarrow> PromotionBatch \<Rightarrow> string \<Rightarrow> string \<Rightarrow> promotion result" where
  "newPromotion fault s db batch root modl =
     bind_r (prepareStmts fault
               \<lparr>pn_s = s, pn_batch = batch, pn_rootPath = root, pn_modulePath = modl, pn_stmts = 2, pn_tx = db,
                pn_deletedNodeIDs = [], pn_droppedDups = 0\<rparr>)
       (for_r (sink_Prepare fault) (st_sinks s))"

definition lookupRepo :: "faults \<Rightarrow> graph_tables \<Rightarrow> string \<Rightarrow> (string \<times> string) result" where
  "lookupRepo fault db repoID =
     (case fault 0 of
        Some e \<Rightarrow> Inl (Wrap ''promoter: check repo registration: %w'' [] e)
      | None \<Rightarrow>
          (case map_of (gb_repos db) repoID of
             None \<Rightarrow> Inl (ErrUnregisteredRepo repoID)
           | Some r \<Rightarrow> Inr (case rp_root_path r of None \<Rightarrow> [] | Some x \<Rightarrow> x, case rp_module_path r of None \<Rightarrow> [] | Some x \<Rightarrow> x)))"

definition phases :: "faults \<Rightarrow> (promotion \<Rightarrow> promotion result) list" where
  "phases fault = [promoteFiles fault, enqueueWiki fault, insertParserEdges fault, resolveIntraPackageCalls fault,
                   resolveCrossPackageCalls fault, advanceRepoSHA fault]"

text \<open>
  The result: the tables, the error, and the identities handed to the vector pruner. Whatever
  fails between begin and commit rolls the transaction back.
\<close>

definition PromotionStore_Promote ::
  "faults \<Rightarrow> PromotionStore \<Rightarrow> graph_tables \<Rightarrow> PromotionBatch \<Rightarrow> graph_tables \<times> err option \<times> string list" where
  "PromotionStore_Promote fault s db batch =
     (case lookupRepo fault db (pb_RepoID batch) of
        Inl e \<Rightarrow> (db, Some e, [])
      | Inr (root, modl) \<Rightarrow>
          if pb_Files batch = [] then (db, None, [])
          else case fault 1 of
            Some e \<Rightarrow> (db, Some (Wrap ''promoter: begin tx: %w'' [] e), [])
          | None \<Rightarrow>
              (case bind_r (newPromotion fault s db batch root modl) (apply_opts (phases fault)) of
                 Inl e \<Rightarrow> (db, Some e, [])
               | Inr p \<Rightarrow>
                   (case fault (pn_stmts p) of
                      Some e \<Rightarrow> (db, Some (Wrap ''promoter: commit: %w'' [] e), [])
                    | None \<Rightarrow> (pn_tx p, None, if st_vectorPruner s then pn_deletedNodeIDs p else []))))"

end
