(* ===== verification/Promotion_Integrity.thy ===== *)
theory Promotion_Integrity
  imports Promotion_Store
begin

text \<open>
  What every statement of a promotion keeps, the whole promotion keeps, on every path through its
  phases and whatever statement fails. The contract is a locale over a property of the tables;
  it is interpreted for referential integrity and for the rows of other scopes.
\<close>

section \<open>What every statement keeps\<close>

lemma exec_Inr:
  "exec fault wrap f p = Inr p' \<longleftrightarrow>
     fault (pn_stmts p) = None \<and> (\<exists>db. f (pn_tx p) = Inr db \<and> p' = p\<lparr>pn_stmts := Suc (pn_stmts p), pn_tx := db\<rparr>)"
  by (auto simp: exec_def split: option.splits sum.splits)

lemma query_Inr:
  "query fault wrap g p = Inr (p', x) \<longleftrightarrow>
     fault (pn_stmts p) = None \<and> p' = p\<lparr>pn_stmts := Suc (pn_stmts p)\<rparr> \<and> x = g (pn_tx p)"
  by (auto simp: query_def split: option.splits)

text \<open>A property of the tables, held by a promotion of a given batch and store.\<close>

definition held :: "PromotionBatch \<Rightarrow> PromotionStore \<Rightarrow> (graph_tables \<Rightarrow> bool) \<Rightarrow> promotion \<Rightarrow> bool" where
  "held b s P p \<longleftrightarrow> pn_batch p = b \<and> pn_s p = s \<and> P (pn_tx p)"

lemma heldD:
  assumes "held b s P p"
  shows "pn_batch p = b" "pn_s p = s" "P (pn_tx p)"
  using assms by (simp_all add: held_def)

lemma held_exec:
  assumes "held b s P p" and "exec fault wrap f p = Inr p'" and "\<And>db. f (pn_tx p) = Inr db \<Longrightarrow> P db"
  shows "held b s P p'"
  using assms by (auto simp: held_def exec_Inr)

lemma held_query: "held b s P p \<Longrightarrow> query fault wrap g p = Inr (p', x) \<Longrightarrow> held b s P p'"
  by (auto simp: held_def query_Inr)

lemma Promote_cases:
  obtains e ids where "PromotionStore_Promote fault s db b = (db, e, ids)" "e \<noteq> None \<or> pb_Files b = []"
  | root modl p p' ids where "lookupRepo fault db (pb_RepoID b) = Inr (root, modl)"
      "newPromotion fault s db b root modl = Inr p" "apply_opts (phases fault) p = Inr p'"
      "fault (pn_stmts p') = None" "pb_Files b \<noteq> []" "ids = (if st_vectorPruner s then pn_deletedNodeIDs p' else [])"
      "PromotionStore_Promote fault s db b = (pn_tx p', None, ids)"
proof (cases "lookupRepo fault db (pb_RepoID b)")
  case (Inr rm)
  obtain root modl where rm: "rm = (root, modl)" by force
  show ?thesis
  proof (cases "bind_r (newPromotion fault s db b root modl) (apply_opts (phases fault))")
    case (Inl e)
    then show ?thesis using that(1) Inr rm
      by (cases "pb_Files b = []"; cases "fault 1") (simp_all add: PromotionStore_Promote_def del: One_nat_def)
  next
    case (Inr p')
    then obtain p where p: "newPromotion fault s db b root modl = Inr p" "apply_opts (phases fault) p = Inr p'"
      by (auto simp: bind_r_Inr)
    show ?thesis
    proof (cases "pb_Files b = [] \<or> fault 1 \<noteq> None \<or> fault (pn_stmts p') \<noteq> None")
      case True
      then show ?thesis using that(1) Inr \<open>lookupRepo fault db (pb_RepoID b) = Inr rm\<close> rm
        by (cases "pb_Files b = []"; cases "fault 1"; cases "fault (pn_stmts p')")
          (simp_all add: PromotionStore_Promote_def del: One_nat_def)
    next
      case False
      then show ?thesis using that(2) [OF _ p] Inr \<open>lookupRepo fault db (pb_RepoID b) = Inr rm\<close> rm
        by (simp add: PromotionStore_Promote_def del: One_nat_def)
    qed
  qed
qed (use that(1) in \<open>simp add: PromotionStore_Promote_def\<close>)

lemma held_prepare: "held b s P p \<Longrightarrow> sink_Prepare fault sink p = Inr p' \<Longrightarrow> held b s P p'"
  by (cases sink) (auto simp: sink_Prepare_def held_def exec_Inr)

lemma newPromotion_start:
  assumes "newPromotion fault s db b root modl = Inr p"
  shows "pn_batch p = b" "pn_s p = s" "pn_tx p = db"
proof -
  let ?p0 = "\<lparr>pn_s = s, pn_batch = b, pn_rootPath = root, pn_modulePath = modl, pn_stmts = 2, pn_tx = db,
              pn_deletedNodeIDs = [], pn_droppedDups = 0\<rparr>"
  obtain p1 where p1: "prepareStmts fault ?p0 = Inr p1" "for_r (sink_Prepare fault) (st_sinks s) p1 = Inr p"
    using assms by (auto simp: newPromotion_def bind_r_Inr)
  have "held b s (\<lambda>d. d = db) ?p0" by (simp add: held_def)
  then have "held b s (\<lambda>d. d = db) p1"
    by (rule for_r_keeps [OF p1(1) [unfolded prepareStmts_def]]) (auto simp: held_def exec_Inr)
  then have "held b s (\<lambda>d. d = db) p" by (rule for_r_keeps [OF p1(2)]) (rule held_prepare)
  then show "pn_batch p = b" "pn_s p = s" "pn_tx p = db" by (simp_all add: held_def)
qed

lemma phases_first:
  assumes "apply_opts (phases fault) p = Inr p'"
  obtains p1 where "promoteFiles fault p = Inr p1" "apply_opts (tl (phases fault)) p1 = Inr p'"
  using assms by (auto simp: phases_def split: sum.splits)

lemma promoteFile_steps:
  assumes "promoteFile fault file p = Inr p'"
  obtains p1 prevSig p2 p3 p4 p5 p6 where
    "capturePrevSignatures fault (pmf_Path file) p = Inr (p1, prevSig)"
    "record_deleted file prevSig p1 = Inr p2"
    "for_r (sink_BeforeNodeDelete fault (pmf_Path file)) (st_sinks (pn_s p2)) p2 = Inr p3"
    "exec fault (Wrap ''promoter: delete nodes for %q: %w'' [pmf_Path file])
       (\<lambda>db. Inr (delete_file_nodes (pmf_Path file) (pn_branch p3) (pn_repoID p3) db)) p3 = Inr p4"
    "syncFileImports fault file p4 = Inr p5" "insertFileNodes fault file prevSig p5 = Inr p6"
    "enqueueFileWork fault (pmf_Path file) p6 = Inr p'"
  using assms by (auto simp: promoteFile_def bind_r_Inr)

section \<open>What a batch may write into the edges\<close>

text \<open>
  A name that a call refers to. A call through a receiver carries the bare name of the method and
  matches the symbols that end in it; any other call matches the symbol of its name.
\<close>

definition names_callee :: "UnresolvedCall \<Rightarrow> string \<Rightarrow> bool" where
  "names_callee uc name \<longleftrightarrow> name = uc_CalleeName uc
     \<or> uc_IsMethodCall uc \<and> (HasSuffix name (CHR ''.'' # uc_CalleeName uc) \<or> sql_like (''%.'' @ uc_CalleeName uc) name)"

text \<open>
  The targets the resolver may pick for a call: a symbol of the batch, or a promoted symbol of the
  scope, of the name the call refers to.
\<close>

definition batch_nodes :: "PromotionFile list \<Rightarrow> Node list" where
  "batch_nodes fs = concat (map (\<lambda>f. somes (pmf_Nodes f)) fs)"

definition call_target ::
  "PromotionBatch \<Rightarrow> (string \<times> string, node_rec) gomap \<Rightarrow> UnresolvedCall \<Rightarrow> string \<Rightarrow> bool" where
  "call_target b N uc t \<longleftrightarrow>
     (\<exists>n \<in> set (batch_nodes (pb_Files b)). n_ID n = t \<and> names_callee uc (n_Name n))
     \<or> (\<exists>row. ((t, pb_Branch b), row) \<in> set N \<and> nd_repo_id row = pb_RepoID b \<and> names_callee uc (nd_symbol_path row))"

definition batch_edge_row :: "PromotionBatch \<Rightarrow> Edge \<Rightarrow> edge_rec" where
  "batch_edge_row b e =
     \<lparr>er_edge_id = e_ID e, er_repo_id = pb_RepoID b, er_branch = pb_Branch b, er_kind = e_Kind e,
      er_src_node_id = e_Src e, er_dst_node_id = e_Tgt e, ex_confidence = confidenceText (e_Confidence e),
      ex_last_promoted_at = pb_PromotedAt b, ex_src_line = edgeSrcLine e, ex_score = None\<rparr>"

lemma edge_columns_row: "pn_batch p = b \<Longrightarrow> edge_columns p e = batch_edge_row b e"
  by (auto simp: edge_columns_def batch_edge_row_def)

text \<open>
  The row is one the batch writes: an edge a file declares, or a call of a file bound to a target
  that the resolver may pick.
\<close>

definition written_edge ::
  "PromotionBatch \<Rightarrow> (string \<times> string, node_rec) gomap \<Rightarrow> string \<Rightarrow> edge_rec \<Rightarrow> bool" where
  "written_edge b N x er \<longleftrightarrow> (\<exists>f \<in> set (pb_Files b).
     (\<exists>e \<in> set (somes (pmf_Edges f)). x = e_ID e \<and> er = batch_edge_row b e)
     \<or> (\<exists>uc \<in> set (pmf_UnresolvedCalls f). \<exists>t e. call_target b N uc t \<and> uc_CallerID uc \<noteq> t
          \<and> buildCallEdge uc t = Some e \<and> x = e_ID e \<and> er = batch_edge_row b e))"

lemma written_edgeI:
  assumes "f \<in> set (pb_Files b)"
  shows "e \<in> set (somes (pmf_Edges f)) \<Longrightarrow> written_edge b N (e_ID e) (batch_edge_row b e)"
    and "uc \<in> set (pmf_UnresolvedCalls f) \<Longrightarrow> call_target b N uc t \<Longrightarrow> uc_CallerID uc \<noteq> t
      \<Longrightarrow> buildCallEdge uc t = Some e \<Longrightarrow> written_edge b N (e_ID e) (batch_edge_row b e)"
  using assms unfolding written_edge_def by blast+

text \<open>The lookups of the resolver stay within these targets.\<close>

lemma gm_put_subset: "set (gm_put k v m) \<subseteq> insert (k, v) (set m)"
  unfolding gm_put_def by (induction m) auto

lemma put_names_sound:
  "(name, t) \<in> set (put_names ns m) \<Longrightarrow> (name, t) \<in> set m \<or> (\<exists>n \<in> set (somes ns). n_Name n = name \<and> n_ID n = t)"
  unfolding put_names_def
proof (induction ns arbitrary: m)
  case (Cons no ns)
  show ?case
  proof (cases no)
    case (Some n)
    then show ?thesis using Cons.IH [of "gm_put (n_Name n) (n_ID n) m"] Cons.prems gm_put_subset [of "n_Name n" "n_ID n" m] by fastforce
  qed (use Cons in simp)
qed simp

lemma symbol_map_sound:
  assumes "(name, t) \<in> set (symbol_map dirOf b dir)"
  shows "\<exists>n \<in> set (batch_nodes (pb_Files b)). n_Name n = name \<and> n_ID n = t"
proof -
  have "(name, t) \<in> set m \<or> (\<exists>n \<in> set (batch_nodes fs). n_Name n = name \<and> n_ID n = t)"
    if "(name, t) \<in> set (foldl (\<lambda>m f. if dirOf (pmf_Path f) = dir then put_names (pmf_Nodes f) m else m) m fs)" for fs m
    using that
  proof (induction fs arbitrary: m)
    case (Cons f fs)
    show ?case using Cons.IH Cons.prems put_names_sound [of name t "pmf_Nodes f" m]
      by (fastforce simp: batch_nodes_def split: if_splits)
  qed simp
  then show ?thesis using assms unfolding symbol_map_def by fastforce
qed

lemma call_target_batch:
  "(name, t) \<in> set (symbol_map dirOf b dir) \<Longrightarrow> names_callee uc name \<Longrightarrow> call_target b N uc t"
  using symbol_map_sound unfolding call_target_def by blast

lemma findInBatchMethod_sound:
  assumes "findInBatchMethod byPkgDir relDir name = Some t"
  shows "\<exists>sym. (sym, t) \<in> set (byPkgDir relDir) \<and> HasSuffix sym (CHR ''.'' # name)"
proof -
  obtain sym where "filter (\<lambda>(sym, x). HasSuffix sym (CHR ''.'' # name)) (byPkgDir relDir) = [(sym, t)]"
    using assms by (auto simp: findInBatchMethod_def split: list.splits prod.splits)
  then have "(sym, t) \<in> set (filter (\<lambda>(sym, x). HasSuffix sym (CHR ''.'' # name)) (byPkgDir relDir))" by simp
  then show ?thesis by auto
qed

lemma lookupPromotedSymbolDir_sound:
  assumes "lookupPromotedSymbolDir db sc name = Some t"
  shows "\<exists>row. ((t, sc_branch sc), row) \<in> set (gb_nodes db) \<and> nd_repo_id row = sc_repoID sc \<and> nd_symbol_path row = name"
proof -
  obtain kr where kr: "kr \<in> set (gb_nodes db)" "in_scope_row sc kr" "nd_symbol_path (snd kr) = name" "fst (fst kr) = t"
    using assms by (fastforce simp: lookupPromotedSymbolDir_def Let_def dest: find_SomeD)
  then have "kr = ((t, sc_branch sc), snd kr)" by (auto simp: in_scope_row_def prod_eq_iff)
  then show ?thesis using kr by (intro exI [of _ "snd kr"]) (auto simp: in_scope_row_def)
qed

lemma lookupPromotedMethodInDir_sound:
  assumes "lookupPromotedMethodInDir db sc name = Some t"
  shows "\<exists>row. ((t, sc_branch sc), row) \<in> set (gb_nodes db) \<and> nd_repo_id row = sc_repoID sc
    \<and> sql_like (''%.'' @ name) (nd_symbol_path row)"
proof -
  define rows where "rows = filter (\<lambda>kr. moduleRelDir (nd_file_path (snd kr)) (sc_root sc) = sc_relDir sc)
    (filter (\<lambda>kr. in_scope_row sc kr \<and> nd_kind (snd kr) = ''method'' \<and> sql_like (''%.'' @ name) (nd_symbol_path (snd kr))) (gb_nodes db))"
  let ?test = "\<lambda>kr. HasSuffix (nd_file_path (snd kr)) ''_test.go''"
  obtain kr where "filter (\<lambda>kr. \<not> ?test kr) rows = [kr] \<or> filter ?test rows = [kr]" "fst (fst kr) = t"
    using assms unfolding lookupPromotedMethodInDir_def Let_def rows_def [symmetric] by (auto split: list.splits)
  then have "kr \<in> set rows" "fst (fst kr) = t" 
    by (auto dest!: arg_cong [of _ "[kr]" set])
  then have kr: "kr \<in> set (gb_nodes db)" "in_scope_row sc kr" "sql_like (''%.'' @ name) (nd_symbol_path (snd kr))" "fst (fst kr) = t"
    unfolding rows_def by auto
  then have "kr = ((t, sc_branch sc), snd kr)" by (auto simp: in_scope_row_def prod_eq_iff)
  then show ?thesis using kr by (intro exI [of _ "snd kr"]) (auto simp: in_scope_row_def)
qed

lemma intra_target:
  assumes h: "held b s P p" and "lookupIntraPackageTarget fault (buildPackageSymbolMap b dir) file uc p = Inr (p1, Some t)"
  shows "call_target b (gb_nodes (pn_tx p1)) uc t"
proof (cases "map_of (buildPackageSymbolMap b dir) (uc_CalleeName uc)")
  case None
  then have "lookupPromotedSymbolDir (pn_tx p) \<lparr>sc_repoID = pb_RepoID b, sc_branch = pb_Branch b, sc_root = pn_rootPath p,
      sc_relDir = moduleRelDir (pmf_Path file) (pn_rootPath p)\<rparr> (uc_CalleeName uc) = Some t" "pn_tx p1 = pn_tx p"
    using assms heldD [OF h] by (auto simp: lookupIntraPackageTarget_def query_Inr split: if_splits)
  then show ?thesis using lookupPromotedSymbolDir_sound [of "pn_tx p"] by (fastforce simp: call_target_def names_callee_def)
next
  case (Some t')
  then have "(uc_CalleeName uc, t) \<in> set (symbol_map path_Dir b dir)"
    using assms by (auto simp: lookupIntraPackageTarget_def buildPackageSymbolMap_def dest: map_of_SomeD)
  then show ?thesis by (rule call_target_batch) (simp add: names_callee_def)
qed

lemma in_module_target:
  assumes h: "held b s P p" and l: "lookupInModuleTarget fault relDir uc p = Inr (p1, Some t)"
  shows "call_target b (gb_nodes (pn_tx p1)) uc t"
proof -
  let ?names = "buildModuleRelSymbolMap b (pn_rootPath p)"
  let ?sc = "\<lparr>sc_repoID = pb_RepoID b, sc_branch = pb_Branch b, sc_root = pn_rootPath p, sc_relDir = relDir\<rparr>"
  consider sym where "(sym, t) \<in> set (?names relDir)" "names_callee uc sym"
    | "pn_tx p1 = pn_tx p" "lookupPromotedSymbolDir (pn_tx p) ?sc (uc_CalleeName uc) = Some t"
    | "pn_tx p1 = pn_tx p" "lookupPromotedMethodInDir (pn_tx p) ?sc (uc_CalleeName uc) = Some t" "uc_IsMethodCall uc"
  proof (cases "uc_IsMethodCall uc")
    case True
    then show thesis using l heldD [OF h] that(1,3) findInBatchMethod_sound [of ?names relDir "uc_CalleeName uc"]
      by (fastforce simp: lookupInModuleTarget_def Let_def query_Inr names_callee_def split: option.splits)
  next
    case False
    then show thesis using l heldD [OF h] that(1,2)
      by (auto simp: lookupInModuleTarget_def Let_def query_Inr names_callee_def split: option.splits dest: map_of_SomeD)
  qed
  then show ?thesis
  proof cases
    case 1
    then show ?thesis unfolding buildModuleRelSymbolMap_def by (rule call_target_batch)
  next
    case 2
    then show ?thesis using lookupPromotedSymbolDir_sound [OF 2(2)] by (auto simp: call_target_def names_callee_def)
  next
    case 3
    then show ?thesis using lookupPromotedMethodInDir_sound [OF 3(2)] by (auto simp: call_target_def names_callee_def)
  qed
qed

section \<open>The contracts of the phases\<close>

text \<open>
  The contract of the statements around the replacement of a file's nodes: a property of the
  tables that each of them keeps.
\<close>

locale promotion_rows =
  fixes b :: PromotionBatch
    and P :: "graph_tables \<Rightarrow> bool"
  assumes import_row: "P db \<Longrightarrow> insert_import_row (pb_RepoID b, pb_Branch b, path, ip) ir db = Inr db' \<Longrightarrow> P db'"
    and queue: "P db \<Longrightarrow> P (enqueue_row sha (pb_RepoID b) (pb_Branch b) kind payload now db)"
    and delete_imports: "P db \<Longrightarrow> P (delete_file_imports (pb_RepoID b) (pb_Branch b) path db)"
    and embed_ref: "P db \<Longrightarrow> x \<in> n_ID ` set (batch_nodes (pb_Files b)) \<Longrightarrow> P (upsert_embed_ref x now db)"
    and words: "P db \<Longrightarrow> P (db\<lparr>gb_fts_words := drop_fts (pb_Branch b) (pb_RepoID b) ids (gb_fts_words db)\<rparr>)"
    and trigrams: "P db \<Longrightarrow> P (db\<lparr>gb_fts_trigrams := drop_fts (pb_Branch b) (pb_RepoID b) ids (gb_fts_trigrams db)\<rparr>)"
begin

lemma keep_before:
  assumes "held b s P p" and "sink_BeforeNodeDelete fault path sink p = Inr p'"
  shows "held b s P p'"
proof (cases sink)
  case embedRefSink
  then show ?thesis using assms by (simp add: sink_BeforeNodeDelete_def)
next
  case ftsSink
  have b: "pn_batch p = b" using assms(1) by (simp add: held_def)
  obtain p1 where p1: "exec fault (Wrap ''promoter: sink before-delete for %q: %w'' [path])
      (\<lambda>db. Inr (db\<lparr>gb_fts_words := drop_fts (pb_Branch b) (pb_RepoID b) (file_node_ids path (pb_Branch b) (pb_RepoID b) db) (gb_fts_words db)\<rparr>)) p = Inr p1"
    "exec fault (Wrap ''promoter: sink before-delete for %q: %w'' [path])
      (\<lambda>db. Inr (db\<lparr>gb_fts_trigrams := drop_fts (pb_Branch b) (pb_RepoID b) (file_node_ids path (pb_Branch b) (pb_RepoID b) db) (gb_fts_trigrams db)\<rparr>)) p1 = Inr p'"
    using assms(2) ftsSink by (auto simp: sink_BeforeNodeDelete_def bind_r_Inr b Let_def)
  have "held b s P p1" using assms(1) p1(1) by (rule held_exec) (use words [OF heldD(3) [OF assms(1)]] in auto)
  then show ?thesis using p1(2) by (rule held_exec) (use trigrams [OF heldD(3) [OF \<open>held b s P p1\<close>]] in auto)
qed

lemma keep_after:
  assumes "held b s P p" and x: "x \<in> n_ID ` set (batch_nodes (pb_Files b))" and "sink_AfterNodeInsert fault x sink p = Inr p'"
  shows "held b s P p'"
proof (cases sink)
  case embedRefSink
  show ?thesis using assms(1) assms(3) [unfolded embedRefSink sink_AfterNodeInsert_def PromotionSink.case]
    by (rule held_exec) (use embed_ref [OF heldD(3) [OF assms(1)] x] in auto)
qed (use assms in \<open>simp add: sink_AfterNodeInsert_def\<close>)

lemma keep_import:
  assumes "held b s P p" and "insert_import fault path entry p = Inr p'"
  shows "held b s P p'"
proof -
  obtain al ip where e: "entry = (al, ip)" by force
  show ?thesis
  proof (cases "ip = [] \<or> \<not> isExternalModulePath ip \<or> modulePackageDir (pn_modulePath p) ip \<noteq> None")
    case False
    then have "exec fault (Wrap ''promoter: insert file_imports for %q (%s): %w'' [path, ip])
        (insert_import_row ((pb_RepoID b), (pb_Branch b), path, ip)
           \<lparr>im_alias = al, im_language = ''go'', im_last_promoted_at = pn_now p\<rparr>) p = Inr p'"
      using assms by (auto simp: insert_import_def e held_def)
    with assms(1) show ?thesis
      by (rule held_exec) (rule import_row [OF heldD(3) [OF assms(1)]])
  qed (use assms in \<open>simp add: insert_import_def e\<close>)
qed

lemma keep_imports:
  assumes "held b s P p" and "syncFileImports fault file p = Inr p'"
  shows "held b s P p'"
proof -
  obtain p1 where p1: "exec fault (Wrap ''promoter: delete file_imports for %q: %w'' [pmf_Path file])
      (\<lambda>db. Inr (delete_file_imports (pb_RepoID b) (pb_Branch b) (pmf_Path file) db)) p = Inr p1"
    "for_r (insert_import fault (pmf_Path file)) (pmf_Imports file) p1 = Inr p'"
    using assms by (auto simp: syncFileImports_def bind_r_Inr held_def)
  have "held b s P p1"
    using assms(1) p1(1) by (rule held_exec) (use delete_imports [OF heldD(3) [OF assms(1)]] in auto)
  then show ?thesis by (rule for_r_keeps [OF p1(2)]) (use keep_import in blast)
qed

lemma keep_until_delete:
  assumes h: "held b s P p" and "capturePrevSignatures fault (pmf_Path file) p = Inr (p1, prevSig)"
    and "record_deleted file prevSig p1 = Inr p2"
    and d: "for_r (sink_BeforeNodeDelete fault (pmf_Path file)) (st_sinks (pn_s p2)) p2 = Inr p3"
  shows "held b s P p3"
proof -
  have "held b s P p1" using assms(1,2) unfolding capturePrevSignatures_def by (rule held_query)
  then have "held b s P p2" using assms(3) by (auto simp: record_deleted_def held_def split: if_splits)
  then show ?thesis by (rule for_r_keeps [OF d]) (use keep_before in blast)
qed

lemma keep_work:
  assumes h: "held b s P p" and e: "enqueueFileWork fault path p = Inr p'"
  shows "held b s P p'"
  using e [unfolded enqueueFileWork_def] h
proof (rule for_r_keeps)
  fix wk q q' assume q: "held b s P q"
  have bq: "pn_batch q = b" "P (pn_tx q)" using q by (simp_all add: held_def)
  assume "exec fault (Wrap ''promoter: enqueue %q for %q: %w'' [wk, path])
     (\<lambda>db. Inr (enqueue_row (pb_GitSHA (pn_batch q)) (pn_repoID q) (pn_branch q) wk path (pn_now q) db)) q = Inr q'"
  with q show "held b s P q'" unfolding bq(1)
    by (rule held_exec) (use queue [OF bq(2)] in auto)
qed

end

text \<open>
  The contract of the later phases, which write edges and stubs, queue work and advance the
  repository. The client lemma is that these phases keep the property.
\<close>

locale promotion_later =
  fixes b :: PromotionBatch
    and P :: "graph_tables \<Rightarrow> bool"
  assumes edge: "P db \<Longrightarrow> written_edge b (gb_nodes db) (fst k) er \<Longrightarrow> snd k = pb_Branch b
      \<Longrightarrow> insert_edge_row k er db = Inr db' \<Longrightarrow> P db'"
    and stub: "P db \<Longrightarrow> snd k = pb_Branch b \<Longrightarrow> sb_repo_id sr = pb_RepoID b \<Longrightarrow> insert_stub_row k sr db = Inr db' \<Longrightarrow> P db'"
    and work: "P db \<Longrightarrow> P (enqueue_row sha (pb_RepoID b) (pb_Branch b) kind payload now db)"
    and repo: "P db \<Longrightarrow> P (db\<lparr>gb_repos := gm_update_where (\<lambda>k r. k = pb_RepoID b) f (gb_repos db)\<rparr>)"
begin

lemma keep_edge:
  assumes h: "held b s P p" and w: "written_edge b (gb_nodes (pn_tx p)) (e_ID e) (batch_edge_row b e)"
    and e: "insertEdge fault label e p = Inr p'"
  shows "held b s P p'"
proof -
  note bp = heldD [OF h]
  show ?thesis using h e [unfolded insertEdge_def bp(1) edge_columns_row [OF bp(1)]]
    by (rule held_exec) (erule edge [OF bp(3), rotated 2], use w in simp_all)
qed

lemma keep_call:
  assumes "held b s P p" and f: "f \<in> set (pb_Files b)" "uc \<in> set (pmf_UnresolvedCalls f)"
    and t: "\<And>t. target = Some t \<Longrightarrow> call_target b (gb_nodes (pn_tx p)) uc t"
    and c: "bind_call fault label uc target p = Inr p'"
  shows "held b s P p'"
proof (cases "\<exists>t e. target = Some t \<and> uc_CallerID uc \<noteq> t \<and> buildCallEdge uc t = Some e")
  case True
  then obtain t e where te: "target = Some t" "uc_CallerID uc \<noteq> t" "buildCallEdge uc t = Some e" by blast
  show ?thesis
    by (rule keep_edge [OF assms(1) written_edgeI(2) [OF f t [OF te(1)] te(2,3)]]) (use c te in \<open>simp add: bind_call_def\<close>)
qed (use assms(1) c in \<open>auto simp: bind_call_def split: option.splits if_splits\<close>)

lemma keep_intra:
  assumes h: "held b s P p" and f: "f \<in> set (pb_Files b)" "uc \<in> set (pmf_UnresolvedCalls f)"
    and r: "resolve_intra_call fault file uc p = Inr p'"
  shows "held b s P p'"
proof (cases "uc_PkgQualifier uc = []")
  case True
  then obtain p1 target where st:
    "lookupIntraPackageTarget fault (buildPackageSymbolMap b (path_Dir (pmf_Path file))) file uc p = Inr (p1, target)"
    "bind_call fault ''promoter: insert cross-file edge %q: %w'' uc target p1 = Inr p'"
    using r heldD(1) [OF h] by (auto simp: resolve_intra_call_def bind_r_Inr)
  have "held b s P p1" using st(1) h
    by (auto simp: lookupIntraPackageTarget_def split: option.splits if_splits intro: held_query)
  then show ?thesis by (rule keep_call [OF _ f _ st(2)]) (use intra_target [OF h] st(1) in simp)
qed (use h r in \<open>simp add: resolve_intra_call_def\<close>)

lemma keep_stub:
  assumes h: "held b s P p" and r: "emitCrossRepoStub fault uc ip p = Inr p'"
  shows "held b s P p'"
proof (cases "isExternalModulePath ip")
  case True
  have bp: "pn_batch p = b" "P (pn_tx p)" using h by (simp_all add: held_def)
  have "exec fault (Wrap ''promoter: insert cross-repo stub %q: %w'' [stubID (uc_CallerID uc) ip (stubSymbolKey uc (ucEdgeKind uc))])
      (insert_stub_row (stubID (uc_CallerID uc) ip (stubSymbolKey uc (ucEdgeKind uc)), (pb_Branch b))
         \<lparr>sb_repo_id = (pb_RepoID b), sb_src_node_id = uc_CallerID uc, sb_kind = ucEdgeKind uc, sb_module_path = ip,
          sb_symbol_path = uc_CalleeName uc, sb_language = ''go'', sb_last_promoted_at = pb_PromotedAt b,
          sb_method_call = (if uc_IsMethodCall uc then 1 else 0), sb_src_line = ucSrcLine uc\<rparr>) p = Inr p'"
    using r True by (simp add: emitCrossRepoStub_def Let_def bp(1))
  with h show ?thesis by (rule held_exec) (erule stub [OF bp(2), rotated 2], simp_all)
qed (use h r in \<open>simp add: emitCrossRepoStub_def\<close>)

lemma keep_cross:
  assumes h: "held b s P p" and f: "f \<in> set (pb_Files b)" "uc \<in> set (pmf_UnresolvedCalls f)"
    and r: "resolve_cross_call fault file uc p = Inr p'"
  shows "held b s P p'"
proof (cases "uc_PkgQualifier uc = []")
  case False
  then obtain p1 ip where st: "qualifier_import fault file uc p = Inr (p1, ip)"
    "(case ip of None \<Rightarrow> Inr p1 | Some importPath \<Rightarrow>
       (case modulePackageDir (pn_modulePath p1) importPath of
          None \<Rightarrow> emitCrossRepoStub fault uc importPath p1
        | Some relDir \<Rightarrow> resolveInModuleCall fault uc relDir p1)) = Inr p'"
    using r by (auto simp: resolve_cross_call_def resolveQualifiedCall_def bind_r_Inr)
  have h1: "held b s P p1" using st(1) h
    by (auto simp: qualifier_import_def split: option.splits if_splits intro: held_query)
  have in_module: "held b s P p'" if m: "resolveInModuleCall fault uc relDir p1 = Inr p'" for relDir
  proof -
    obtain p2 target where l: "lookupInModuleTarget fault relDir uc p1 = Inr (p2, target)"
      "bind_call fault ''promoter: insert cross-package edge %q: %w'' uc target p2 = Inr p'"
      using m by (auto simp: resolveInModuleCall_def bind_r_Inr)
    have "held b s P p2" using l(1) h1
      by (auto simp: lookupInModuleTarget_def Let_def split: option.splits if_splits intro: held_query)
    then show ?thesis by (rule keep_call [OF _ f _ l(2)]) (use in_module_target [OF h1] l(1) in simp)
  qed
  show ?thesis using st(2) h1 in_module keep_stub [OF h1] by (auto split: option.splits)
qed (use h r in \<open>simp add: resolve_cross_call_def\<close>)

lemma keep_later:
  assumes h: "held b s P p" and ph: "phase \<in> set (tl (phases fault))" and r: "phase p = Inr p'"
  shows "held b s P p'"
proof -
  have bp: "pn_batch p = b" "P (pn_tx p)" using h by (simp_all add: held_def)
  consider "enqueueWiki fault p = Inr p'" | "insertParserEdges fault p = Inr p'"
    | "resolveIntraPackageCalls fault p = Inr p'" | "resolveCrossPackageCalls fault p = Inr p'"
    | "advanceRepoSHA fault p = Inr p'"
    using ph r by (auto simp: phases_def)
  then show ?thesis
  proof cases
    case 1
    show ?thesis using h 1 [unfolded enqueueWiki_def bp(1)]
      by (rule held_exec) (use work [OF bp(2)] in auto)
  next
    case 2
    then show ?thesis unfolding insertParserEdges_def using h
    proof (rule for_r_keeps)
      fix f q q'
      assume "f \<in> set (pb_Files (pn_batch p))"
      then have w: "written_edge b N (e_ID e) (batch_edge_row b e)" if "e \<in> set (somes (pmf_Edges f))" for e N
        using that bp(1) written_edgeI(1) by simp
      assume "held b s P q" "for_r (insertEdge fault ''promoter: insert edge %q: %w'') (somes (pmf_Edges f)) q = Inr q'"
      then show "held b s P q'" by (auto elim!: for_r_keeps intro: keep_edge w)
    qed
  next
    case 3
    then show ?thesis unfolding resolveIntraPackageCalls_def using h
    proof (rule for_r_keeps)
      fix f q q'
      assume f: "f \<in> set (pb_Files (pn_batch p))"
      assume "held b s P q" "for_r (resolve_intra_call fault f) (pmf_UnresolvedCalls f) q = Inr q'"
      then show "held b s P q'" by (auto elim!: for_r_keeps intro: keep_intra [OF _ f [unfolded bp(1)]])
    qed
  next
    case 4
    show ?thesis
    proof (cases "pn_modulePath p = []")
      case False
      then obtain p1 where p1: "exec fault (Wrap ''promoter: prepare %s: %w'' [''stub insert'']) Inr p = Inr p1"
        "for_r (\<lambda>file q. if pmf_Imports file = [] then Inr q
                         else for_r (resolve_cross_call fault file) (pmf_UnresolvedCalls file) q) (pb_Files (pn_batch p)) p1 = Inr p'"
        using 4 by (auto simp: resolveCrossPackageCalls_def bind_r_Inr)
      have "held b s P p1" using h p1(1) by (auto simp: exec_Inr held_def)
      then show ?thesis
      proof (rule for_r_keeps [OF p1(2)])
        fix f q q'
        assume f: "f \<in> set (pb_Files (pn_batch p))"
        assume "held b s P q" "(if pmf_Imports f = [] then Inr q
          else for_r (resolve_cross_call fault f) (pmf_UnresolvedCalls f) q) = Inr q'"
        then show "held b s P q'" by (auto split: if_splits elim!: for_r_keeps intro: keep_cross [OF _ f [unfolded bp(1)]])
      qed
    qed (use 4 h in \<open>simp add: resolveCrossPackageCalls_def\<close>)
  next
    case 5
    show ?thesis
    proof (cases "pb_GitSHA b = []")
      case False
      then show ?thesis using h repo [OF bp(2)] 5 unfolding advanceRepoSHA_def bp(1)
        by (auto simp: exec_Inr held_def)
    qed (use 5 h bp in \<open>simp add: advanceRepoSHA_def\<close>)
  qed
qed

lemma keep_later_phases: "held b s P p \<Longrightarrow> apply_opts (tl (phases fault)) p = Inr p' \<Longrightarrow> held b s P p'"
  by (erule apply_opts_keeps [rotated]) (auto simp: opt_keeps_def intro: keep_later)

end

text \<open>
  The contract of the first phase, which also deletes and inserts nodes, and that of all
  statements of a promotion. The client lemmas are that promoting a file, and the whole
  promotion on every path through the phases, keep the property.
\<close>

locale promotion_files = promotion_rows +
  assumes node: "P db \<Longrightarrow> snd k = pb_Branch b \<Longrightarrow> nd_repo_id row = pb_RepoID b \<Longrightarrow> insert_node_row k row db = Inr db' \<Longrightarrow> P db'"
    and delete: "P db \<Longrightarrow> path \<in> pmf_Path ` set (pb_Files b) \<Longrightarrow> P (delete_file_nodes path (pb_Branch b) (pb_RepoID b) db)"
begin

lemma keep_node:
  assumes h: "held b s P p" and m: "no \<in> set (pmf_Nodes file)" "file \<in> set (pb_Files b)" and i: "insertNode fault prevSig no p = Inr p'"
  shows "held b s P p'"
proof -
  obtain n where n: "no = Some n" using i by (cases no) (auto simp: insertNode_def)
  have x: "n_ID n \<in> n_ID ` set (batch_nodes (pb_Files b))" using m n by (auto simp: batch_nodes_def)
  obtain p1 where p1: "exec fault (Wrap ''promoter: insert node %q (kind=%s name=%q path=%q): %w'' [n_ID n, n_Kind n, n_Name n, n_Path n])
      (insert_node_row (n_ID n, (pb_Branch b)) (node_columns b prevSig n)) p = Inr p1"
    "(if has_node (pn_tx p) (n_ID n, (pb_Branch b)) then Inr (p1\<lparr>pn_droppedDups := Suc (pn_droppedDups p1)\<rparr>)
      else for_r (sink_AfterNodeInsert fault (n_ID n)) (st_sinks (pn_s p1)) p1) = Inr p'"
    using i h by (auto simp: insertNode_def n bind_r_Inr held_def)
  have h1: "held b s P p1"
    using h p1(1)
    by (rule held_exec) (erule node [rotated 3], use h in \<open>simp_all add: held_def node_columns_def\<close>)
  show ?thesis
  proof (cases "has_node (pn_tx p) (n_ID n, (pb_Branch b))")
    case True
    then show ?thesis using p1(2) h1 by (auto simp: held_def)
  next
    case False
    then have "for_r (sink_AfterNodeInsert fault (n_ID n)) (st_sinks (pn_s p1)) p1 = Inr p'" using p1(2) by simp
    then show ?thesis using h1 by (rule for_r_keeps) (rule keep_after [OF _ x])
  qed
qed

lemma keep_after_delete:
  assumes "held b s P p4" and m: "file \<in> set (pb_Files b)" and "syncFileImports fault file p4 = Inr p5"
    and i: "insertFileNodes fault file prevSig p5 = Inr p6" and "enqueueFileWork fault (pmf_Path file) p6 = Inr p'"
  shows "held b s P p'"
proof -
  have "held b s P p5" using assms(1,3) by (rule keep_imports)
  then have "held b s P p6" by (rule for_r_keeps [OF i [unfolded insertFileNodes_def]]) (use keep_node m in blast)
  then show ?thesis using assms(5) by (rule keep_work)
qed

lemma keep_file:
  assumes h: "held b s P p" and m: "file \<in> set (pb_Files b)" and f: "promoteFile fault file p = Inr p'"
  shows "held b s P p'"
proof -
  obtain p1 prevSig p2 p3 p4 p5 p6 where st:
    "capturePrevSignatures fault (pmf_Path file) p = Inr (p1, prevSig)"
    "record_deleted file prevSig p1 = Inr p2"
    "for_r (sink_BeforeNodeDelete fault (pmf_Path file)) (st_sinks (pn_s p2)) p2 = Inr p3"
    "exec fault (Wrap ''promoter: delete nodes for %q: %w'' [pmf_Path file])
       (\<lambda>db. Inr (delete_file_nodes (pmf_Path file) (pn_branch p3) (pn_repoID p3) db)) p3 = Inr p4"
    "syncFileImports fault file p4 = Inr p5" "insertFileNodes fault file prevSig p5 = Inr p6"
    "enqueueFileWork fault (pmf_Path file) p6 = Inr p'"
    using promoteFile_steps [OF f] .
  note b3 = heldD [OF keep_until_delete [OF h st(1-3)]]
  have "held b s P p4" using keep_until_delete [OF h st(1-3)] st(4) [unfolded b3(1)]
    by (rule held_exec) (use delete [OF b3(3) imageI [OF m]] in auto)
  then show ?thesis using m st(5-7) by (rule keep_after_delete)
qed

end

locale promotion_frame = promotion_rows b P + promotion_later b P for b P

locale promotion_statements = promotion_files b P + promotion_later b P for b P

sublocale promotion_statements \<subseteq> promotion_frame ..

context promotion_statements
begin

lemma promotion_keeps:
  assumes "P db"
  shows "P (fst (PromotionStore_Promote fault s db b))"
proof (rule Promote_cases [of fault s db b])
  fix root modl p p' e ids
  assume st: "newPromotion fault s db b root modl = Inr p" "apply_opts (phases fault) p = Inr p'"
  obtain p1 where p1: "promoteFiles fault p = Inr p1" "apply_opts (tl (phases fault)) p1 = Inr p'"
    using phases_first [OF st(2)] .
  have h: "held b s P p" using newPromotion_start [OF st(1)] assms by (simp add: held_def)
  then have "held b s P p1"
    by (rule for_r_keeps [OF p1(1) [unfolded promoteFiles_def heldD(1) [OF h]]]) (rule keep_file)
  then have "held b s P p'" using p1(2) by (rule keep_later_phases)
  moreover assume "PromotionStore_Promote fault s db b = (pn_tx p', None, ids)"
  ultimately show ?thesis by (simp add: held_def)
qed (simp add: assms)

end

section \<open>Integrity and isolation\<close>

lemma tables_ok_cong:
  "tables_ok db \<Longrightarrow> gb_nodes db' = gb_nodes db \<Longrightarrow> gb_edges db' = gb_edges db \<Longrightarrow> gb_stubs db' = gb_stubs db
     \<Longrightarrow> gm_wf (gb_imports db') \<Longrightarrow> tables_ok db'"
  by (rule tables_ok_more_nodes) (simp_all add: tables_okD)

lemma insert_import_row_ok:
  assumes "tables_ok db" and "insert_import_row k row db = Inr db'"
  shows "tables_ok db'"
proof -
  consider "db' = db" | "db' = db\<lparr>gb_imports := gm_put k row (gb_imports db)\<rparr>"
    using assms(2) by (auto simp: insert_import_row_def split: if_splits)
  then show ?thesis
    using assms(1) by cases (auto intro: tables_ok_cong simp: tables_okD gomap_simps)
qed

interpretation integrity: promotion_statements b tables_ok for b
proof unfold_locales
  fix db
  assume ok: "tables_ok db"
  note cong = tables_ok_cong [OF ok] and wf = tables_okD(4) [OF ok]
  show "tables_ok (enqueue_row sha (pb_RepoID b) (pb_Branch b) kind payload now db)" for sha kind payload now
    by (rule cong) (simp_all add: enqueue_row_def Let_def wf)
  show "tables_ok (delete_file_imports (pb_RepoID b) (pb_Branch b) path db)" for path
    by (rule cong) (simp_all add: delete_file_imports_def wf)
  show "tables_ok (upsert_embed_ref x now db)" for x now
    by (rule cong) (simp_all add: upsert_embed_ref_def wf)
  show "tables_ok (db\<lparr>gb_fts_words := drop_fts (pb_Branch b) (pb_RepoID b) ids (gb_fts_words db)\<rparr>)" for ids
    by (rule cong) (simp_all add: wf)
  show "tables_ok (db\<lparr>gb_fts_trigrams := drop_fts (pb_Branch b) (pb_RepoID b) ids (gb_fts_trigrams db)\<rparr>)" for ids
    by (rule cong) (simp_all add: wf)
  show "tables_ok (db\<lparr>gb_repos := gm_update_where (\<lambda>k r. k = pb_RepoID b) f (gb_repos db)\<rparr>)" for f
    by (rule cong) (simp_all add: wf)
qed (auto intro: insert_node_row_ok insert_edge_row_ok insert_stub_row_ok insert_import_row_ok delete_file_nodes_ok)

text \<open>
  What a promotion leaves alone: the nodes of other repositories and branches, the edges and stubs
  of other branches, the imports and search rows of other scopes, the rows of other repositories,
  the embedding references of nodes that the batch does not hold, and the queue rows already there.
\<close>

definition outside_batch :: "PromotionBatch \<Rightarrow> graph_tables \<Rightarrow> graph_tables \<Rightarrow> bool" where
  "outside_batch b db0 db \<longleftrightarrow>
     (let R = pb_RepoID b; B = pb_Branch b
      in filter (\<lambda>(k, row). nd_repo_id row \<noteq> R \<or> snd k \<noteq> B) (gb_nodes db)
           = filter (\<lambda>(k, row). nd_repo_id row \<noteq> R \<or> snd k \<noteq> B) (gb_nodes db0)
         \<and> filter (\<lambda>(k, e). snd k \<noteq> B) (gb_edges db) = filter (\<lambda>(k, e). snd k \<noteq> B) (gb_edges db0)
         \<and> filter (\<lambda>(k, s). snd k \<noteq> B) (gb_stubs db) = filter (\<lambda>(k, s). snd k \<noteq> B) (gb_stubs db0)
         \<and> filter (\<lambda>((r, c, _), _). r \<noteq> R \<or> c \<noteq> B) (gb_imports db)
           = filter (\<lambda>((r, c, _), _). r \<noteq> R \<or> c \<noteq> B) (gb_imports db0)
         \<and> filter (\<lambda>(r, row). r \<noteq> R) (gb_repos db) = filter (\<lambda>(r, row). r \<noteq> R) (gb_repos db0)
         \<and> (\<forall>x. x \<notin> n_ID ` set (batch_nodes (pb_Files b)) \<longrightarrow> map_of (gb_embed_refs db) x = map_of (gb_embed_refs db0) x)
         \<and> filter (\<lambda>f. ft_repo_id f \<noteq> R \<or> ft_branch f \<noteq> B) (gb_fts_words db)
           = filter (\<lambda>f. ft_repo_id f \<noteq> R \<or> ft_branch f \<noteq> B) (gb_fts_words db0)
         \<and> filter (\<lambda>f. ft_repo_id f \<noteq> R \<or> ft_branch f \<noteq> B) (gb_fts_trigrams db)
           = filter (\<lambda>f. ft_repo_id f \<noteq> R \<or> ft_branch f \<noteq> B) (gb_fts_trigrams db0)
         \<and> gb_seq db0 \<le> gb_seq db
         \<and> (\<forall>seq \<le> gb_seq db0. map_of (gb_queue db) seq = map_of (gb_queue db0) seq))"

lemma drop_fts_elsewhere:
  "filter (\<lambda>f. ft_repo_id f \<noteq> R \<or> ft_branch f \<noteq> B) (drop_fts B R ids rows) = filter (\<lambda>f. ft_repo_id f \<noteq> R \<or> ft_branch f \<noteq> B) rows"
  by (auto simp: drop_fts_def intro!: filter_cong)

lemma filter_update_where:
  "filter (\<lambda>(r, row). r \<noteq> R) (gm_update_where (\<lambda>k v. k = R) f m) = filter (\<lambda>(r, row). r \<noteq> R) m"
  by (induction m) (auto simp: gm_update_where_def)

interpretation isolation: promotion_statements b "outside_batch b db0" for b db0
proof unfold_locales
  fix db
  assume s: "outside_batch b db0 db"
  show "outside_batch b db0 db'"
    if "snd k = pb_Branch b" "nd_repo_id row = pb_RepoID b" "insert_node_row k row db = Inr db'" for k row db'
    using s that by (auto simp: outside_batch_def insert_node_row_def has_node_def gm_put_new Let_def split: if_splits)
  show "outside_batch b db0 db'" if "snd k = pb_Branch b" "insert_edge_row k er db = Inr db'" for k er db'
    using s that by (auto simp: outside_batch_def insert_edge_row_def gm_put_new Let_def split: if_splits)
  show "outside_batch b db0 db'"
    if "snd k = pb_Branch b" "sb_repo_id sr = pb_RepoID b" "insert_stub_row k sr db = Inr db'" for k sr db'
    using s that by (auto simp: outside_batch_def insert_stub_row_def gm_put_new Let_def split: if_splits)
  show "outside_batch b db0 db'" if "insert_import_row (pb_RepoID b, pb_Branch b, path, ip) ir db = Inr db'" for path ip ir db'
    using s that by (auto simp: outside_batch_def insert_import_row_def gm_put_new Let_def split: if_splits)
  show "outside_batch b db0 (enqueue_row sha (pb_RepoID b) (pb_Branch b) kind payload now db)" for sha kind payload now
    using s by (simp add: outside_batch_def enqueue_row_def Let_def gomap_simps)
  show "outside_batch b db0 (delete_file_nodes path (pb_Branch b) (pb_RepoID b) db)" for path
  proof -
    let ?d = "delete_file_nodes path (pb_Branch b) (pb_RepoID b) db"
    have "filter (\<lambda>(k, row). nd_repo_id row \<noteq> pb_RepoID b \<or> snd k \<noteq> pb_Branch b) (gb_nodes ?d)
        = filter (\<lambda>(k, row). nd_repo_id row \<noteq> pb_RepoID b \<or> snd k \<noteq> pb_Branch b) (gb_nodes db)"
      "filter (\<lambda>(k, e). snd k \<noteq> pb_Branch b) (gb_edges ?d) = filter (\<lambda>(k, e). snd k \<noteq> pb_Branch b) (gb_edges db)"
      "filter (\<lambda>(k, e). snd k \<noteq> pb_Branch b) (gb_stubs ?d) = filter (\<lambda>(k, e). snd k \<noteq> pb_Branch b) (gb_stubs db)"
      by (auto simp: delete_file_nodes_def Let_def in_file_def intro!: filter_cong)
    then show ?thesis using s unfolding outside_batch_def Let_def
      by (simp add: delete_file_nodes_def Let_def)
  qed
  show "outside_batch b db0 (delete_file_imports (pb_RepoID b) (pb_Branch b) path db)" for path
  proof -
    have "filter (\<lambda>((r, c, _), _). r \<noteq> pb_RepoID b \<or> c \<noteq> pb_Branch b) (gb_imports (delete_file_imports (pb_RepoID b) (pb_Branch b) path db))
        = filter (\<lambda>((r, c, _), _). r \<noteq> pb_RepoID b \<or> c \<noteq> pb_Branch b) (gb_imports db)"
      by (auto simp: delete_file_imports_def intro!: filter_cong)
    then show ?thesis using s unfolding outside_batch_def Let_def by (simp add: delete_file_imports_def)
  qed
  show "outside_batch b db0 (upsert_embed_ref x now db)" if "x \<in> n_ID ` set (batch_nodes (pb_Files b))" for x now
    using s that by (auto simp: outside_batch_def upsert_embed_ref_def Let_def gomap_simps)
  show "outside_batch b db0 (db\<lparr>gb_fts_words := drop_fts (pb_Branch b) (pb_RepoID b) ids (gb_fts_words db)\<rparr>)" for ids
    using s unfolding outside_batch_def Let_def by (simp add: drop_fts_elsewhere [simplified])
  show "outside_batch b db0 (db\<lparr>gb_fts_trigrams := drop_fts (pb_Branch b) (pb_RepoID b) ids (gb_fts_trigrams db)\<rparr>)" for ids
    using s unfolding outside_batch_def Let_def by (simp add: drop_fts_elsewhere [simplified])
  show "outside_batch b db0 (db\<lparr>gb_repos := gm_update_where (\<lambda>k r. k = pb_RepoID b) f (gb_repos db)\<rparr>)" for f
    using s by (simp add: outside_batch_def Let_def filter_update_where)
qed

end
