(* ===== verification/Promotion_Effect.thy ===== *)
theory Promotion_Effect
  imports Promotion_Integrity
begin

text \<open>
  What a promotion that reports success leaves in the tables of nodes and edges. The reference for
  the nodes replaces the files of the batch one after another; \<open>promoted_row\<close> says it row by row.
  An old edge survives exactly when both its ends lie outside the files of the batch; every other
  edge of the branch afterwards is one that the batch declares or a call of it that was bound.
\<close>

section \<open>The nodes after a promotion\<close>

text \<open>The reference: per file, the old rows leave and the new ones enter, the first of an identity winning.\<close>

definition prev_sigs :: "PromotionBatch \<Rightarrow> string \<Rightarrow> (string \<times> string, node_rec) gomap \<Rightarrow> (string, string option) gomap" where
  "prev_sigs b path N =
     map (\<lambda>(k, row). (fst k, nd_signature row)) (filter (\<lambda>(k, row). in_file path (pb_Branch b) (pb_RepoID b) k row) N)"

definition put_new :: "PromotionBatch \<Rightarrow> (string, string option) gomap \<Rightarrow> (string \<times> string, node_rec) gomap \<Rightarrow> Node
    \<Rightarrow> (string \<times> string, node_rec) gomap" where
  "put_new b sigs N n =
     (if map_of N (n_ID n, pb_Branch b) \<noteq> None then N
      else gm_put (n_ID n, pb_Branch b) (node_columns b sigs n) N)"

definition replace_file :: "PromotionBatch \<Rightarrow> (string \<times> string, node_rec) gomap \<Rightarrow> PromotionFile
    \<Rightarrow> (string \<times> string, node_rec) gomap" where
  "replace_file b N f =
     foldl (put_new b (prev_sigs b (pmf_Path f) N))
       (filter (\<lambda>(k, row). \<not> in_file (pmf_Path f) (pb_Branch b) (pb_RepoID b) k row) N) (somes (pmf_Nodes f))"

interpretation same_nodes: promotion_frame b "\<lambda>db. gb_nodes db = N" for b N
proof unfold_locales
  show "gb_nodes db' = N" if "gb_nodes db = N" "insert_edge_row k er db = Inr db'" for db db' k er
    using that by (auto simp: insert_edge_row_def split: if_splits)
  show "gb_nodes db' = N" if "gb_nodes db = N" "insert_stub_row k er db = Inr db'" for db db' k er
    using that by (auto simp: insert_stub_row_def split: if_splits)
  show "gb_nodes db' = N" if "gb_nodes db = N" "insert_import_row k er db = Inr db'" for db db' k er
    using that by (auto simp: insert_import_row_def split: if_splits)
qed (simp_all add: enqueue_row_def delete_file_imports_def upsert_embed_ref_def Let_def)

lemma insertNode_effect:
  assumes h: "held b s (\<lambda>db. gb_nodes db = N) p" and m: "no \<in> set (pmf_Nodes file)" "file \<in> set (pb_Files b)"
    and i: "insertNode fault sigs no p = Inr p'"
  shows "\<exists>n. no = Some n \<and> held b s (\<lambda>db. gb_nodes db = put_new b sigs N n) p'"
proof -
  obtain n where n: "no = Some n" using i by (cases no) (auto simp: insertNode_def)
  have x: "n_ID n \<in> n_ID ` set (batch_nodes (pb_Files b))" using m n by (auto simp: batch_nodes_def)
  note bp = heldD [OF h]
  obtain p1 where p1: "exec fault (Wrap ''promoter: insert node %q (kind=%s name=%q path=%q): %w'' [n_ID n, n_Kind n, n_Name n, n_Path n])
      (insert_node_row (n_ID n, pb_Branch b) (node_columns b sigs n)) p = Inr p1"
    "(if has_node (pn_tx p) (n_ID n, pb_Branch b) then Inr (p1\<lparr>pn_droppedDups := Suc (pn_droppedDups p1)\<rparr>)
      else for_r (sink_AfterNodeInsert fault (n_ID n)) (st_sinks (pn_s p1)) p1) = Inr p'"
    using i by (auto simp: insertNode_def n bind_r_Inr bp(1))
  have h1: "held b s (\<lambda>db. gb_nodes db = put_new b sigs N n) p1"
    using p1(1) bp by (auto simp: exec_Inr held_def insert_node_row_def put_new_def has_node_def split: if_splits)
  show ?thesis
  proof (cases "has_node (pn_tx p) (n_ID n, pb_Branch b)")
    case True
    then show ?thesis using p1(2) h1 n by (auto simp: held_def)
  next
    case False
    then have "for_r (sink_AfterNodeInsert fault (n_ID n)) (st_sinks (pn_s p1)) p1 = Inr p'" using p1(2) by simp
    then have "held b s (\<lambda>db. gb_nodes db = put_new b sigs N n) p'"
      using h1 by (rule for_r_keeps) (rule same_nodes.keep_after [OF _ x])
    then show ?thesis using n by blast
  qed
qed

lemma insertFileNodes_effect:
  assumes "held b s (\<lambda>db. gb_nodes db = N) p" and "for_r (insertNode fault sigs) ns p = Inr p'"
    and "set ns \<subseteq> set (pmf_Nodes file)" "file \<in> set (pb_Files b)"
  shows "held b s (\<lambda>db. gb_nodes db = foldl (put_new b sigs) N (somes ns)) p'"
  using assms
proof (induction ns arbitrary: N p)
  case (Cons no ns)
  then obtain p1 where p1: "insertNode fault sigs no p = Inr p1" "for_r (insertNode fault sigs) ns p1 = Inr p'"
    by (auto simp: bind_r_Inr)
  obtain n where "no = Some n" "held b s (\<lambda>db. gb_nodes db = put_new b sigs N n) p1"
    using insertNode_effect [OF Cons.prems(1) _ _ p1(1)] Cons.prems(3,4) by auto
  then show ?case using Cons.IH [OF _ p1(2)] Cons.prems(3,4) by simp
qed simp

lemma promoteFile_effect:
  assumes h: "held b s (\<lambda>db. gb_nodes db = N) p" and m: "file \<in> set (pb_Files b)" and f: "promoteFile fault file p = Inr p'"
  shows "held b s (\<lambda>db. gb_nodes db = replace_file b N file) p'"
proof -
  obtain p1 prevSig p2 p3 p4 p5 p6 where st:
    "capturePrevSignatures fault (pmf_Path file) p = Inr (p1, prevSig)"
    "record_deleted file prevSig p1 = Inr p2"
    "for_r (sink_BeforeNodeDelete fault (pmf_Path file)) (st_sinks (pn_s p2)) p2 = Inr p3"
    "exec fault (Wrap ''promoter: delete nodes for %q: %w'' [pmf_Path file])
       (\<lambda>db. Inr (delete_file_nodes (pmf_Path file) (pn_branch p3) (pn_repoID p3) db)) p3 = Inr p4"
    "syncFileImports fault file p4 = Inr p5" "insertFileNodes fault file prevSig p5 = Inr p6"
    "enqueueFileWork fault (pmf_Path file) p6 = Inr p'"
    using promoteFile_steps [OF f] .
  let ?N1 = "filter (\<lambda>(k, row). \<not> in_file (pmf_Path file) (pb_Branch b) (pb_RepoID b) k row) N"
  have sig: "prevSig = prev_sigs b (pmf_Path file) N"
    using st(1) heldD [OF h] by (auto simp: capturePrevSignatures_def query_Inr prev_sigs_def held_def)
  have h3: "held b s (\<lambda>db. gb_nodes db = N) p3" using same_nodes.keep_until_delete [OF h st(1-3)] .
  have "held b s (\<lambda>db. gb_nodes db = ?N1) p4"
    using st(4) heldD [OF h3] by (auto simp: exec_Inr held_def delete_file_nodes_def Let_def)
  then have "held b s (\<lambda>db. gb_nodes db = ?N1) p5" using same_nodes.keep_imports [OF _ st(5)] by blast
  then have "held b s (\<lambda>db. gb_nodes db = replace_file b N file) p6"
    using st(6) unfolding insertFileNodes_def replace_file_def sig by (rule insertFileNodes_effect [OF _ _ subset_refl m])
  then show ?thesis by (rule same_nodes.keep_work [OF _ st(7)])
qed

lemma promoteFiles_effect:
  assumes "held b s (\<lambda>db. gb_nodes db = N) p" and "for_r (promoteFile fault) fs p = Inr p'" and "set fs \<subseteq> set (pb_Files b)"
  shows "held b s (\<lambda>db. gb_nodes db = foldl (replace_file b) N fs) p'"
  using assms
proof (induction fs arbitrary: N p)
  case (Cons f fs)
  then obtain p1 where p1: "promoteFile fault f p = Inr p1" "for_r (promoteFile fault) fs p1 = Inr p'"
    by (auto simp: bind_r_Inr)
  show ?case using Cons.IH [OF promoteFile_effect [OF Cons.prems(1) _ p1(1)] p1(2)] Cons.prems(3) by simp
qed simp

lemma promote_replaces_files:
  assumes "PromotionStore_Promote fault s db b = (db', None, ids)"
  shows "gb_nodes db' = foldl (replace_file b) (gb_nodes db) (pb_Files b)"
proof (rule Promote_cases [of fault s db b])
  fix e ids'
  assume "PromotionStore_Promote fault s db b = (db, e, ids')" "e \<noteq> None \<or> pb_Files b = []"
  then show ?thesis using assms by auto
next
  fix root modl p p' ids'
  assume st: "newPromotion fault s db b root modl = Inr p" "apply_opts (phases fault) p = Inr p'"
    and r: "PromotionStore_Promote fault s db b = (pn_tx p', None, ids')"
  obtain p1 where p1: "promoteFiles fault p = Inr p1" "apply_opts (tl (phases fault)) p1 = Inr p'"
    using phases_first [OF st(2)] .
  note n = newPromotion_start [OF st(1)]
  have "held b s (\<lambda>d. gb_nodes d = gb_nodes db) p" using n by (simp add: held_def)
  then have "held b s (\<lambda>d. gb_nodes d = foldl (replace_file b) (gb_nodes db) (pb_Files b)) p1"
    by (rule promoteFiles_effect) (use p1(1) n in \<open>simp_all add: promoteFiles_def\<close>)
  then have "held b s (\<lambda>d. gb_nodes d = foldl (replace_file b) (gb_nodes db) (pb_Files b)) p'"
    using p1(2) by (rule same_nodes.keep_later_phases)
  then show ?thesis using r assms by (simp add: held_def)
qed

text \<open>The rows of a scope after a promotion, row by row.\<close>

definition promoted_row :: "PromotionBatch \<Rightarrow> PromotionFile list \<Rightarrow> (string \<times> string, node_rec) gomap
    \<Rightarrow> string \<times> string \<Rightarrow> node_rec option" where
  "promoted_row b fs N k =
     (case find (\<lambda>n. (n_ID n, pb_Branch b) = k) (batch_nodes fs) of
        Some n \<Rightarrow> Some (node_columns b (case map_of N k of None \<Rightarrow> [] | Some r \<Rightarrow> [(n_ID n, nd_signature r)]) n)
      | None \<Rightarrow>
          (case map_of N k of
             None \<Rightarrow> None
           | Some row \<Rightarrow> if \<exists>f \<in> set fs. in_file (pmf_Path f) (pb_Branch b) (pb_RepoID b) k row then None else Some row))"

lemma map_of_put_new:
  "map_of (foldl (put_new b sigs) N ns) k =
     (case map_of N k of Some r \<Rightarrow> Some r
      | None \<Rightarrow> map_option (node_columns b sigs) (find (\<lambda>n. (n_ID n, pb_Branch b) = k) ns))"
  by (induction ns arbitrary: N) (auto simp: put_new_def gomap_simps split: option.splits)

lemma gm_wf_put_new: "gm_wf N \<Longrightarrow> gm_wf (foldl (put_new b sigs) N ns)"
  by (induction ns arbitrary: N) (auto simp: put_new_def gomap_simps)

lemma gm_wf_replace: "gm_wf M \<Longrightarrow> gm_wf (replace_file b M f)"
  unfolding replace_file_def by (rule gm_wf_put_new) (simp add: gm_wf_def distinct_map_filter)

lemma find_batch_path:
  assumes "\<forall>f \<in> set fs. \<forall>n \<in> set (somes (pmf_Nodes f)). n_Path n = pmf_Path f"
    and "find Q (batch_nodes fs) = Some n"
  shows "Q n" and "n_Path n \<in> pmf_Path ` set fs"
proof -
  have "Q n" and "n \<in> set (batch_nodes fs)" using find_SomeD [OF assms(2)] by simp_all
  then show "Q n" and "n_Path n \<in> pmf_Path ` set fs" using assms(1) by (auto simp: batch_nodes_def)
qed

lemma map_of_prev_sigs:
  assumes "gm_wf N"
  shows "map_of (prev_sigs b path N) x =
    (case map_of N (x, pb_Branch b) of None \<Rightarrow> None
     | Some row \<Rightarrow> if in_file path (pb_Branch b) (pb_RepoID b) (x, pb_Branch b) row then Some (nd_signature row) else None)"
  using assms
proof (induction N)
  case (Cons kr N)
  obtain y c row where kr: "kr = ((y, c), row)" by (metis surj_pair)
  have wf: "gm_wf N" and new: "(y, c) \<notin> fst ` set N" using Cons.prems by (simp_all add: gm_wf_def kr)
  show ?case
  proof (cases "(y, c) = (x, pb_Branch b)")
    case True
    then have "map_of N (x, pb_Branch b) = None" using new by (simp add: map_of_eq_None_iff)
    then show ?thesis using Cons.IH [OF wf] True by (simp add: kr prev_sigs_def)
  next
    case False
    then have "map_of (prev_sigs b path (kr # N)) x = map_of (prev_sigs b path N) x"
      by (auto simp: kr prev_sigs_def in_file_def)
    then show ?thesis using Cons.IH [OF wf] False by (auto simp: kr)
  qed
qed (simp add: prev_sigs_def)

lemma node_columns_cong:
  "map_of sigs (n_ID n) = map_of sigs' (n_ID n) \<Longrightarrow> node_columns b sigs n = node_columns b sigs' n"
  by (simp add: node_columns_def)

text \<open>A batch whose identities stay in their files.\<close>

definition ids_in_place :: "PromotionBatch \<Rightarrow> (string \<times> string, node_rec) gomap \<Rightarrow> bool" where
  "ids_in_place b N \<longleftrightarrow> distinct (map pmf_Path (pb_Files b))
     \<and> (\<forall>f \<in> set (pb_Files b). \<forall>n \<in> set (somes (pmf_Nodes f)). n_Path n = pmf_Path f
          \<and> (case map_of N (n_ID n, pb_Branch b) of None \<Rightarrow> True
             | Some row \<Rightarrow> in_file (pmf_Path f) (pb_Branch b) (pb_RepoID b) (n_ID n, pb_Branch b) row))"

lemma replace_files_rows:
  assumes wf: "gm_wf N" and ok: "ids_in_place b N" and fs: "\<exists>rest. pb_Files b = fs @ rest"
  shows "gm_wf (foldl (replace_file b) N fs) \<and> map_of (foldl (replace_file b) N fs) = promoted_row b fs N"
  using fs
proof (induction fs rule: rev_induct)
  case Nil
  then show ?case using wf by (auto simp: promoted_row_def batch_nodes_def fun_eq_iff split: option.splits)
next
  case (snoc f fs)
  let ?M = "foldl (replace_file b) N fs" and ?B = "pb_Branch b" and ?R = "pb_RepoID b"
  let ?kept = "filter (\<lambda>(k, row). \<not> in_file (pmf_Path f) ?B ?R k row) ?M"
  obtain rest where rest: "pb_Files b = fs @ f # rest" using snoc.prems by auto
  have IH: "gm_wf ?M" "map_of ?M = promoted_row b fs N" using snoc.IH rest by auto
  have paths: "\<forall>g \<in> set (fs @ [f]). \<forall>n \<in> set (somes (pmf_Nodes g)). n_Path n = pmf_Path g"
    and new: "pmf_Path f \<notin> pmf_Path ` set fs"
    using ok rest by (auto simp: ids_in_place_def)
  have home: "in_file (pmf_Path f) ?B ?R (n_ID n, ?B) row"
    if "n \<in> set (somes (pmf_Nodes f))" "map_of N (n_ID n, ?B) = Some row" for n row
    using ok rest that by (force simp: ids_in_place_def)
  have "map_of (replace_file b ?M f) k = promoted_row b (fs @ [f]) N k" for k
  proof (cases "find (\<lambda>n. (n_ID n, ?B) = k) (batch_nodes fs)")
    case (Some n)
    have n: "(n_ID n, ?B) = k" "n_Path n \<in> pmf_Path ` set fs"
      using find_batch_path [OF _ Some] paths by auto
    then have "map_of ?kept k = promoted_row b fs N k"
      using Some new by (auto simp: gm_get_filter_row [OF IH(1)] IH(2) promoted_row_def in_file_def node_columns_def)
    then show ?thesis using Some
      by (simp add: replace_file_def map_of_put_new promoted_row_def batch_nodes_def find_append_case)
  next
    case None
    let ?row = "find (\<lambda>n. (n_ID n, ?B) = k) (somes (pmf_Nodes f))"
    have kept_k: "map_of ?kept k = (case map_of N k of None \<Rightarrow> None
        | Some row \<Rightarrow> if \<exists>g \<in> set (fs @ [f]). in_file (pmf_Path g) ?B ?R k row then None else Some row)"
      using None by (auto simp: gm_get_filter_row [OF IH(1)] IH(2) promoted_row_def split: option.splits)
    show ?thesis
    proof (cases ?row)
      case None2: None
      then show ?thesis using None kept_k
        by (simp add: replace_file_def map_of_put_new promoted_row_def batch_nodes_def find_append_case split: option.splits)
    next
      case (Some n)
      note n = find_SomeD [OF Some]
      have gone: "map_of ?kept k = None" using kept_k home [OF n(1)] n(2) by (auto split: option.splits)
      have "map_of ?M k = map_of N k"
        using None home [OF n(1)] new n(2) by (auto simp: IH(2) promoted_row_def in_file_def split: option.splits)
      then have "map_of (prev_sigs b (pmf_Path f) ?M) (n_ID n)
          = map_of (case map_of N k of None \<Rightarrow> [] | Some r \<Rightarrow> [(n_ID n, nd_signature r)]) (n_ID n)"
        using home [OF n(1)] n(2) by (auto simp: map_of_prev_sigs [OF IH(1)] split: option.splits)
      then have "node_columns b (prev_sigs b (pmf_Path f) ?M) n
          = node_columns b (case map_of N k of None \<Rightarrow> [] | Some r \<Rightarrow> [(n_ID n, nd_signature r)]) n"
        by (rule node_columns_cong)
      then show ?thesis using None Some gone
        by (simp add: replace_file_def map_of_put_new promoted_row_def batch_nodes_def find_append_case)
    qed
  qed
  then show ?case using gm_wf_replace [OF IH(1)] by auto
qed

lemma promote_rows:
  assumes "tables_ok db" and "ids_in_place b (gb_nodes db)"
    and "PromotionStore_Promote fault s db b = (db', None, ids)"
  shows "map_of (gb_nodes db') = promoted_row b (pb_Files b) (gb_nodes db)"
  using promote_replaces_files [OF assms(3)] replace_files_rows [OF tables_okD(1) [OF assms(1)] assms(2)]
  by auto

section \<open>The edges after a promotion\<close>

text \<open>An edge that the cascade of one of the batch's files takes with it.\<close>

definition touched_by :: "PromotionBatch \<Rightarrow> string \<Rightarrow> graph_tables \<Rightarrow> edge_rec \<Rightarrow> bool" where
  "touched_by b path db e \<longleftrightarrow>
     er_src_node_id e \<in> set (file_node_ids path (pb_Branch b) (pb_RepoID b) db)
     \<or> er_dst_node_id e \<in> set (file_node_ids path (pb_Branch b) (pb_RepoID b) db)"

text \<open>The edge is gone; or it is still there and the file would take it.\<close>

definition no_edge :: "PromotionBatch \<Rightarrow> string \<Rightarrow> graph_tables \<Rightarrow> bool" where
  "no_edge b x db \<longleftrightarrow> (\<forall>e. ((x, pb_Branch b), e) \<notin> set (gb_edges db))"

definition doomed_edge :: "PromotionBatch \<Rightarrow> string \<Rightarrow> string \<Rightarrow> graph_tables \<Rightarrow> bool" where
  "doomed_edge b path x db \<longleftrightarrow> (\<forall>e. ((x, pb_Branch b), e) \<in> set (gb_edges db) \<longrightarrow> touched_by b path db e)"

lemma no_edge_lookup: "no_edge b x db \<longleftrightarrow> map_of (gb_edges db) (x, pb_Branch b) = None"
  by (force simp: no_edge_def map_of_eq_None_iff)

lemma file_node_ids_mono:
  "set (gb_nodes db) \<subseteq> set (gb_nodes db') \<Longrightarrow> set (file_node_ids path B R db) \<subseteq> set (file_node_ids path B R db')"
  unfolding file_node_ids_def set_map set_filter by (rule image_mono) blast

lemma touched_by_mono: "set (gb_nodes db) \<subseteq> set (gb_nodes db') \<Longrightarrow> touched_by b path db e \<Longrightarrow> touched_by b path db' e"
  unfolding touched_by_def using file_node_ids_mono by blast

lemma insert_node_row_nodes:
  "insert_node_row k row db = Inr db' \<Longrightarrow> db' = db \<or> map_of (gb_nodes db) k = None \<and> db' = db\<lparr>gb_nodes := gb_nodes db @ [(k, row)]\<rparr>"
  by (auto simp: insert_node_row_def has_node_def gm_put_new split: if_splits)

lemma insert_edge_row_edges:
  "insert_edge_row k row db = Inr db' \<Longrightarrow> db' = db \<or> map_of (gb_edges db) k = None \<and> db' = db\<lparr>gb_edges := gb_edges db @ [(k, row)]\<rparr>"
  by (auto simp: insert_edge_row_def gm_put_new split: if_splits)

lemma side_tables_same:
  "insert_import_row k' ir db = Inr db'
     \<Longrightarrow> gb_edges db' = gb_edges db \<and> gb_nodes db' = gb_nodes db \<and> gb_stubs db' = gb_stubs db"
  "gb_edges (enqueue_row sha R B kind payload now db) = gb_edges db \<and> gb_nodes (enqueue_row sha R B kind payload now db) = gb_nodes db
     \<and> gb_stubs (enqueue_row sha R B kind payload now db) = gb_stubs db"
  "gb_edges (delete_file_imports R B path db) = gb_edges db \<and> gb_nodes (delete_file_imports R B path db) = gb_nodes db
     \<and> gb_stubs (delete_file_imports R B path db) = gb_stubs db"
  "gb_edges (upsert_embed_ref x now db) = gb_edges db \<and> gb_nodes (upsert_embed_ref x now db) = gb_nodes db
     \<and> gb_stubs (upsert_embed_ref x now db) = gb_stubs db"
  by (auto simp: insert_import_row_def enqueue_row_def delete_file_imports_def upsert_embed_ref_def Let_def split: if_splits)

text \<open>
  A property of the nodes, edges and stubs alone is kept by the statements on the other tables: the
  contract of the first phase follows from three laws.
\<close>

locale graph_files =
  fixes b :: PromotionBatch
    and P :: "graph_tables \<Rightarrow> bool"
  assumes same: "P db \<Longrightarrow> gb_edges db' = gb_edges db \<and> gb_nodes db' = gb_nodes db \<and> gb_stubs db' = gb_stubs db \<Longrightarrow> P db'"
    and put_node: "P db \<Longrightarrow> map_of (gb_nodes db) (x, pb_Branch b) = None \<Longrightarrow> nd_repo_id row = pb_RepoID b
      \<Longrightarrow> P (db\<lparr>gb_nodes := gb_nodes db @ [((x, pb_Branch b), row)]\<rparr>)"
    and cascade: "P db \<Longrightarrow> path \<in> pmf_Path ` set (pb_Files b) \<Longrightarrow> P (delete_file_nodes path (pb_Branch b) (pb_RepoID b) db)"

sublocale graph_files \<subseteq> promotion_files b P
proof unfold_locales
  fix db assume P: "P db"
  show "P db'" if "snd k = pb_Branch b" "nd_repo_id row = pb_RepoID b" "insert_node_row k row db = Inr db'" for k row db'
    using insert_node_row_nodes [OF that(3)] put_node [OF P, of "fst k"] P that(1,2) by (cases k) auto
  show "P db'" if "insert_import_row (pb_RepoID b, pb_Branch b, path, ip) ir db = Inr db'" for path ip ir db'
    using P side_tables_same(1) [OF that] by (rule same)
qed (erule same cascade, simp add: side_tables_same)+

interpretation absent: graph_files b "no_edge b x" for b x
  by unfold_locales (auto simp: no_edge_def delete_file_nodes_def Let_def)

interpretation doomed: graph_files b "doomed_edge b path x" for b path x
proof unfold_locales
  fix db assume d: "doomed_edge b path x db"
  show "doomed_edge b path x db'" if "gb_edges db' = gb_edges db \<and> gb_nodes db' = gb_nodes db \<and> gb_stubs db' = gb_stubs db" for db'
    using d that touched_by_mono [of db db' b path] by (auto simp: doomed_edge_def)
  show "doomed_edge b path x (db\<lparr>gb_nodes := gb_nodes db @ [((y, pb_Branch b), row)]\<rparr>)" for y row
    using d touched_by_mono [of db "db\<lparr>gb_nodes := gb_nodes db @ [((y, pb_Branch b), row)]\<rparr>" b path]
    by (auto simp: doomed_edge_def)
  show "doomed_edge b path x (delete_file_nodes q (pb_Branch b) (pb_RepoID b) db)" for q
  proof -
    have "y \<in> set (file_node_ids path (pb_Branch b) (pb_RepoID b) (delete_file_nodes q (pb_Branch b) (pb_RepoID b) db))"
      if "y \<in> set (file_node_ids path (pb_Branch b) (pb_RepoID b) db)" "y \<notin> set (file_node_ids q (pb_Branch b) (pb_RepoID b) db)" for y
      using that by (force simp: file_node_ids_def delete_file_nodes_def Let_def)
    then show ?thesis using d by (auto simp: doomed_edge_def touched_by_def) (auto simp: delete_file_nodes_def Let_def)
  qed
qed

text \<open>A node of the branch, an edge between such nodes and a stub at one that lie outside the files of the batch.\<close>

definition clear_node :: "PromotionBatch \<Rightarrow> graph_tables \<Rightarrow> string \<Rightarrow> bool" where
  "clear_node b db x \<longleftrightarrow> (case map_of (gb_nodes db) (x, pb_Branch b) of None \<Rightarrow> False
     | Some row \<Rightarrow> \<not> (nd_repo_id row = pb_RepoID b \<and> nd_file_path row \<in> pmf_Path ` set (pb_Files b)))"

definition clear_edge :: "PromotionBatch \<Rightarrow> string \<Rightarrow> edge_rec \<Rightarrow> graph_tables \<Rightarrow> bool" where
  "clear_edge b x e db \<longleftrightarrow> gm_wf (gb_nodes db) \<and> gm_wf (gb_edges db) \<and> map_of (gb_edges db) (x, pb_Branch b) = Some e
     \<and> clear_node b db (er_src_node_id e) \<and> clear_node b db (er_dst_node_id e)"

definition clear_stub :: "PromotionBatch \<Rightarrow> string \<Rightarrow> stub_rec \<Rightarrow> graph_tables \<Rightarrow> bool" where
  "clear_stub b x st db \<longleftrightarrow> gm_wf (gb_nodes db) \<and> gm_wf (gb_stubs db) \<and> map_of (gb_stubs db) (x, pb_Branch b) = Some st
     \<and> clear_node b db (sb_src_node_id st)"

lemma clear_nodeI:
  assumes wf: "gm_wf (gb_nodes db)" and h: "has_node db (x, pb_Branch b)"
    and out: "\<And>f. f \<in> set (pb_Files b) \<Longrightarrow> x \<notin> set (file_node_ids (pmf_Path f) (pb_Branch b) (pb_RepoID b) db)"
  shows "clear_node b db x"
proof -
  obtain row where row: "map_of (gb_nodes db) (x, pb_Branch b) = Some row" using h by (auto simp: has_node_def)
  then have "\<not> in_file (pmf_Path f) (pb_Branch b) (pb_RepoID b) (x, pb_Branch b) row" if "f \<in> set (pb_Files b)" for f
    using in_file_node_ids [OF wf map_of_SomeD [OF row]] out [OF that] by blast
  then show ?thesis using row by (auto simp: clear_node_def in_file_def)
qed

lemma clear_node_delete:
  assumes wf: "gm_wf (gb_nodes db)" and c: "clear_node b db x" and q: "q \<in> pmf_Path ` set (pb_Files b)"
  shows "clear_node b (delete_file_nodes q (pb_Branch b) (pb_RepoID b) db) x"
    and "x \<notin> set (file_node_ids q (pb_Branch b) (pb_RepoID b) db)"
proof -
  obtain row where row: "map_of (gb_nodes db) (x, pb_Branch b) = Some row"
    "\<not> (nd_repo_id row = pb_RepoID b \<and> nd_file_path row \<in> pmf_Path ` set (pb_Files b))"
    using c by (auto simp: clear_node_def split: option.splits)
  have out: "\<not> in_file q (pb_Branch b) (pb_RepoID b) (x, pb_Branch b) row" using row(2) q by (auto simp: in_file_def)
  show "clear_node b (delete_file_nodes q (pb_Branch b) (pb_RepoID b) db) x"
    using row out by (simp add: clear_node_def delete_file_nodes_def Let_def gm_get_filter_row [OF wf])
  show "x \<notin> set (file_node_ids q (pb_Branch b) (pb_RepoID b) db)"
    using in_file_node_ids [OF wf, of x "pb_Branch b" row] row(1) out by (auto dest: map_of_SomeD)
qed

lemma clear_node_put:
  "clear_node b db x \<Longrightarrow> map_of (gb_nodes db) (y, pb_Branch b) = None
     \<Longrightarrow> clear_node b (db\<lparr>gb_nodes := gb_nodes db @ [((y, pb_Branch b), row)]\<rparr>) x"
  by (auto simp: clear_node_def map_add_def split: option.splits)

lemma gm_wf_delete:
  "gm_wf (gb_nodes db) \<Longrightarrow> gm_wf (gb_nodes (delete_file_nodes q B R db))"
  "gm_wf (gb_edges db) \<Longrightarrow> gm_wf (gb_edges (delete_file_nodes q B R db))"
  "gm_wf (gb_stubs db) \<Longrightarrow> gm_wf (gb_stubs (delete_file_nodes q B R db))"
  by (auto simp: delete_file_nodes_def Let_def gm_wf_def distinct_map_filter)

lemma gm_wf_snoc: "gm_wf m \<Longrightarrow> map_of m k = None \<Longrightarrow> gm_wf (m @ [(k, v)])"
  using gm.wf_put [of m k v] by (simp add: gm_put_new)

interpretation clear: graph_files b "clear_edge b x e" for b x e
proof unfold_locales
  fix db assume c: "clear_edge b x e db"
  note wf = c [unfolded clear_edge_def, THEN conjunct1]
  show "clear_edge b x e db'" if "gb_edges db' = gb_edges db \<and> gb_nodes db' = gb_nodes db \<and> gb_stubs db' = gb_stubs db" for db'
    using c that by (simp add: clear_edge_def clear_node_def)
  show "clear_edge b x e (db\<lparr>gb_nodes := gb_nodes db @ [((y, pb_Branch b), row)]\<rparr>)"
    if "map_of (gb_nodes db) (y, pb_Branch b) = None" for y row
    using c that by (simp add: clear_edge_def clear_node_put gm_wf_snoc)
  show "clear_edge b x e (delete_file_nodes q (pb_Branch b) (pb_RepoID b) db)" if q: "q \<in> pmf_Path ` set (pb_Files b)" for q
  proof -
    have "map_of (gb_edges (delete_file_nodes q (pb_Branch b) (pb_RepoID b) db)) (x, pb_Branch b) = Some e"
      using c clear_node_delete(2) [OF wf _ q] by (auto simp: clear_edge_def delete_file_nodes_def Let_def gm_get_filter_row)
    then show ?thesis using c clear_node_delete(1) [OF wf _ q] by (simp add: clear_edge_def gm_wf_delete)
  qed
qed

interpretation clear_stubs: graph_files b "clear_stub b x st" for b x st
proof unfold_locales
  fix db assume c: "clear_stub b x st db"
  note wf = c [unfolded clear_stub_def, THEN conjunct1]
  show "clear_stub b x st db'" if "gb_edges db' = gb_edges db \<and> gb_nodes db' = gb_nodes db \<and> gb_stubs db' = gb_stubs db" for db'
    using c that by (simp add: clear_stub_def clear_node_def)
  show "clear_stub b x st (db\<lparr>gb_nodes := gb_nodes db @ [((y, pb_Branch b), row)]\<rparr>)"
    if "map_of (gb_nodes db) (y, pb_Branch b) = None" for y row
    using c that by (simp add: clear_stub_def clear_node_put gm_wf_snoc)
  show "clear_stub b x st (delete_file_nodes q (pb_Branch b) (pb_RepoID b) db)" if q: "q \<in> pmf_Path ` set (pb_Files b)" for q
  proof -
    have "map_of (gb_stubs (delete_file_nodes q (pb_Branch b) (pb_RepoID b) db)) (x, pb_Branch b) = Some st"
      using c clear_node_delete(2) [OF wf _ q] by (auto simp: clear_stub_def delete_file_nodes_def Let_def gm_get_filter_row)
    then show ?thesis using c clear_node_delete(1) [OF wf _ q] by (simp add: clear_stub_def gm_wf_delete)
  qed
qed

text \<open>Promoting the file takes the edge.\<close>

lemma promoteFile_takes_edge:
  assumes h: "held b s (doomed_edge b (pmf_Path file) x) p" and m: "file \<in> set (pb_Files b)"
    and f: "promoteFile fault file p = Inr p'"
  shows "held b s (no_edge b x) p'"
proof -
  obtain p1 prevSig p2 p3 p4 p5 p6 where st:
    "capturePrevSignatures fault (pmf_Path file) p = Inr (p1, prevSig)"
    "record_deleted file prevSig p1 = Inr p2"
    "for_r (sink_BeforeNodeDelete fault (pmf_Path file)) (st_sinks (pn_s p2)) p2 = Inr p3"
    "exec fault (Wrap ''promoter: delete nodes for %q: %w'' [pmf_Path file])
       (\<lambda>db. Inr (delete_file_nodes (pmf_Path file) (pn_branch p3) (pn_repoID p3) db)) p3 = Inr p4"
    "syncFileImports fault file p4 = Inr p5" "insertFileNodes fault file prevSig p5 = Inr p6"
    "enqueueFileWork fault (pmf_Path file) p6 = Inr p'"
    using promoteFile_steps [OF f] .
  have h3: "held b s (doomed_edge b (pmf_Path file) x) p3" using doomed.keep_until_delete [OF h st(1-3)] .
  have "no_edge b x (delete_file_nodes (pmf_Path file) (pb_Branch b) (pb_RepoID b) (pn_tx p3))"
    using heldD(3) [OF h3] by (auto simp: doomed_edge_def no_edge_def touched_by_def delete_file_nodes_def Let_def)
  then have "held b s (no_edge b x) p4" using st(4) heldD [OF h3] by (auto simp: exec_Inr held_def)
  then show ?thesis using absent.keep_after_delete [OF _ m st(5-7)] by blast
qed

lemma promoted_tables:
  assumes "PromotionStore_Promote fault s db b = (db', None, ids)" and "pb_Files b \<noteq> []"
  obtains p p1 p' where "held b s (\<lambda>d. d = db) p" "for_r (promoteFile fault) (pb_Files b) p = Inr p1"
    "apply_opts (tl (phases fault)) p1 = Inr p'" "db' = pn_tx p'"
proof (rule Promote_cases [of fault s db b])
  fix root modl p p' ids'
  assume st: "newPromotion fault s db b root modl = Inr p" "apply_opts (phases fault) p = Inr p'"
    and r: "PromotionStore_Promote fault s db b = (pn_tx p', None, ids')"
  obtain p1 where p1: "promoteFiles fault p = Inr p1" "apply_opts (tl (phases fault)) p1 = Inr p'"
    using phases_first [OF st(2)] .
  note n = newPromotion_start [OF st(1)]
  show thesis
    by (rule that [of p p1 p']) (use n p1 r assms in \<open>simp_all add: held_def promoteFiles_def\<close>)
qed (use assms in auto)

text \<open>The files of the batch take the edges that touch them, and no others.\<close>

definition surviving_edge :: "PromotionBatch \<Rightarrow> graph_tables \<Rightarrow> string \<Rightarrow> edge_rec option" where
  "surviving_edge b db x =
     (case map_of (gb_edges db) (x, pb_Branch b) of None \<Rightarrow> None
      | Some e \<Rightarrow> if \<exists>f \<in> set (pb_Files b). touched_by b (pmf_Path f) db e then None else Some e)"

lemma files_take_edge:
  assumes st: "held b s (\<lambda>d. d = db) p" "for_r (promoteFile fault) (pb_Files b) p = Inr p1" and m: "file \<in> set (pb_Files b)"
    and d: "doomed_edge b (pmf_Path file) x db"
  shows "no_edge b x (pn_tx p1)"
proof -
  obtain fs gs where split: "pb_Files b = fs @ file # gs" using m by (meson split_list)
  obtain q q1 where q: "for_r (promoteFile fault) fs p = Inr q" "promoteFile fault file q = Inr q1"
    "for_r (promoteFile fault) gs q1 = Inr p1"
    using st(2) by (auto simp: split for_r_append bind_r_Inr)
  have "held b s (doomed_edge b (pmf_Path file) x) p" using st(1) d by (simp add: held_def)
  then have "held b s (doomed_edge b (pmf_Path file) x) q"
    by (rule for_r_keeps [OF q(1)]) (rule doomed.keep_file, use split in auto)
  then have "held b s (no_edge b x) q1" using m q(2) by (rule promoteFile_takes_edge)
  then have "held b s (no_edge b x) p1"
    by (rule for_r_keeps [OF q(3)]) (rule absent.keep_file, use split in auto)
  then show ?thesis by (simp add: held_def)
qed

lemma edge_clear:
  assumes ok: "tables_ok db" and e: "map_of (gb_edges db) (x, pb_Branch b) = Some e"
    and out: "\<not> (\<exists>f \<in> set (pb_Files b). touched_by b (pmf_Path f) db e)"
  shows "clear_edge b x e db"
proof -
  note okd = tables_okD [OF ok]
  have "edge_rooted db (x, pb_Branch b) e" using e okd(5) by (auto dest: map_of_SomeD)
  then have "clear_node b db (er_src_node_id e)" "clear_node b db (er_dst_node_id e)"
    using clear_nodeI [OF okd(1)] out by (auto simp: edge_rooted_def touched_by_def)
  then show ?thesis using e okd(1,2) by (simp add: clear_edge_def)
qed

lemma files_leave_edges:
  assumes ok: "tables_ok db" and st: "held b s (\<lambda>d. d = db) p" "for_r (promoteFile fault) (pb_Files b) p = Inr p1"
  shows "map_of (gb_edges (pn_tx p1)) (x, pb_Branch b) = surviving_edge b db x"
proof (cases "map_of (gb_edges db) (x, pb_Branch b)")
  case None
  then have "held b s (no_edge b x) p" using st(1) by (simp add: no_edge_lookup held_def)
  then have "held b s (no_edge b x) p1" by (rule for_r_keeps [OF st(2)]) (rule absent.keep_file)
  then show ?thesis using None by (simp add: no_edge_lookup held_def surviving_edge_def)
next
  case (Some e)
  show ?thesis
  proof (cases "\<exists>f \<in> set (pb_Files b). touched_by b (pmf_Path f) db e")
    case True
    then obtain f where f: "f \<in> set (pb_Files b)" "touched_by b (pmf_Path f) db e" by blast
    have "doomed_edge b (pmf_Path f) x db"
      using f(2) gm_unique [OF tables_okD(2) [OF ok] map_of_SomeD [OF Some]] by (auto simp: doomed_edge_def)
    then have "no_edge b x (pn_tx p1)" by (rule files_take_edge [OF st f(1)])
    then show ?thesis using True Some by (simp add: no_edge_lookup surviving_edge_def)
  next
    case False
    have "held b s (clear_edge b x e) p" using edge_clear [OF ok Some False] st(1) by (simp add: held_def)
    then have "held b s (clear_edge b x e) p1" by (rule for_r_keeps [OF st(2)]) (rule clear.keep_file)
    then show ?thesis using Some False by (simp add: held_def clear_edge_def surviving_edge_def)
  qed
qed

text \<open>The later phases add edges of the batch to those and remove none.\<close>

definition edges_grown :: "PromotionBatch \<Rightarrow> (string \<times> string, node_rec) gomap \<Rightarrow> (string \<Rightarrow> edge_rec option) \<Rightarrow> graph_tables \<Rightarrow> bool" where
  "edges_grown b N E db \<longleftrightarrow> gb_nodes db = N
     \<and> (\<forall>x e. E x = Some e \<longrightarrow> map_of (gb_edges db) (x, pb_Branch b) = Some e)
     \<and> (\<forall>x e. map_of (gb_edges db) (x, pb_Branch b) = Some e \<longrightarrow> E x = Some e \<or> written_edge b N x e)"

interpretation grown: promotion_later b "edges_grown b N E" for b N E
proof unfold_locales
  fix db assume g: "edges_grown b N E db"
  show "edges_grown b N E db'" if w: "written_edge b (gb_nodes db) (fst k) er" "snd k = pb_Branch b" and i: "insert_edge_row k er db = Inr db'" for k er db'
  proof -
    obtain y where k: "k = (y, pb_Branch b)" using w(2) by (cases k) auto
    note gd = g [unfolded edges_grown_def]
    consider "db' = db" | "map_of (gb_edges db) k = None" "db' = db\<lparr>gb_edges := gb_edges db @ [(k, er)]\<rparr>"
      using insert_edge_row_edges [OF i] by auto
    then show ?thesis
    proof cases
      case 2
      have at: "map_of (gb_edges db') (x, pb_Branch b) = (if x = y then Some er else map_of (gb_edges db) (x, pb_Branch b))" for x
        using 2 by (auto simp: k map_add_def split: option.splits)
      have "gb_nodes db' = N" using 2(2) gd by simp
      moreover have "map_of (gb_edges db') (x, pb_Branch b) = Some e" if "E x = Some e" for x e
        using gd that 2(1) unfolding at k by auto
      moreover have "E x = Some e \<or> written_edge b N x e" if "map_of (gb_edges db') (x, pb_Branch b) = Some e" for x e
        using gd that w(1) unfolding at k by (cases "x = y") auto
      ultimately show ?thesis unfolding edges_grown_def by blast
    qed (use g in simp)
  qed
  show "edges_grown b N E db'" if "insert_stub_row k sr db = Inr db'" for k sr db'
  proof -
    have "gb_nodes db' = gb_nodes db" "gb_edges db' = gb_edges db"
      using that by (auto simp: insert_stub_row_def split: if_splits)
    then show ?thesis using g by (simp add: edges_grown_def)
  qed
qed (simp_all add: edges_grown_def enqueue_row_def Let_def)

interpretation present: promotion_later b "\<lambda>db. \<not> no_edge b x db" for b x
proof unfold_locales
  show "\<not> no_edge b x db'" if "\<not> no_edge b x db" "insert_edge_row k er db = Inr db'" for db k er db'
    using insert_edge_row_edges [OF that(2)] that(1) by (auto simp: no_edge_def)
  show "\<not> no_edge b x db'" if "\<not> no_edge b x db" "insert_stub_row k sr db = Inr db'" for db k sr db'
    using that by (auto simp: no_edge_def insert_stub_row_def split: if_splits)
qed (simp_all add: no_edge_def enqueue_row_def Let_def)

text \<open>The edges a successful promotion must leave: those declared, and the calls bound inside the batch.\<close>

definition required_edge :: "PromotionBatch \<Rightarrow> string \<Rightarrow> bool" where
  "required_edge b x \<longleftrightarrow> (\<exists>f \<in> set (pb_Files b).
     (\<exists>e \<in> set (somes (pmf_Edges f)). e_ID e = x)
     \<or> (\<exists>uc \<in> set (pmf_UnresolvedCalls f). uc_PkgQualifier uc = []
          \<and> (\<exists>t e. map_of (buildPackageSymbolMap b (path_Dir (pmf_Path f))) (uc_CalleeName uc) = Some t
               \<and> uc_CallerID uc \<noteq> t \<and> buildCallEdge uc t = Some e \<and> e_ID e = x)))"

lemma insertEdge_present:
  assumes "held b s Q p" and "insertEdge fault label e p = Inr p'"
  shows "held b s (\<lambda>db. \<not> no_edge b (e_ID e) db) p'"
  using assms by (auto simp: insertEdge_def exec_Inr held_def no_edge_lookup insert_edge_row_def gomap_simps split: if_splits)

lemma for_r_establishes:
  assumes "for_r f xs p = Inr p'" and "x \<in> set xs" and "I p"
    and "\<And>y q q'. y \<in> set xs \<Longrightarrow> I q \<Longrightarrow> f y q = Inr q' \<Longrightarrow> I q'"
    and "\<And>q q'. I q \<Longrightarrow> f x q = Inr q' \<Longrightarrow> J q'"
    and "\<And>y q q'. y \<in> set xs \<Longrightarrow> J q \<Longrightarrow> f y q = Inr q' \<Longrightarrow> J q'"
  shows "J p'"
proof -
  obtain ys zs where split: "xs = ys @ x # zs" using assms(2) by (meson split_list)
  obtain q q1 where q: "for_r f ys p = Inr q" "f x q = Inr q1" "for_r f zs q1 = Inr p'"
    using assms(1) by (auto simp: split for_r_append bind_r_Inr)
  have "I q" using q(1) assms(3) by (rule for_r_keeps) (use assms(4) split in auto)
  then have "J q1" using assms(5) q(2) by blast
  with q(3) show ?thesis by (rule for_r_keeps) (use assms(6) split in auto)
qed

lemma later_phases:
  assumes "apply_opts (tl (phases fault)) p1 = Inr p'"
  obtains pw pe pi where "enqueueWiki fault p1 = Inr pw" "insertParserEdges fault pw = Inr pe"
    "resolveIntraPackageCalls fault pe = Inr pi"
    "held b s (\<lambda>db. \<not> no_edge b x db) pe \<longrightarrow> held b s (\<lambda>db. \<not> no_edge b x db) p'"
    "held b s (\<lambda>db. \<not> no_edge b x db) pi \<longrightarrow> held b s (\<lambda>db. \<not> no_edge b x db) p'"
proof -
  let ?P = "held b s (\<lambda>db. \<not> no_edge b x db)"
  obtain pw pe pi pc where st: "enqueueWiki fault p1 = Inr pw" "insertParserEdges fault pw = Inr pe"
    "resolveIntraPackageCalls fault pe = Inr pi" "resolveCrossPackageCalls fault pi = Inr pc" "advanceRepoSHA fault pc = Inr p'"
    using assms by (auto simp: phases_def split: sum.splits)
  have ph: "resolveIntraPackageCalls fault \<in> set (tl (phases fault))" "resolveCrossPackageCalls fault \<in> set (tl (phases fault))"
    "advanceRepoSHA fault \<in> set (tl (phases fault))" by (simp_all add: phases_def)
  have i: "?P p'" if "?P pi"
    using present.keep_later [OF present.keep_later [OF that ph(2) st(4)] ph(3) st(5)] .
  moreover have "?P p'" if "?P pe" using i present.keep_later [OF that ph(1) st(3)] by blast
  ultimately show thesis using that [OF st(1-3)] by blast
qed

lemma declared_edge_present:
  assumes h: "held b s (edges_grown b N E) p" and r: "insertParserEdges fault p = Inr p'"
    and f: "f \<in> set (pb_Files b)" "e \<in> set (somes (pmf_Edges f))"
  shows "held b s (\<lambda>db. \<not> no_edge b (e_ID e) db) p'"
proof -
  let ?put = "insertEdge fault ''promoter: insert edge %q: %w''"
  have keep: "held b s (edges_grown b N E) q'" if "g \<in> set (pb_Files b)" "d \<in> set (somes (pmf_Edges g))"
    "held b s (edges_grown b N E) q" "?put d q = Inr q'" for g d q q'
    using grown.keep_edge [OF that(3) written_edgeI(1) [OF that(1,2)] that(4)] .
  have stay: "held b s (\<lambda>db. \<not> no_edge b (e_ID e) db) q'" if "g \<in> set (pb_Files b)" "d \<in> set (somes (pmf_Edges g))"
    "held b s (\<lambda>db. \<not> no_edge b (e_ID e) db) q" "?put d q = Inr q'" for g d q q'
    using present.keep_edge [OF that(3) written_edgeI(1) [OF that(1,2)] that(4)] .
  show ?thesis
  proof (rule for_r_establishes [where I = "held b s (edges_grown b N E)" and J = "held b s (\<lambda>db. \<not> no_edge b (e_ID e) db)", OF r [unfolded insertParserEdges_def heldD(1) [OF h]] f(1) h])
    fix q q' assume "held b s (edges_grown b N E) q" "for_r ?put (somes (pmf_Edges f)) q = Inr q'"
    then show "held b s (\<lambda>db. \<not> no_edge b (e_ID e) db) q'"
      by (elim for_r_establishes [where I = "held b s (edges_grown b N E)" and J = "held b s (\<lambda>db. \<not> no_edge b (e_ID e) db)", OF _ f(2)]) (use keep stay insertEdge_present f(1) in blast)+
  qed (use keep stay in \<open>auto elim!: for_r_keeps\<close>)
qed

lemma bound_call_present:
  assumes h: "held b s (edges_grown b N E) p" and r: "resolveIntraPackageCalls fault p = Inr p'"
    and f: "f \<in> set (pb_Files b)" "uc \<in> set (pmf_UnresolvedCalls f)" and q: "uc_PkgQualifier uc = []"
    and t: "map_of (buildPackageSymbolMap b (path_Dir (pmf_Path f))) (uc_CalleeName uc) = Some t" "uc_CallerID uc \<noteq> t"
      "buildCallEdge uc t = Some e"
  shows "held b s (\<lambda>db. \<not> no_edge b (e_ID e) db) p'"
proof -
  have put: "held b s (\<lambda>db. \<not> no_edge b (e_ID e) db) q'"
    if "held b s (edges_grown b N E) p" "resolve_intra_call fault f uc p = Inr q'" for p q'
    using insertEdge_present [OF that(1)] that q t heldD(1) [OF that(1)]
    by (auto simp: resolve_intra_call_def lookupIntraPackageTarget_def bind_call_def bind_r_Inr)
  have keep: "held b s (edges_grown b N E) q'" if "g \<in> set (pb_Files b)" "c \<in> set (pmf_UnresolvedCalls g)"
    "held b s (edges_grown b N E) q" "resolve_intra_call fault g c q = Inr q'" for g c q q'
    using grown.keep_intra [OF that(3,1,2,4)] .
  have stay: "held b s (\<lambda>db. \<not> no_edge b (e_ID e) db) q'" if "g \<in> set (pb_Files b)" "c \<in> set (pmf_UnresolvedCalls g)"
    "held b s (\<lambda>db. \<not> no_edge b (e_ID e) db) q" "resolve_intra_call fault g c q = Inr q'" for g c q q'
    using present.keep_intra [OF that(3,1,2,4)] .
  show ?thesis
  proof (rule for_r_establishes [where I = "held b s (edges_grown b N E)" and J = "held b s (\<lambda>db. \<not> no_edge b (e_ID e) db)", OF r [unfolded resolveIntraPackageCalls_def heldD(1) [OF h]] f(1) h])
    fix p p' assume st: "held b s (edges_grown b N E) p" "for_r (resolve_intra_call fault f) (pmf_UnresolvedCalls f) p = Inr p'"
    show "held b s (\<lambda>db. \<not> no_edge b (e_ID e) db) p'"
      by (rule for_r_establishes [where I = "held b s (edges_grown b N E)" and J = "held b s (\<lambda>db. \<not> no_edge b (e_ID e) db)", OF st(2) f(2) st(1)])
        (fact keep [OF f(1)] put stay [OF f(1)])+
  qed (use keep stay in \<open>auto elim!: for_r_keeps\<close>)
qed

lemma required_edge_present:
  assumes h: "held b s (edges_grown b N E) p1" and r: "apply_opts (tl (phases fault)) p1 = Inr p'" and x: "required_edge b x"
  shows "\<not> no_edge b x (pn_tx p')"
proof -
  obtain pw pe pi where st: "enqueueWiki fault p1 = Inr pw" "insertParserEdges fault pw = Inr pe"
    "resolveIntraPackageCalls fault pe = Inr pi"
    and later: "held b s (\<lambda>db. \<not> no_edge b x db) pe \<longrightarrow> held b s (\<lambda>db. \<not> no_edge b x db) p'"
      "held b s (\<lambda>db. \<not> no_edge b x db) pi \<longrightarrow> held b s (\<lambda>db. \<not> no_edge b x db) p'"
    using later_phases [OF r] .
  have ph: "enqueueWiki fault \<in> set (tl (phases fault))" "insertParserEdges fault \<in> set (tl (phases fault))"
    by (simp_all add: phases_def)
  have hw: "held b s (edges_grown b N E) pw" using grown.keep_later [OF h ph(1) st(1)] .
  then have he: "held b s (edges_grown b N E) pe" using ph(2) st(2) by (rule grown.keep_later)
  have "held b s (\<lambda>db. \<not> no_edge b x db) p'"
    using x declared_edge_present [OF hw st(2)] bound_call_present [OF he st(3)] later
    unfolding required_edge_def by blast
  then show ?thesis by (simp add: held_def)
qed

lemma promote_edges:
  assumes ok: "tables_ok db" and r: "PromotionStore_Promote fault s db b = (db', None, ids)"
  shows "(case surviving_edge b db x of
       Some e \<Rightarrow> map_of (gb_edges db') (x, pb_Branch b) = Some e
     | None \<Rightarrow> (\<forall>er. map_of (gb_edges db') (x, pb_Branch b) = Some er \<longrightarrow> written_edge b (gb_nodes db') x er))
    \<and> (required_edge b x \<longrightarrow> map_of (gb_edges db') (x, pb_Branch b) \<noteq> None)"
proof (cases "pb_Files b = []")
  case True
  then have "db' = db" using r by (cases rule: Promote_cases [of fault s db b]) auto
  then show ?thesis using True by (auto simp: surviving_edge_def required_edge_def split: option.splits)
next
  case False
  obtain p p1 p' where st: "held b s (\<lambda>d. d = db) p" "for_r (promoteFile fault) (pb_Files b) p = Inr p1"
    "apply_opts (tl (phases fault)) p1 = Inr p'" "db' = pn_tx p'"
    using promoted_tables [OF r False] .
  have "held b s tables_ok p" using st(1) ok by (simp add: held_def)
  then have same: "held b s tables_ok p1" by (rule for_r_keeps [OF st(2)]) (rule integrity.keep_file)
  let ?N = "gb_nodes (pn_tx p1)"
  have "edges_grown b ?N (surviving_edge b db) (pn_tx p1)"
    unfolding edges_grown_def files_leave_edges [OF ok st(1,2)] by simp
  then have g: "held b s (edges_grown b ?N (surviving_edge b db)) p1" using same by (simp add: held_def)
  then have "edges_grown b ?N (surviving_edge b db) db'" using grown.keep_later_phases [OF _ st(3)] st(4) by (auto simp: held_def)
  moreover have "\<not> no_edge b x db'" if "required_edge b x" using required_edge_present [OF g st(3) that] st(4) by simp
  ultimately have g': "gb_nodes db' = ?N" "\<And>e. surviving_edge b db x = Some e \<Longrightarrow> map_of (gb_edges db') (x, pb_Branch b) = Some e"
    "\<And>e. map_of (gb_edges db') (x, pb_Branch b) = Some e \<Longrightarrow> surviving_edge b db x = Some e \<or> written_edge b ?N x e"
    "required_edge b x \<Longrightarrow> map_of (gb_edges db') (x, pb_Branch b) \<noteq> None"
    by (simp_all add: edges_grown_def no_edge_lookup)
  show ?thesis using g' by (cases "surviving_edge b db x") auto
qed

section \<open>A concrete promotion\<close>

text \<open>
  Two files of one package: \<open>a.go\<close> calls the function of \<open>b.go\<close>. The batch re-promotes \<open>b.go\<close>
  alone, with a new signature.
\<close>

definition sample_row :: "string \<Rightarrow> string \<Rightarrow> node_rec" where
  "sample_row name path =
     \<lparr>nd_repo_id = ''r'', nd_language = ''go'', nd_kind = ''function'', nd_symbol_path = name, nd_file_path = path,
      nd_line_start = None, nd_line_end = None, nd_content_hash = [], nd_structural_hash = None, nd_last_promoted_at = 1,
      nd_actor_id = ''s'', nd_actor_kind = ActorKindSystem, nd_signature = Some ''func()'', nd_snippet = None,
      nd_prev_signature = None, nd_exported = None\<rparr>"

definition sample_tables :: graph_tables where
  "sample_tables =
     \<lparr>gb_repos = [(''r'', \<lparr>rp_root_path = None, rp_module_path = None, rp_last_promoted_sha = None, rp_active_branch = None\<rparr>)],
      gb_nodes = [((''a'', ''m''), sample_row ''A'' ''a.go''), ((''b'', ''m''), sample_row ''B'' ''b.go'')],
      gb_edges = [((''e'', ''m''), \<lparr>er_edge_id = ''e'', er_repo_id = ''r'', er_branch = ''m'', er_kind = EdgeCalls,
                    er_src_node_id = ''a'', er_dst_node_id = ''b'', ex_confidence = ''probable'', ex_last_promoted_at = 1,
                    ex_src_line = None, ex_score = None\<rparr>)],
      gb_stubs = [], gb_imports = [], gb_queue = [], gb_seq = 0, gb_embed_refs = [], gb_fts_words = [], gb_fts_trigrams = []\<rparr>"

definition sample_node :: Node where
  "sample_node =
     \<lparr>n_ID = ''b'', n_Path = ''b.go'', n_Name = ''B'', n_Kind = ''function'', n_Signature = Some ''func(int)'',
      n_Lines = None, n_RawContent = None, n_ContentHash = None, n_StructuralHash = None, n_Language = Some ''go'',
      n_Exported = Some True, n_External = None, n_ShortSummary = None\<rparr>"

definition sample_batch :: PromotionBatch where
  "sample_batch =
     \<lparr>pb_RepoID = ''r'', pb_Branch = ''m'', pb_GitSHA = ''c'', pb_Actor = \<lparr>a_ID = ''s'', a_Kind = ActorKindSystem\<rparr>,
      pb_PromotedAt = 2,
      pb_Files = [\<lparr>pmf_Path = ''b.go'', pmf_Nodes = [Some sample_node], pmf_Edges = [], pmf_UnresolvedCalls = [],
                   pmf_Imports = []\<rparr>]\<rparr>"

definition sample_store :: PromotionStore where
  "sample_store = NewPromotionStore [embedRefSink, ftsSink] []"

lemma sample_tables_ok: "tables_ok sample_tables"
  by (simp add: tables_ok_def sample_tables_def edge_rooted_def has_node_def gm_wf_def)

lemma sample_promotes:
  obtains db' ids where "PromotionStore_Promote (\<lambda>_. None) sample_store sample_tables sample_batch = (db', None, ids)"
proof -
  have "fst (snd (PromotionStore_Promote (\<lambda>_. None) sample_store sample_tables sample_batch)) = None"
    by code_simp
  then show thesis using that by (metis prod.collapse)
qed

text \<open>The same file with a second function, which the first one calls.\<close>

definition calling_batch :: PromotionBatch where
  "calling_batch = sample_batch\<lparr>pb_Files :=
     [\<lparr>pmf_Path = ''b.go'', pmf_Nodes = [Some sample_node, Some (sample_node\<lparr>n_ID := ''c'', n_Name := ''C''\<rparr>)],
       pmf_Edges = [],
       pmf_UnresolvedCalls = [\<lparr>uc_CallerID = ''b'', uc_CalleeName = ''C'', uc_PkgQualifier = [], uc_IsMethodCall = False,
                               uc_SrcLine = 3, uc_EdgeKind = []\<rparr>],
       pmf_Imports = []\<rparr>]\<rparr>"

declare edgeID_def [code del]

lemma calling_promotes:
  obtains db' ids where "PromotionStore_Promote (\<lambda>_. None) sample_store sample_tables calling_batch = (db', None, ids)"
proof -
  have "fst (snd (PromotionStore_Promote (\<lambda>_. None) sample_store sample_tables calling_batch)) = None"
    by code_simp
  then show thesis using that by (metis prod.collapse)
qed

declare edgeID_def [code]

section \<open>Properties\<close>

text \<open>
  C3. After a promotion that reports success, the nodes table is, row by row, what replacing the
  files of the batch specifies.
\<close>

theorem promote_rows_exact:
  assumes "tables_ok db" and "ids_in_place b (gb_nodes db)"
    and "PromotionStore_Promote fault s db b = (db', None, ids)"
  shows "map_of (gb_nodes db') = promoted_row b (pb_Files b) (gb_nodes db)"
  using assms by (rule promote_rows)

theorem promote_rows_exact_witness:
  "\<exists>db' ids. PromotionStore_Promote (\<lambda>_. None) sample_store sample_tables sample_batch = (db', None, ids)
    \<and> map_of (gb_nodes db') (''a'', ''m'') = Some (sample_row ''A'' ''a.go'')
    \<and> map_option nd_prev_signature (map_of (gb_nodes db') (''b'', ''m'')) = Some (Some ''func()'')"
proof -
  obtain db' ids where p: "PromotionStore_Promote (\<lambda>_. None) sample_store sample_tables sample_batch = (db', None, ids)"
    using sample_promotes .
  have "ids_in_place sample_batch (gb_nodes sample_tables)" by code_simp
  note rows = promote_rows_exact [OF sample_tables_ok this p]
  have "promoted_row sample_batch (pb_Files sample_batch) (gb_nodes sample_tables) (''a'', ''m'') = Some (sample_row ''A'' ''a.go'')"
    "map_option nd_prev_signature (promoted_row sample_batch (pb_Files sample_batch) (gb_nodes sample_tables) (''b'', ''m''))
      = Some (Some ''func()'')"
    by code_simp+
  then show ?thesis using p rows by auto
qed

text \<open>
  C4. The edges of the branch after a successful promotion. An old edge none of whose ends lies in a
  file of the batch is as it was. Every other edge is a row the batch writes: an edge one of its
  files declares, or a call of one of its files bound to a symbol of the name the call refers to.
  So the calls from unchanged files into a promoted file are gone. And no declared edge and no call
  to a symbol of the same package in the batch is missing.
\<close>

theorem promote_edges_exact:
  assumes "tables_ok db" and "PromotionStore_Promote fault s db b = (db', None, ids)"
  shows "(case surviving_edge b db x of
       Some e \<Rightarrow> map_of (gb_edges db') (x, pb_Branch b) = Some e
     | None \<Rightarrow> (\<forall>er. map_of (gb_edges db') (x, pb_Branch b) = Some er \<longrightarrow> written_edge b (gb_nodes db') x er))
    \<and> (required_edge b x \<longrightarrow> map_of (gb_edges db') (x, pb_Branch b) \<noteq> None)"
  using assms by (rule promote_edges)

lemma calling_batch_edges: "written_edge calling_batch N x er \<Longrightarrow> length x = 32"
  by (auto simp: written_edge_def calling_batch_def sample_batch_def buildCallEdge_def NewEdge_def blank_edge_def edgeID_def
      WithConfidence_def WithSourceLine_def split: sum.splits if_splits)

theorem promote_edges_exact_witness:
  "\<exists>db' ids. PromotionStore_Promote (\<lambda>_. None) sample_store sample_tables calling_batch = (db', None, ids)
    \<and> map_of (gb_edges sample_tables) (''e'', ''m'') \<noteq> None \<and> map_of (gb_edges db') (''e'', ''m'') = None
    \<and> map_of (gb_edges db') (edgeID ''b'' EdgeCalls ''c'', ''m'') \<noteq> None"
proof -
  obtain db' ids where p: "PromotionStore_Promote (\<lambda>_. None) sample_store sample_tables calling_batch = (db', None, ids)"
    using calling_promotes .
  note edges = promote_edges_exact [OF sample_tables_ok p]
  have m: "pb_Branch calling_batch = ''m''" by (simp add: calling_batch_def sample_batch_def)
  have old: "map_of (gb_edges sample_tables) (''e'', ''m'') \<noteq> None" "surviving_edge calling_batch sample_tables ''e'' = None"
    by code_simp+
  have "\<not> written_edge calling_batch (gb_nodes db') ''e'' er" for er using calling_batch_edges [of _ "''e''" er] by fastforce
  then have "map_of (gb_edges db') (''e'', ''m'') = None" using edges [of "''e''"] old(2) by (auto simp: m)
  moreover have "required_edge calling_batch (edgeID ''b'' EdgeCalls ''c'')"
    by (simp add: required_edge_def calling_batch_def sample_batch_def sample_node_def buildPackageSymbolMap_def symbol_map_def
        put_names_def gomap_simps buildCallEdge_def NewEdge_def ucEdgeKind_def EdgeCalls_def validEdgeKinds_def blank_edge_def
        WithConfidence_def WithSourceLine_def Probable_def Unresolved_def Definite_def)
  ultimately show ?thesis using p old(1) edges [of "edgeID ''b'' EdgeCalls ''c''"] by (simp add: m)
qed

text \<open>Whatever statement fails, and when none does, no edge and no stub dangles and keys stay unique.\<close>

lemma promote_keeps_integrity:
  assumes "tables_ok db"
  shows "tables_ok (fst (PromotionStore_Promote fault s db b))"
  using assms by (rule integrity.promotion_keeps)

text \<open>A row of the branch that lies outside the files of the batch, and that stays as it is.\<close>

definition outside_row :: "PromotionBatch \<Rightarrow> node_rec \<Rightarrow> bool" where
  "outside_row b row \<longleftrightarrow> \<not> (nd_repo_id row = pb_RepoID b \<and> nd_file_path row \<in> pmf_Path ` set (pb_Files b))"

definition outside_node :: "PromotionBatch \<Rightarrow> graph_tables \<Rightarrow> string \<Rightarrow> bool" where
  "outside_node b db x \<longleftrightarrow> (\<forall>row. map_of (gb_nodes db) (x, pb_Branch b) = Some row \<longrightarrow> outside_row b row)"

lemma outside_node_clear: "has_node db (x, pb_Branch b) \<Longrightarrow> outside_node b db x \<Longrightarrow> clear_node b db x"
  by (auto simp: outside_node_def outside_row_def clear_node_def has_node_def)

lemma clear_untouched:
  assumes "gm_wf (gb_nodes db)" and "clear_node b db (er_src_node_id e)" "clear_node b db (er_dst_node_id e)"
  shows "\<not> (\<exists>f \<in> set (pb_Files b). touched_by b (pmf_Path f) db e)"
  using clear_node_delete(2) [OF assms(1)] assms(2,3) by (auto simp: touched_by_def)

interpretation kept_row: graph_files b "\<lambda>db. gm_wf (gb_nodes db) \<and> outside_row b row \<and> map_of (gb_nodes db) (x, pb_Branch b) = Some row" for b x row
proof unfold_locales
  fix db :: graph_tables assume k: "gm_wf (gb_nodes db) \<and> outside_row b row \<and> map_of (gb_nodes db) (x, pb_Branch b) = Some row"
  show "gm_wf (gb_nodes db') \<and> outside_row b row \<and> map_of (gb_nodes db') (x, pb_Branch b) = Some row"
    if "gb_edges db' = gb_edges db \<and> gb_nodes db' = gb_nodes db \<and> gb_stubs db' = gb_stubs db" for db' :: graph_tables
    using k that by simp
  show "gm_wf (gb_nodes (db\<lparr>gb_nodes := gb_nodes db @ [((y, pb_Branch b), r)]\<rparr>)) \<and> outside_row b row
      \<and> map_of (gb_nodes (db\<lparr>gb_nodes := gb_nodes db @ [((y, pb_Branch b), r)]\<rparr>)) (x, pb_Branch b) = Some row"
    if "map_of (gb_nodes db) (y, pb_Branch b) = None" for y r
    using k that by (simp add: gm_wf_snoc map_add_def)
  show "gm_wf (gb_nodes (delete_file_nodes q (pb_Branch b) (pb_RepoID b) db)) \<and> outside_row b row
      \<and> map_of (gb_nodes (delete_file_nodes q (pb_Branch b) (pb_RepoID b) db)) (x, pb_Branch b) = Some row"
    if "q \<in> pmf_Path ` set (pb_Files b)" for q
    using k that by (auto simp: gm_wf_delete delete_file_nodes_def Let_def gm_get_filter_row in_file_def outside_row_def)
qed

interpretation kept_stub: promotion_later b "\<lambda>db. map_of (gb_stubs db) (x, pb_Branch b) = Some st" for b x st
proof unfold_locales
  fix db :: graph_tables assume k: "map_of (gb_stubs db) (x, pb_Branch b) = Some st"
  show "map_of (gb_stubs db') (x, pb_Branch b) = Some st" if "insert_edge_row k er db = Inr db'" for k er db'
    using k that by (auto simp: insert_edge_row_def split: if_splits)
  show "map_of (gb_stubs db') (x, pb_Branch b) = Some st" if "insert_stub_row k sr db = Inr db'" for k sr db'
    using k that by (auto simp: insert_stub_row_def gomap_simps split: if_splits)
qed (simp_all add: enqueue_row_def Let_def)

lemma promote_stages:
  obtains "fst (PromotionStore_Promote fault s db b) = db"
  | p p1 p' where "held b s (\<lambda>d. d = db) p" "for_r (promoteFile fault) (pb_Files b) p = Inr p1"
    "apply_opts (tl (phases fault)) p1 = Inr p'" "fst (PromotionStore_Promote fault s db b) = pn_tx p'"
proof (cases rule: Promote_cases [of fault s db b])
  case (2 root modl p p' ids)
  obtain p1 where p1: "promoteFiles fault p = Inr p1" "apply_opts (tl (phases fault)) p1 = Inr p'"
    using phases_first [OF 2(3)] .
  show thesis by (rule that(2) [of p p1 p']) (use newPromotion_start [OF 2(2)] p1 2(7) in \<open>simp_all add: held_def promoteFiles_def\<close>)
qed (use that(1) in simp)

lemma outside_rows_kept:
  assumes ok: "tables_ok db" and row: "map_of (gb_nodes db) (x, pb_Branch b) = Some row" "outside_row b row"
  shows "map_of (gb_nodes (fst (PromotionStore_Promote fault s db b))) (x, pb_Branch b) = Some row"
proof (cases rule: promote_stages [of fault s db b])
  case (2 p p1 p')
  have "held b s (\<lambda>db. gm_wf (gb_nodes db) \<and> outside_row b row \<and> map_of (gb_nodes db) (x, pb_Branch b) = Some row) p"
    using 2(1) row tables_okD(1) [OF ok] by (simp add: held_def)
  then have h: "held b s (\<lambda>db. gm_wf (gb_nodes db) \<and> outside_row b row \<and> map_of (gb_nodes db) (x, pb_Branch b) = Some row) p1"
    by (rule for_r_keeps [OF 2(2)]) (rule kept_row.keep_file)
  then have "held b s (\<lambda>db. gb_nodes db = gb_nodes (pn_tx p1)) p'"
    by (intro same_nodes.keep_later_phases [OF _ 2(3)]) (simp add: held_def)
  then show ?thesis using h 2(4) by (simp add: held_def)
qed (use row in simp)

lemma outside_edges_kept:
  assumes ok: "tables_ok db" and e: "map_of (gb_edges db) (x, pb_Branch b) = Some e"
    and ends: "outside_node b db (er_src_node_id e)" "outside_node b db (er_dst_node_id e)"
  shows "map_of (gb_edges (fst (PromotionStore_Promote fault s db b))) (x, pb_Branch b) = Some e"
proof -
  have "edge_rooted db (x, pb_Branch b) e" using tables_okD(5) [OF ok map_of_SomeD [OF e]] .
  then have "\<not> (\<exists>f \<in> set (pb_Files b). touched_by b (pmf_Path f) db e)"
    using ends by (intro clear_untouched tables_okD(1) [OF ok] outside_node_clear) (simp_all add: edge_rooted_def)
  then have s: "surviving_edge b db x = Some e" using e by (simp add: surviving_edge_def)
  obtain db' err ids where r: "PromotionStore_Promote fault s db b = (db', err, ids)" by (cases "PromotionStore_Promote fault s db b")
  show ?thesis
  proof (cases err)
    case None
    then show ?thesis using promote_edges [OF ok, of fault s b db' ids x] r s by simp
  next
    case (Some er)
    then show ?thesis using r e by (cases rule: Promote_cases [of fault s db b]) auto
  qed
qed

lemma outside_stubs_kept:
  assumes ok: "tables_ok db" and st: "map_of (gb_stubs db) (x, pb_Branch b) = Some st" and src: "outside_node b db (sb_src_node_id st)"
  shows "map_of (gb_stubs (fst (PromotionStore_Promote fault s db b))) (x, pb_Branch b) = Some st"
proof (cases rule: promote_stages [of fault s db b])
  case (2 p p1 p')
  have "has_node db (sb_src_node_id st, pb_Branch b)" using tables_okD(6) [OF ok map_of_SomeD [OF st]] by simp
  then have "clear_stub b x st db"
    using outside_node_clear [OF _ src] st tables_okD(1,3) [OF ok] by (simp add: clear_stub_def)
  then have "held b s (clear_stub b x st) p" using 2(1) by (simp add: held_def)
  then have "held b s (clear_stub b x st) p1" by (rule for_r_keeps [OF 2(2)]) (rule clear_stubs.keep_file)
  then have "held b s (\<lambda>db. map_of (gb_stubs db) (x, pb_Branch b) = Some st) p1" by (simp add: held_def clear_stub_def)
  then have "held b s (\<lambda>db. map_of (gb_stubs db) (x, pb_Branch b) = Some st) p'" using 2(3) by (rule kept_stub.keep_later_phases)
  then show ?thesis using 2(4) by (simp add: held_def)
qed (use st in simp)

text \<open>
  C5. What lies outside a batch is not touched, whatever statement of the promotion fails and when
  none does. Other scopes: the nodes of other repositories and branches, the edges and stubs of
  other branches, the imports and search rows of other scopes, the rows of other repositories, the
  embedding references of nodes the batch does not hold and the work already queued are as before.
  The same branch: every node outside the files of the batch, every edge between such nodes and
  every stub at such a node is as before, of whatever repository.
\<close>

theorem promote_isolated:
  assumes "tables_ok db" and "fst (PromotionStore_Promote fault s db b) = db'"
  shows "outside_batch b db db'
    \<and> (map_of (gb_nodes db) (x, pb_Branch b) = Some row \<and> outside_row b row \<longrightarrow> map_of (gb_nodes db') (x, pb_Branch b) = Some row)
    \<and> (map_of (gb_edges db) (x, pb_Branch b) = Some e \<and> outside_node b db (er_src_node_id e) \<and> outside_node b db (er_dst_node_id e)
        \<longrightarrow> map_of (gb_edges db') (x, pb_Branch b) = Some e)
    \<and> (map_of (gb_stubs db) (x, pb_Branch b) = Some st \<and> outside_node b db (sb_src_node_id st)
        \<longrightarrow> map_of (gb_stubs db') (x, pb_Branch b) = Some st)"
  unfolding assms(2) [symmetric]
proof (intro conjI impI)
  show "outside_batch b db (fst (PromotionStore_Promote fault s db b))"
    by (rule isolation.promotion_keeps) (simp add: outside_batch_def)
qed (use assms(1) in \<open>auto intro: outside_rows_kept outside_edges_kept outside_stubs_kept\<close>)

theorem promote_isolated_witness:
  "\<exists>db' ids. PromotionStore_Promote (\<lambda>_. None) sample_store sample_tables calling_batch = (db', None, ids)
    \<and> outside_batch calling_batch sample_tables db'
    \<and> map_of (gb_nodes db') (''a'', ''m'') = Some (sample_row ''A'' ''a.go'')"
proof -
  obtain db' ids where p: "PromotionStore_Promote (\<lambda>_. None) sample_store sample_tables calling_batch = (db', None, ids)"
    using calling_promotes .
  have "pb_Branch calling_batch = ''m''" "map_of (gb_nodes sample_tables) (''a'', ''m'') = Some (sample_row ''A'' ''a.go'')"
    "outside_row calling_batch (sample_row ''A'' ''a.go'')"
    by (simp_all add: calling_batch_def sample_batch_def sample_tables_def outside_row_def sample_row_def)
  then show ?thesis
    using p promote_isolated [OF sample_tables_ok, of "\<lambda>_. None" sample_store calling_batch db' "''a''"] by fastforce
qed

section \<open>The promoter over the store\<close>

definition sqlite_store :: "faults \<Rightarrow> PromotionStore \<Rightarrow> graph_tables \<Rightarrow> PromotionBatch \<Rightarrow> graph_tables \<times> err option" where
  "sqlite_store fault s db batch = (let (db', err, ids) = PromotionStore_Promote fault s db batch in (db', err))"

definition disjoint_ids :: "PromotionBatch \<Rightarrow> bool" where
  "disjoint_ids b \<longleftrightarrow> (\<forall>f \<in> set (pb_Files b). \<forall>g \<in> set (pb_Files b). \<forall>n \<in> set (somes (pmf_Nodes f)).
     \<forall>m \<in> set (somes (pmf_Nodes g)). n_ID n = n_ID m \<longrightarrow> pmf_Path f = pmf_Path g)"

lemma promoted_file_ids:
  assumes ok: "ids_in_place b N" and dj: "disjoint_ids b" and f: "f \<in> set (pb_Files b)"
  shows "(\<exists>row. promoted_row b (pb_Files b) N (x, pb_Branch b) = Some row
      \<and> in_file (pmf_Path f) (pb_Branch b) (pb_RepoID b) (x, pb_Branch b) row)
    \<longleftrightarrow> x \<in> n_ID ` set (somes (pmf_Nodes f))"
proof (cases "find (\<lambda>n. (n_ID n, pb_Branch b) = (x, pb_Branch b)) (batch_nodes (pb_Files b))")
  case None
  then have "x \<notin> n_ID ` set (somes (pmf_Nodes f))" using f by (auto simp: find_None_iff batch_nodes_def)
  then show ?thesis using None f by (auto simp: promoted_row_def split: option.splits if_splits)
next
  case (Some n)
  obtain g where g: "g \<in> set (pb_Files b)" "n \<in> set (somes (pmf_Nodes g))"
    using find_SomeD(1) [OF Some] by (auto simp: batch_nodes_def)
  have x: "n_ID n = x" using find_SomeD(2) [OF Some] by simp
  have path: "n_Path n = pmf_Path g" using ok g by (simp add: ids_in_place_def)
  have row: "(\<exists>row. promoted_row b (pb_Files b) N (x, pb_Branch b) = Some row
      \<and> in_file (pmf_Path f) (pb_Branch b) (pb_RepoID b) (x, pb_Branch b) row) \<longleftrightarrow> pmf_Path g = pmf_Path f"
    using Some path by (simp add: promoted_row_def in_file_def node_columns_def)
  have "pmf_Path g = pmf_Path f \<Longrightarrow> g = f"
    using ok f g(1) by (auto simp: ids_in_place_def distinct_map dest: inj_onD)
  then show ?thesis using row g x f dj unfolding disjoint_ids_def by blast
qed

text \<open>
  C2. End to end: when a promotion over the SQLite store succeeds, each staged file's nodes in the
  graph are exactly the staged ones and the scope of the staging area is empty. The identities
  staged for a file must not be those of another file, in the batch or in the graph.
\<close>

theorem staged_files_reach_the_graph:
  assumes wf: "area_wf (pm_staging p)" and ok: "tables_ok (pm_db p)"
    and store: "pm_store p = sqlite_store fault s" and checks: "pm_checks p = None"
    and ids: "ids_in_place (promotion_batch r b sha a now (Snapshot (pm_staging p) r b)) (gb_nodes (pm_db p))"
      "disjoint_ids (promotion_batch r b sha a now (Snapshot (pm_staging p) r b))"
    and run: "Promote id now p r b sha a = (p', None)"
    and staged: "area_get (pm_staging p) (mk_key r b path) = Some entry"
  shows "((\<exists>row. map_of (gb_nodes (pm_db p')) (x, b) = Some row \<and> in_file path b r (x, b) row)
      \<longleftrightarrow> x \<in> n_ID ` set (somes (sf_Nodes (file_of entry))))
    \<and> area_get (pm_staging p') (mk_key r b path) = None"
proof
  let ?batch = "promotion_batch r b sha a now (Snapshot (pm_staging p) r b)"
  obtain d' e i where st: "PromotionStore_Promote fault s (pm_db p) ?batch = (d', e, i)" by (metis prod_cases3)
  have "pm_store p (pm_db p) ?batch = (d', e)" by (simp add: store sqlite_store_def st)
  moreover from this have e: "e = None" using run Promote_error [of p r b sha a now d' _ id] by (cases e) auto
  ultimately have acc: "pm_store p (pm_db p) ?batch = (d', None)" by simp
  show "area_get (pm_staging p') (mk_key r b path) = None"
    using Promote_drains [OF wf acc run] by (simp add: in_scope_def mk_key_def)
  have "pm_db p' = d'" using Promote_staging [OF acc, of id] run checks by (cases p) auto
  then have rows: "map_of (gb_nodes (pm_db p')) = promoted_row ?batch (pb_Files ?batch) (gb_nodes (pm_db p))"
    using promote_rows [OF ok ids(1)] st e by simp
  have f: "promotion_file path (file_of entry) \<in> set (pb_Files ?batch)"
    using batch_files_exact(2) [OF wf] staged by (auto simp: promotion_file_def)
  show "(\<exists>row. map_of (gb_nodes (pm_db p')) (x, b) = Some row \<and> in_file path b r (x, b) row)
      \<longleftrightarrow> x \<in> n_ID ` set (somes (sf_Nodes (file_of entry)))"
    using promoted_file_ids [OF ids f, of x] rows by (simp add: promotion_file_def promotion_batch_def)
qed

definition sample_promoter :: "graph_tables Promoter" where
  "sample_promoter = NewPromoter (fst (Stage NewArea ''r'' ''m'' ''b.go'' (empty_file\<lparr>sf_Nodes := [Some sample_node]\<rparr>) []))
     sample_tables (sqlite_store (\<lambda>_. None) sample_store) []"

theorem staged_files_reach_the_graph_witness:
  "\<exists>p' row. Promote id 2 sample_promoter ''r'' ''m'' ''c'' sample_actor = (p', None)
    \<and> map_of (gb_nodes (pm_db p')) (''b'', ''m'') = Some row \<and> nd_file_path row = ''b.go''"
proof -
  let ?new = "empty_file\<lparr>sf_Nodes := [Some sample_node]\<rparr>"
  have "snd (Promote id 2 sample_promoter ''r'' ''m'' ''c'' sample_actor) = None" by code_simp
  then obtain p' where run: "Promote id 2 sample_promoter ''r'' ''m'' ''c'' sample_actor = (p', None)"
    by (metis prod.collapse)
  have st: "pm_staging sample_promoter = area_put NewArea (mk_key ''r'' ''m'' ''b.go'') (entry_of ?new)"
    "pm_db sample_promoter = sample_tables" "pm_checks sample_promoter = None"
    "pm_store sample_promoter = sqlite_store (\<lambda>_. None) sample_store"
    by (simp_all add: sample_promoter_def NewPromoter_def Stage_unguarded)
  have wf: "area_wf (pm_staging sample_promoter)" by (simp add: st overlay.wf_put)
  have "ids_in_place (promotion_batch ''r'' ''m'' ''c'' sample_actor 2 (Snapshot (pm_staging sample_promoter) ''r'' ''m'')) (gb_nodes (pm_db sample_promoter))
    \<and> disjoint_ids (promotion_batch ''r'' ''m'' ''c'' sample_actor 2 (Snapshot (pm_staging sample_promoter) ''r'' ''m''))"
    by code_simp
  then have "\<exists>row. map_of (gb_nodes (pm_db p')) (''b'', ''m'') = Some row \<and> in_file ''b.go'' ''m'' ''r'' (''b'', ''m'') row"
    using staged_files_reach_the_graph [OF wf _ st(4,3) _ _ run, of "''b.go''" "entry_of ?new" "''b''"]
    by (simp add: st(1,2) sample_tables_ok overlay.get_put sample_node_def)
  then show ?thesis using run by (auto simp: in_file_def)
qed

end
