(* ===== verification/Revalidate.thy ===== *)
theory Revalidate
  imports Checks Work_Queue
begin

text \<open>
  \<open>internal/core/ports/revalidate.go\<close>, \<open>internal/application/revalidate\<close> and
  \<open>internal/infrastructure/sqlite/revalidate_repo.go\<close>: the post-promotion sweep of findings
  whose anchor drifted. \<open>Decide\<close> is the rule dispatch; it reads the graph through a
  \<open>PredicateSource\<close>, for which the locale \<open>predicate_source\<close> states what the answers mean. The
  locale is interpreted on the SQL adapter.
\<close>

section \<open>Ports\<close>

type_synonym DecisionKind = "8 word"

definition DecisionRefresh :: DecisionKind where "DecisionRefresh = 1"
definition DecisionClose :: DecisionKind where "DecisionClose = 2"

lemma DecisionKind_differ [simp]: "DecisionRefresh \<noteq> DecisionClose" "DecisionClose \<noteq> DecisionRefresh"
  by (simp_all add: DecisionRefresh_def DecisionClose_def)

record FindingDecision =
  fd_FindingID :: string
  fd_Kind :: DecisionKind
  fd_NewHash :: string

record StaleFinding =
  sf_FindingID :: string
  sf_NodeID :: string
  sf_Rule :: string
  sf_AnchorHash :: string
  sf_CurrentHash :: string

record PredicateSource =
  ps_HasInboundCallEdges :: "string \<Rightarrow> string \<Rightarrow> string \<Rightarrow> bool result"
  ps_NodeSignaturePair :: "string \<Rightarrow> string \<Rightarrow> string \<Rightarrow> (string \<times> string) result"
  ps_HasTestCaller :: "string \<Rightarrow> string \<Rightarrow> string \<Rightarrow> bool result"

record 'd RevalidateQuerier =
  rq_StaleFindingsForFile :: "'d \<Rightarrow> string \<Rightarrow> string \<Rightarrow> string \<Rightarrow> StaleFinding list result"
  rq_predicates :: "'d \<Rightarrow> PredicateSource"
  rq_ApplyDecisions :: "'d \<Rightarrow> string \<Rightarrow> string \<Rightarrow> FindingDecision list \<Rightarrow> int \<Rightarrow> 'd \<times> err option"

section \<open>The rule dispatch\<close>

definition ruleDeadCode :: string where "ruleDeadCode = ''dead-code''"
definition ruleContractDrift :: string where "ruleContractDrift = ''contract-drift''"
definition ruleUntestedSymbol :: string where "ruleUntestedSymbol = ''untested-symbol''"

definition close_of :: "StaleFinding \<Rightarrow> FindingDecision" where
  "close_of s = \<lparr>fd_FindingID = sf_FindingID s, fd_Kind = DecisionClose, fd_NewHash = []\<rparr>"

definition refresh_of :: "StaleFinding \<Rightarrow> FindingDecision" where
  "refresh_of s = \<lparr>fd_FindingID = sf_FindingID s, fd_Kind = DecisionRefresh, fd_NewHash = sf_CurrentHash s\<rparr>"

definition Decide :: "string \<Rightarrow> string \<Rightarrow> StaleFinding \<Rightarrow> PredicateSource \<Rightarrow> FindingDecision result" where
  "Decide repoID branch s src =
     (if sf_Rule s = ruleDeadCode then
        (case ps_HasInboundCallEdges src repoID branch (sf_NodeID s) of
           Inl e \<Rightarrow> Inl (Wrap ''revalidate.Decide: inbound edges for %q: %w'' [sf_FindingID s] e)
         | Inr hasIn \<Rightarrow> Inr (if hasIn then close_of s else refresh_of s))
      else if sf_Rule s = ruleContractDrift then
        (case ps_NodeSignaturePair src repoID branch (sf_NodeID s) of
           Inl e \<Rightarrow> Inl (Wrap ''revalidate.Decide: signature pair for %q: %w'' [sf_FindingID s] e)
         | Inr (prev, cur) \<Rightarrow> Inr (if prev \<noteq> [] \<and> prev \<noteq> cur then refresh_of s else close_of s))
      else if sf_Rule s = ruleUntestedSymbol then
        (case ps_HasTestCaller src repoID branch (sf_NodeID s) of
           Inl e \<Rightarrow> Inl (Wrap ''revalidate.Decide: test caller for %q: %w'' [sf_FindingID s] e)
         | Inr hasTest \<Rightarrow> Inr (if hasTest then close_of s else refresh_of s))
      else Inr (close_of s))"

section \<open>The handler\<close>

definition ErrMissingDependency_revalidate :: err where
  "ErrMissingDependency_revalidate = Errs ''revalidate: missing required dependency''"

text \<open>The two counters a handler may bump; a nil counter stays nil.\<close>

record reval_metrics =
  rm_refreshed :: "nat option"
  rm_closed :: "nat option"

record 'd reval_Handler =
  rh_repo :: "'d RevalidateQuerier"
  rh_clock :: "unit \<Rightarrow> int"
  rh_metrics :: "reval_metrics option"

type_synonym 'd reval_Option = "'d reval_Handler \<Rightarrow> 'd reval_Handler"

definition WithClock :: "(unit \<Rightarrow> int) option \<Rightarrow> 'd reval_Option" where
  "WithClock c h = (case c of None \<Rightarrow> h | Some f \<Rightarrow> h\<lparr>rh_clock := f\<rparr>)"

definition WithMetrics :: "reval_metrics option \<Rightarrow> 'd reval_Option" where
  "WithMetrics m h = h\<lparr>rh_metrics := m\<rparr>"

definition reval_NewHandler ::
  "(unit \<Rightarrow> int) \<Rightarrow> 'd RevalidateQuerier option \<Rightarrow> 'd reval_Option list \<Rightarrow> 'd reval_Handler result" where
  "reval_NewHandler time_now repo opts =
     (case repo of
        None \<Rightarrow> Inl (Wrap ''revalidate.NewHandler: repo is nil: %w'' [] ErrMissingDependency_revalidate)
      | Some r \<Rightarrow> Inr (foldl (\<lambda>h opt. opt h) \<lparr>rh_repo = r, rh_clock = time_now, rh_metrics = None\<rparr> opts))"

definition bump :: "nat \<Rightarrow> nat option \<Rightarrow> nat option" where
  "bump n c = (if n > 0 then map_option (\<lambda>x. x + n) c else c)"

definition reval_decide :: "'d reval_Handler \<Rightarrow> 'd \<Rightarrow> WorkRow \<Rightarrow> StaleFinding \<Rightarrow> FindingDecision result" where
  "reval_decide h d row s = Decide (wr_RepoID row) (wr_Branch row) s (rq_predicates (rh_repo h) d)"

definition reval_Handle ::
  "'d reval_Handler \<Rightarrow> 'd \<Rightarrow> WorkRow \<Rightarrow> 'd \<times> reval_metrics option \<times> err option" where
  "reval_Handle h d row =
     (if wr_Kind row \<noteq> WorkKindRevalidate
      then (d, rh_metrics h, Some (Errorf ''revalidate.Handle: unexpected kind %q'' [wr_Kind row]))
      else let filePath = wr_Payload row
      in if filePath = [] then (d, rh_metrics h, None)
      else case rq_StaleFindingsForFile (rh_repo h) d (wr_RepoID row) (wr_Branch row) filePath of
        Inl e \<Rightarrow> (d, rh_metrics h, Some (Wrap ''revalidate.Handle: stale findings for %q: %w'' [filePath] e))
      | Inr stale \<Rightarrow>
          if stale = [] then (d, rh_metrics h, None)
          else let at = rh_clock h ()
               in case map_r (reval_decide h d row) stale of
                    Inl e \<Rightarrow> (d, rh_metrics h, Some e)
                  | Inr decisions \<Rightarrow>
                      let refreshed = length (filter (\<lambda>x. fd_Kind x = DecisionRefresh) decisions);
                          closed = length (filter (\<lambda>x. fd_Kind x \<noteq> DecisionRefresh) decisions)
                      in case rq_ApplyDecisions (rh_repo h) d (wr_RepoID row) (wr_Branch row) decisions at of
                           (d', Some e) \<Rightarrow>
                             (d', rh_metrics h,
                              Some (Wrap ''revalidate.Handle: apply decisions on %q: %w'' [filePath] e))
                         | (d', None) \<Rightarrow>
                             (d', map_option (\<lambda>m. m\<lparr>rm_refreshed := bump refreshed (rm_refreshed m),
                                                    rm_closed := bump closed (rm_closed m)\<rparr>) (rh_metrics h),
                              None))"

section \<open>The SQL adapter\<close>

record node_row =
  nw_node_id :: string
  nw_branch :: string
  nw_repo_id :: string
  nw_file_path :: string
  nw_content_hash :: string
  nw_prev_signature :: "string option"
  nw_signature :: "string option"

record graph_db =
  db_findings :: findings_table
  db_nodes :: "node_row list"
  db_edges :: "edge_row list"

text \<open>The row of the join of \<open>findings\<close> and \<open>nodes\<close>, when the pair is stale in the scope.\<close>

definition stale_pair ::
  "string \<Rightarrow> string \<Rightarrow> string \<Rightarrow> (string \<times> string) \<times> finding_row \<Rightarrow> node_row \<Rightarrow> StaleFinding option" where
  "stale_pair repoID branch filePath f n =
     (case f of (k, r) \<Rightarrow>
        (case fr_anchor_content_hash r of
           None \<Rightarrow> None
         | Some anchor \<Rightarrow>
             if fr_node_id r = Some (nw_node_id n) \<and> nw_branch n = snd k \<and> nw_repo_id n = fr_repo_id r
                \<and> fr_repo_id r = repoID \<and> snd k = branch \<and> fr_state r = ''open''
                \<and> nw_file_path n = filePath \<and> nw_content_hash n \<noteq> anchor
             then Some \<lparr>sf_FindingID = fst k, sf_NodeID = nw_node_id n, sf_Rule = fr_rule r,
                        sf_AnchorHash = anchor, sf_CurrentHash = nw_content_hash n\<rparr>
             else None))"

definition StaleFindingsForFile ::
  "err option \<Rightarrow> graph_db \<Rightarrow> string \<Rightarrow> string \<Rightarrow> string \<Rightarrow> StaleFinding list result" where
  "StaleFindingsForFile fault db repoID branch filePath =
     (case fault of
        Some e \<Rightarrow> Inl (Wrap ''sqlite.RevalidateRepo.StaleFindingsForFile: query: %w'' [] e)
      | None \<Rightarrow>
          Inr (concat (map (\<lambda>f. somes (map (stale_pair repoID branch filePath f) (db_nodes db))) (db_findings db))))"

definition call_into :: "string \<Rightarrow> string \<Rightarrow> string \<Rightarrow> edge_row \<Rightarrow> bool" where
  "call_into repoID branch nodeID e \<longleftrightarrow>
     er_dst_node_id e = nodeID \<and> er_branch e = branch \<and> er_repo_id e = repoID \<and> er_kind e = ''CALLS''"

definition HasInboundCallEdges :: "err option \<Rightarrow> graph_db \<Rightarrow> string \<Rightarrow> string \<Rightarrow> string \<Rightarrow> bool result" where
  "HasInboundCallEdges fault db repoID branch nodeID =
     (case fault of
        Some e \<Rightarrow> Inl (Wrap ''sqlite.RevalidateRepo.HasInboundCallEdges: %w'' [] e)
      | None \<Rightarrow> Inr (list_ex (call_into repoID branch nodeID) (db_edges db)))"

definition joins_source :: "edge_row \<Rightarrow> node_row \<Rightarrow> bool" where
  "joins_source e n \<longleftrightarrow>
     nw_node_id n = er_src_node_id e \<and> nw_branch n = er_branch e \<and> nw_repo_id n = er_repo_id e"

definition HasTestCaller :: "err option \<Rightarrow> graph_db \<Rightarrow> string \<Rightarrow> string \<Rightarrow> string \<Rightarrow> bool result" where
  "HasTestCaller fault db repoID branch nodeID =
     (case fault of
        Some e \<Rightarrow> Inl (Wrap ''sqlite.RevalidateRepo.HasTestCaller: %w'' [] e)
      | None \<Rightarrow>
          let paths = dedup (concat (map (\<lambda>e. map nw_file_path (filter (joins_source e) (db_nodes db)))
                        (filter (call_into repoID branch nodeID) (db_edges db))))
          in Inr (list_ex IsTestFile paths))"

definition NodeSignaturePair ::
  "err option \<Rightarrow> graph_db \<Rightarrow> string \<Rightarrow> string \<Rightarrow> string \<Rightarrow> (string \<times> string) result" where
  "NodeSignaturePair fault db repoID branch nodeID =
     (case fault of
        Some e \<Rightarrow> Inl (Wrap ''sqlite.RevalidateRepo.NodeSignaturePair: %w'' [] e)
      | None \<Rightarrow>
          (case filter (\<lambda>n. nw_node_id n = nodeID \<and> nw_branch n = branch \<and> nw_repo_id n = repoID) (db_nodes db) of
             [] \<Rightarrow> Inr ([], [])
           | n # _ \<Rightarrow> Inr ((case nw_prev_signature n of Some p \<Rightarrow> p | None \<Rightarrow> []),
                           (case nw_signature n of Some c \<Rightarrow> c | None \<Rightarrow> []))))"

datatype apply_point = ABegin | APrepareRefresh | APrepareClose | AExec nat | ACommit

definition refresh_row :: "string \<Rightarrow> finding_row \<Rightarrow> finding_row" where
  "refresh_row h r = r\<lparr>fr_anchor_content_hash := Some h\<rparr>"

definition reval_close_row :: "int \<Rightarrow> finding_row \<Rightarrow> finding_row" where
  "reval_close_row at r = (close_row at r)\<lparr>fr_actor_id := ''service:veska'', fr_actor_kind := ''system''\<rparr>"

definition decision_hits :: "string \<Rightarrow> string \<Rightarrow> FindingDecision \<Rightarrow> string \<times> string \<Rightarrow> finding_row \<Rightarrow> bool" where
  "decision_hits repoID branch d k r \<longleftrightarrow>
     k = (fd_FindingID d, branch) \<and> fr_repo_id r = repoID \<and> fr_state r = ''open''"

fun apply_loop ::
  "(apply_point \<Rightarrow> err option) \<Rightarrow> string \<Rightarrow> string \<Rightarrow> int \<Rightarrow> nat \<Rightarrow> bool \<Rightarrow> bool
     \<Rightarrow> FindingDecision list \<Rightarrow> findings_table \<Rightarrow> findings_table result" where
  "apply_loop fault repoID branch at i refreshPS closePS [] t = Inr t"
| "apply_loop fault repoID branch at i refreshPS closePS (d # ds) t =
     (if fd_Kind d = DecisionRefresh then
        (case (if refreshPS then None else fault APrepareRefresh) of
           Some e \<Rightarrow> Inl (Wrap ''sqlite.RevalidateRepo.ApplyDecisions: prepare refresh: %w'' [] e)
         | None \<Rightarrow>
             (case fault (AExec i) of
                Some e \<Rightarrow> Inl (Wrap ''sqlite.RevalidateRepo.ApplyDecisions: refresh #%d (%s): %w''
                           [nat_to_string i, fd_FindingID d] e)
              | None \<Rightarrow> apply_loop fault repoID branch at (Suc i) True closePS ds
                  (gm_update_where (decision_hits repoID branch d) (refresh_row (fd_NewHash d)) t)))
      else if fd_Kind d = DecisionClose then
        (case (if closePS then None else fault APrepareClose) of
           Some e \<Rightarrow> Inl (Wrap ''sqlite.RevalidateRepo.ApplyDecisions: prepare close: %w'' [] e)
         | None \<Rightarrow>
             (case fault (AExec i) of
                Some e \<Rightarrow> Inl (Wrap ''sqlite.RevalidateRepo.ApplyDecisions: close #%d (%s): %w''
                           [nat_to_string i, fd_FindingID d] e)
              | None \<Rightarrow> apply_loop fault repoID branch at (Suc i) refreshPS True ds
                  (gm_update_where (decision_hits repoID branch d) (reval_close_row at) t)))
      else Inl (Errorf ''sqlite.RevalidateRepo.ApplyDecisions: decision #%d (%s): unknown kind %d''
                  [nat_to_string i, fd_FindingID d, nat_to_string (unat (fd_Kind d))]))"

definition ApplyDecisions ::
  "(apply_point \<Rightarrow> err option) \<Rightarrow> graph_db \<Rightarrow> string \<Rightarrow> string \<Rightarrow> FindingDecision list \<Rightarrow> int
     \<Rightarrow> graph_db \<times> err option" where
  "ApplyDecisions fault db repoID branch decisions at =
     (if decisions = [] then (db, None)
      else case fault ABegin of
        Some e \<Rightarrow> (db, Some (Wrap ''sqlite.RevalidateRepo.ApplyDecisions: begin: %w'' [] e))
      | None \<Rightarrow>
          (case apply_loop fault repoID branch at 0 False False decisions (db_findings db) of
             Inl e \<Rightarrow> (db, Some e)
           | Inr t \<Rightarrow>
               (case fault ACommit of
                  Some e \<Rightarrow> (db, Some (Wrap ''sqlite.RevalidateRepo.ApplyDecisions: commit: %w'' [] e))
                | None \<Rightarrow> (db\<lparr>db_findings := t\<rparr>, None))))"

text \<open>The adapter as an implementation of the port.\<close>

definition sql_predicates :: "err option \<Rightarrow> graph_db \<Rightarrow> PredicateSource" where
  "sql_predicates fault db =
     \<lparr>ps_HasInboundCallEdges = HasInboundCallEdges fault db,
      ps_NodeSignaturePair = NodeSignaturePair fault db,
      ps_HasTestCaller = HasTestCaller fault db\<rparr>"

definition RevalidateRepo ::
  "err option \<Rightarrow> err option \<Rightarrow> (apply_point \<Rightarrow> err option) \<Rightarrow> graph_db RevalidateQuerier" where
  "RevalidateRepo stale_fault pred_fault apply_fault =
     \<lparr>rq_StaleFindingsForFile = StaleFindingsForFile stale_fault,
      rq_predicates = sql_predicates pred_fault,
      rq_ApplyDecisions = ApplyDecisions apply_fault\<rparr>"

section \<open>What the predicates mean\<close>

text \<open>
  Whether the rule of a stale finding fires on the current graph, given the calls into a node,
  the drift of its signature and its test callers. A rule without a re-run path never fires.
\<close>

definition still_fires ::
  "(string \<Rightarrow> string \<Rightarrow> string \<Rightarrow> bool) \<Rightarrow> (string \<Rightarrow> string \<Rightarrow> string \<Rightarrow> bool) \<Rightarrow> (string \<Rightarrow> string \<Rightarrow> string \<Rightarrow> bool)
     \<Rightarrow> string \<Rightarrow> string \<Rightarrow> StaleFinding \<Rightarrow> bool" where
  "still_fires calls drifts tested repoID branch s \<longleftrightarrow>
     sf_Rule s = ''dead-code'' \<and> \<not> calls repoID branch (sf_NodeID s)
     \<or> sf_Rule s = ''contract-drift'' \<and> drifts repoID branch (sf_NodeID s)
     \<or> sf_Rule s = ''untested-symbol'' \<and> \<not> tested repoID branch (sf_NodeID s)"

locale predicate_source =
  fixes src :: PredicateSource
    and calls drifts tested :: "string \<Rightarrow> string \<Rightarrow> string \<Rightarrow> bool"
  assumes inbound: "ps_HasInboundCallEdges src r b n = Inr (calls r b n)"
    and signatures: "\<exists>p c. ps_NodeSignaturePair src r b n = Inr (p, c) \<and> drifts r b n = (p \<noteq> [] \<and> p \<noteq> c)"
    and test_caller: "ps_HasTestCaller src r b n = Inr (tested r b n)"
begin

lemma Decide_total:
  "Decide r b s src = Inr (if still_fires calls drifts tested r b s then refresh_of s else close_of s)"
proof -
  obtain p c where pc: "ps_NodeSignaturePair src r b (sf_NodeID s) = Inr (p, c)"
    "drifts r b (sf_NodeID s) = (p \<noteq> [] \<and> p \<noteq> c)"
    using signatures by blast
  show ?thesis
    unfolding Decide_def still_fires_def ruleDeadCode_def ruleContractDrift_def ruleUntestedSymbol_def
      inbound test_caller pc by simp
qed

lemma decide_all:
  "map_r (\<lambda>s. Decide r b s src) ss
   = Inr (map (\<lambda>s. if still_fires calls drifts tested r b s then refresh_of s else close_of s) ss)"
  by (rule map_r_total) (rule Decide_total)

end

definition sql_calls :: "graph_db \<Rightarrow> string \<Rightarrow> string \<Rightarrow> string \<Rightarrow> bool" where
  "sql_calls db r b n \<longleftrightarrow> (\<exists>e \<in> set (db_edges db). call_into r b n e)"

definition sql_drifts :: "graph_db \<Rightarrow> string \<Rightarrow> string \<Rightarrow> string \<Rightarrow> bool" where
  "sql_drifts db r b n \<longleftrightarrow>
     (case find (\<lambda>m. nw_node_id m = n \<and> nw_branch m = b \<and> nw_repo_id m = r) (db_nodes db) of
        None \<Rightarrow> False
      | Some m \<Rightarrow>
          (case nw_prev_signature m of
             None \<Rightarrow> False
           | Some p \<Rightarrow> p \<noteq> [] \<and> (case nw_signature m of None \<Rightarrow> True | Some c \<Rightarrow> p \<noteq> c)))"

definition sql_tested :: "graph_db \<Rightarrow> string \<Rightarrow> string \<Rightarrow> string \<Rightarrow> bool" where
  "sql_tested db r b n \<longleftrightarrow>
     (\<exists>e \<in> set (db_edges db). call_into r b n e \<and> (\<exists>m \<in> set (db_nodes db). joins_source e m \<and> IsTestFile (nw_file_path m)))"

lemma find_filter: "find P xs = (case filter P xs of [] \<Rightarrow> None | x # _ \<Rightarrow> Some x)"
  by (induction xs) auto

interpretation sql: predicate_source "sql_predicates None db" "sql_calls db" "sql_drifts db" "sql_tested db" for db
proof unfold_locales
  fix r b n
  show "ps_HasInboundCallEdges (sql_predicates None db) r b n = Inr (sql_calls db r b n)"
    by (simp add: sql_predicates_def HasInboundCallEdges_def sql_calls_def list_ex_iff)
  show "\<exists>p c. ps_NodeSignaturePair (sql_predicates None db) r b n = Inr (p, c) \<and> sql_drifts db r b n = (p \<noteq> [] \<and> p \<noteq> c)"
    by (auto simp: sql_predicates_def NodeSignaturePair_def sql_drifts_def find_filter split: list.split option.split)
  show "ps_HasTestCaller (sql_predicates None db) r b n = Inr (sql_tested db r b n)"
    by (auto simp: sql_predicates_def HasTestCaller_def sql_tested_def list_ex_iff Let_def)
qed

section \<open>What the sweep writes\<close>

definition decide_row :: "int \<Rightarrow> FindingDecision \<Rightarrow> finding_row \<Rightarrow> finding_row" where
  "decide_row at d r = (if fd_Kind d = DecisionRefresh then refresh_row (fd_NewHash d) r else reval_close_row at r)"

definition apply_decision :: "string \<Rightarrow> string \<Rightarrow> int \<Rightarrow> findings_table \<Rightarrow> FindingDecision \<Rightarrow> findings_table" where
  "apply_decision repoID branch at t d = gm_update_where (decision_hits repoID branch d) (decide_row at d) t"

lemma apply_loop_ok:
  assumes "\<forall>d \<in> set ds. fd_Kind d = DecisionRefresh \<or> fd_Kind d = DecisionClose"
  shows "apply_loop (\<lambda>_. None) r b at i rp cp ds t = Inr (foldl (apply_decision r b at) t ds)"
  using assms
proof (induction ds arbitrary: i rp cp t)
  case (Cons d ds)
  then have "fd_Kind d = DecisionRefresh \<or> fd_Kind d = DecisionClose" by simp
  then show ?case
    using Cons by (elim disjE) (simp_all add: apply_decision_def decide_row_def [abs_def])
qed simp

lemma ApplyDecisions_ok:
  assumes "\<forall>d \<in> set ds. fd_Kind d = DecisionRefresh \<or> fd_Kind d = DecisionClose"
  shows "ApplyDecisions (\<lambda>_. None) db r b ds at = (db\<lparr>db_findings := foldl (apply_decision r b at) (db_findings db) ds\<rparr>, None)"
  using apply_loop_ok [OF assms] by (simp add: ApplyDecisions_def)

lemma ApplyDecisions_error: "ApplyDecisions fault db r b ds at = (db', Some e) \<Longrightarrow> db' = db"
  by (auto simp: ApplyDecisions_def split: if_splits option.splits sum.splits)

definition step_row :: "string \<Rightarrow> string \<Rightarrow> int \<Rightarrow> string \<times> string \<Rightarrow> finding_row \<Rightarrow> FindingDecision \<Rightarrow> finding_row" where
  "step_row repoID branch at k r d = (if decision_hits repoID branch d k r then decide_row at d r else r)"

lemma get_apply_decisions:
  "map_of (foldl (apply_decision r b at) t ds) k = map_option (\<lambda>x. foldl (step_row r b at k) x ds) (map_of t k)"
  by (induction ds arbitrary: t)
    (simp_all add: apply_decision_def gm_get_update_where step_row_def option.map_comp comp_def option.map_ident)

lemma gm_wf_apply_decisions: "gm_wf (foldl (apply_decision r b at) t ds) = gm_wf t"
  by (induction ds arbitrary: t) (simp_all add: apply_decision_def gm_wf_update_where)

lemma step_row_miss: "(fd_FindingID d, b) \<noteq> k \<Longrightarrow> step_row r b at k x d = x"
  by (metis decision_hits_def step_row_def)

lemma decide_row_twice: "decision_hits r b d k (decide_row at d x) \<Longrightarrow> decide_row at d (decide_row at d x) = decide_row at d x"
  by (cases "fd_Kind d = DecisionRefresh")
    (simp_all add: decide_row_def refresh_row_def reval_close_row_def decision_hits_def)

lemma step_row_other: "(\<forall>d \<in> set ds. (fd_FindingID d, b) \<noteq> k) \<Longrightarrow> foldl (step_row r b at k) x ds = x"
  by (induction ds) (simp_all add: step_row_miss)

lemma step_row_settled:
  assumes "\<forall>d \<in> set ds. (fd_FindingID d, b) = k \<longrightarrow> d = d0"
  shows "foldl (step_row r b at k) (decide_row at d0 x) ds = decide_row at d0 x"
  using assms
proof (induction ds)
  case (Cons d ds)
  have "step_row r b at k (decide_row at d0 x) d = decide_row at d0 x"
  proof (cases "(fd_FindingID d, b) = k")
    case True
    then have "d = d0" using Cons.prems by simp
    then show ?thesis by (simp add: step_row_def decide_row_twice)
  next
    case False
    then show ?thesis by (rule step_row_miss)
  qed
  then show ?case using Cons by simp
qed simp

text \<open>A row that one decision names, possibly several times, ends as that decision says.\<close>

lemma step_row_once:
  assumes "\<forall>d \<in> set ds. (fd_FindingID d, b) = k \<longrightarrow> d = d0" and "d0 \<in> set ds" and "(fd_FindingID d0, b) = k"
    and "fr_repo_id x = r" and "fr_state x = ''open''"
  shows "foldl (step_row r b at k) x ds = decide_row at d0 x"
  using assms
proof (induction ds)
  case (Cons d ds)
  show ?case
  proof (cases "d = d0")
    case True
    have hit: "step_row r b at k x d0 = decide_row at d0 x"
      using Cons.prems(3-5) by (metis decision_hits_def step_row_def)
    have "\<forall>d \<in> set ds. (fd_FindingID d, b) = k \<longrightarrow> d = d0" using Cons.prems(1) by (meson list.set_intros(2))
    then show ?thesis unfolding True foldl_Cons hit by (rule step_row_settled)
  next
    case False
    have "(fd_FindingID d, b) = k \<longrightarrow> d = d0" using Cons.prems(1) by (rule bspec) simp
    then have "(fd_FindingID d, b) \<noteq> k" using False by blast
    then have miss: "step_row r b at k x d = x" by (rule step_row_miss)
    have "d0 \<in> set ds" using Cons.prems(2) False by simp
    moreover have "\<forall>d \<in> set ds. (fd_FindingID d, b) = k \<longrightarrow> d = d0" using Cons.prems(1) by (meson list.set_intros(2))
    ultimately show ?thesis unfolding foldl_Cons miss using Cons.IH Cons.prems(3-5) by blast
  qed
qed simp

text \<open>The stale finding of a row, if the row is stale in the scope of the sweep.\<close>

definition stale_of ::
  "graph_db \<Rightarrow> string \<Rightarrow> string \<Rightarrow> string \<Rightarrow> string \<times> string \<Rightarrow> finding_row \<Rightarrow> StaleFinding option" where
  "stale_of db repoID branch filePath k r =
     (case somes (map (stale_pair repoID branch filePath (k, r)) (db_nodes db)) of [] \<Rightarrow> None | s # _ \<Rightarrow> Some s)"

definition nodes_pk :: "graph_db \<Rightarrow> bool" where
  "nodes_pk db \<longleftrightarrow> distinct (map (\<lambda>n. (nw_node_id n, nw_branch n)) (db_nodes db))"

lemma stale_pair_Some:
  "stale_pair repoID branch filePath (k, r) n = Some s \<longleftrightarrow>
     (\<exists>anchor. fr_anchor_content_hash r = Some anchor \<and> fr_node_id r = Some (nw_node_id n) \<and> nw_branch n = snd k
       \<and> nw_repo_id n = fr_repo_id r \<and> fr_repo_id r = repoID \<and> snd k = branch \<and> fr_state r = ''open''
       \<and> nw_file_path n = filePath \<and> nw_content_hash n \<noteq> anchor
       \<and> s = \<lparr>sf_FindingID = fst k, sf_NodeID = nw_node_id n, sf_Rule = fr_rule r, sf_AnchorHash = anchor,
              sf_CurrentHash = nw_content_hash n\<rparr>)"
  unfolding stale_pair_def prod.case by (cases "fr_anchor_content_hash r") (simp_all, blast)

lemma stale_pair_key: "stale_pair r b p (k, x) n = Some s \<Longrightarrow> k = (sf_FindingID s, b)"
  unfolding stale_pair_Some by (elim exE conjE) (simp add: prod_eq_iff)

lemma nodes_pk_unique:
  assumes "nodes_pk db" "n \<in> set (db_nodes db)" "m \<in> set (db_nodes db)"
    and "nw_node_id n = nw_node_id m" "nw_branch n = nw_branch m"
  shows "n = m"
  using assms(1) inj_onD [OF _ _ assms(2,3), of "\<lambda>n. (nw_node_id n, nw_branch n)"] assms(4,5)
  by (simp add: nodes_pk_def distinct_map)

lemma stale_pair_unique:
  assumes pk: "nodes_pk db" and nm: "n \<in> set (db_nodes db)" "m \<in> set (db_nodes db)"
    and st: "stale_pair r b p (k, x) n = Some s" "stale_pair r b p (k, x) m = Some s'"
  shows "s' = s"
proof -
  have "fr_node_id x = Some (nw_node_id n)" "fr_node_id x = Some (nw_node_id m)" "nw_branch n = snd k" "nw_branch m = snd k"
    using st unfolding stale_pair_Some by blast+
  then have "n = m" using nodes_pk_unique [OF pk nm] by simp
  then show ?thesis using st by simp
qed

lemma stale_of_iff:
  assumes pk: "nodes_pk db"
  shows "stale_of db r b p k x = Some s \<longleftrightarrow> (\<exists>n \<in> set (db_nodes db). stale_pair r b p (k, x) n = Some s)"
proof -
  let ?xs = "somes (map (stale_pair r b p (k, x)) (db_nodes db))"
  have mem: "y \<in> set ?xs \<longleftrightarrow> (\<exists>n \<in> set (db_nodes db). stale_pair r b p (k, x) n = Some y)" for y
    by (auto simp: image_iff) (metis)
  have same: "y = z" if "y \<in> set ?xs" "z \<in> set ?xs" for y z
    using that stale_pair_unique [OF pk] unfolding mem by blast
  show ?thesis
    unfolding mem [symmetric] stale_of_def
    by (cases ?xs) (use same in \<open>auto simp del: set_somes\<close>)
qed

lemma stale_list:
  assumes "StaleFindingsForFile None db r b p = Inr ss"
  shows "s \<in> set ss \<longleftrightarrow> (\<exists>k x. (k, x) \<in> set (db_findings db) \<and> (\<exists>n \<in> set (db_nodes db). stale_pair r b p (k, x) n = Some s))"
  using assms by (auto simp: StaleFindingsForFile_def image_iff) (metis+)

lemma StaleFindingsForFile_empty:
  assumes "nodes_pk db" and "\<And>k x. (k, x) \<in> set (db_findings db) \<Longrightarrow> stale_of db r b p k x = None"
  shows "StaleFindingsForFile None db r b p = Inr []"
proof -
  obtain ss where ss: "StaleFindingsForFile None db r b p = Inr ss" by (simp add: StaleFindingsForFile_def)
  have "s \<notin> set ss" for s
    using assms(2) stale_of_iff [OF assms(1)] unfolding stale_list [OF ss] by (metis option.distinct(1))
  then show ?thesis using ss by (cases ss) auto
qed

definition decision_of :: "graph_db \<Rightarrow> string \<Rightarrow> string \<Rightarrow> StaleFinding \<Rightarrow> FindingDecision" where
  "decision_of db r b s =
     (if still_fires (sql_calls db) (sql_drifts db) (sql_tested db) r b s then refresh_of s else close_of s)"

lemma decision_of_simps [simp]:
  "fd_FindingID (decision_of db r b s) = sf_FindingID s"
  "fd_Kind (decision_of db r b s) = DecisionRefresh \<or> fd_Kind (decision_of db r b s) = DecisionClose"
  by (simp_all add: decision_of_def refresh_of_def close_of_def)

text \<open>What the sweep makes of a row.\<close>

definition swept :: "graph_db \<Rightarrow> string \<Rightarrow> string \<Rightarrow> string \<Rightarrow> int \<Rightarrow> string \<times> string \<Rightarrow> finding_row \<Rightarrow> finding_row" where
  "swept db r b p at k x =
     (case stale_of db r b p k x of None \<Rightarrow> x | Some s \<Rightarrow> decide_row at (decision_of db r b s) x)"

lemma swept_eq:
  "swept db r b p at k = (\<lambda>x. case stale_of db r b p k x of None \<Rightarrow> x
     | Some s \<Rightarrow> if still_fires (sql_calls db) (sql_drifts db) (sql_tested db) r b s
                 then refresh_row (sf_CurrentHash s) x else reval_close_row at x)"
  by (rule ext) (simp add: swept_def decide_row_def decision_of_def refresh_of_def close_of_def split: option.split)

lemma sweep_row:
  assumes wf: "gm_wf (db_findings db)" and pk: "nodes_pk db" and ss: "StaleFindingsForFile None db r b p = Inr ss"
    and kx: "map_of (db_findings db) k = Some x"
  shows "foldl (step_row r b at k) x (map (decision_of db r b) ss) = swept db r b p at k x"
proof -
  have here: "stale_of db r b p k x = Some s" if mem: "s \<in> set ss" and key: "(sf_FindingID s, b) = k" for s
  proof -
    obtain k' x' n where n: "(k', x') \<in> set (db_findings db)" "n \<in> set (db_nodes db)"
      "stale_pair r b p (k', x') n = Some s"
      using mem unfolding stale_list [OF ss] by blast
    have "k' = k" using stale_pair_key [OF n(3)] key by simp
    then have "x' = x" using n(1) kx wf by (metis gm_get_iff option.inject)
    then show ?thesis using n \<open>k' = k\<close> stale_of_iff [OF pk] by blast
  qed
  show ?thesis
  proof (cases "stale_of db r b p k x")
    case None
    then have "\<forall>d \<in> set (map (decision_of db r b) ss). (fd_FindingID d, b) \<noteq> k"
      using here by fastforce
    then show ?thesis using None by (simp only: swept_def option.case step_row_other)
  next
    case (Some s)
    obtain n where n: "n \<in> set (db_nodes db)" "stale_pair r b p (k, x) n = Some s"
      using Some stale_of_iff [OF pk] by blast
    have "(k, x) \<in> set (db_findings db)" using kx wf gm_get_iff by metis
    then have mem: "s \<in> set ss" using n unfolding stale_list [OF ss] by blast
    have x: "fr_repo_id x = r" "fr_state x = ''open''" using n(2) unfolding stale_pair_Some by blast+
    have "foldl (step_row r b at k) x (map (decision_of db r b) ss) = decide_row at (decision_of db r b s) x"
    proof (rule step_row_once [OF _ _ _ x])
      show "\<forall>d \<in> set (map (decision_of db r b) ss). (fd_FindingID d, b) = k \<longrightarrow> d = decision_of db r b s"
        using here Some by fastforce
      show "decision_of db r b s \<in> set (map (decision_of db r b) ss)" using mem by simp
      show "(fd_FindingID (decision_of db r b s), b) = k" using stale_pair_key [OF n(2)] by simp
    qed
    then show ?thesis using Some by (simp add: swept_def)
  qed
qed

text \<open>A swept row is not stale any more.\<close>

lemma swept_fresh:
  assumes pk: "nodes_pk db"
  shows "stale_of (db\<lparr>db_findings := t\<rparr>) r b p k (swept db r b p at k x) = None"
proof -
  have pk': "nodes_pk (db\<lparr>db_findings := t\<rparr>)" using pk by (simp add: nodes_pk_def)
  have "stale_pair r b p (k, swept db r b p at k x) m \<noteq> Some s'" if m: "m \<in> set (db_nodes db)" for m s'
  proof (cases "stale_of db r b p k x")
    case None
    then have "\<not> (\<exists>n \<in> set (db_nodes db). stale_pair r b p (k, x) n = Some s')"
      unfolding stale_of_iff [OF pk, symmetric] by simp
    then show ?thesis using m None by (simp add: swept_def)
  next
    case (Some s)
    then obtain n where n: "n \<in> set (db_nodes db)" "stale_pair r b p (k, x) n = Some s"
      using stale_of_iff [OF pk] by blast
    have x: "fr_node_id x = Some (nw_node_id n)" "nw_branch n = snd k" "sf_CurrentHash s = nw_content_hash n"
      using n(2) unfolding stale_pair_Some by auto
    show ?thesis
    proof (cases "still_fires (sql_calls db) (sql_drifts db) (sql_tested db) r b s")
      case True
      then have sw: "swept db r b p at k x = refresh_row (nw_content_hash n) x"
        using Some x(3) by (simp add: swept_def decision_of_def decide_row_def refresh_of_def)
      show ?thesis
        unfolding sw stale_pair_Some
        using nodes_pk_unique [OF pk n(1) m] x by (auto simp: refresh_row_def)
    next
      case False
      then have sw: "swept db r b p at k x = reval_close_row at x"
        using Some by (simp add: swept_def decision_of_def decide_row_def close_of_def)
      show ?thesis unfolding sw stale_pair_Some by (simp add: reval_close_row_def)
    qed
  qed
  then have "stale_of (db\<lparr>db_findings := t\<rparr>) r b p k (swept db r b p at k x) \<noteq> Some s'" for s'
    unfolding stale_of_iff [OF pk'] by simp
  then show ?thesis using not_Some_eq by blast
qed

lemma reval_Handle_ok:
  assumes repo: "rh_repo h = RevalidateRepo None None (\<lambda>_. None)" and row: "wr_Kind row = WorkKindRevalidate" "wr_Payload row \<noteq> []"
    and ss: "StaleFindingsForFile None db (wr_RepoID row) (wr_Branch row) (wr_Payload row) = Inr ss"
  shows "\<exists>m. reval_Handle h db row = (db\<lparr>db_findings := foldl (apply_decision (wr_RepoID row) (wr_Branch row) (rh_clock h ()))
    (db_findings db) (map (decision_of db (wr_RepoID row) (wr_Branch row)) ss)\<rparr>, m, None)"
proof (cases "ss = []")
  case True
  then show ?thesis using assms by (simp add: reval_Handle_def RevalidateRepo_def)
next
  case False
  have "map_r (reval_decide h db row) ss = Inr (map (decision_of db (wr_RepoID row) (wr_Branch row)) ss)"
    by (rule map_r_total) (simp add: reval_decide_def repo RevalidateRepo_def sql.Decide_total decision_of_def)
  moreover have "\<forall>d \<in> set (map (decision_of db (wr_RepoID row) (wr_Branch row)) ss). fd_Kind d = DecisionRefresh \<or> fd_Kind d = DecisionClose"
    by simp
  ultimately show ?thesis
    using assms False ApplyDecisions_ok by (simp add: reval_Handle_def RevalidateRepo_def Let_def)
qed

lemma reval_Handle_error:
  assumes "reval_Handle h db row = (db', m, Some e)" and "rh_repo h = RevalidateRepo stale_fault pred_fault apply_fault"
  shows "db' = db" and "m = rh_metrics h"
  using assms ApplyDecisions_error [of apply_fault db]
  by (auto simp: reval_Handle_def RevalidateRepo_def Let_def split: if_splits sum.splits option.splits prod.splits)

section \<open>Properties\<close>

text \<open>
  The rule dispatch agrees with the graph: on the SQL adapter \<open>Decide\<close> always answers, it
  keeps a finding open, with the current content hash as its new anchor, exactly if its rule
  still fires (dead code without an inbound call, a drifted signature, an untested symbol
  without a call from a test file), and closes it otherwise.
\<close>

theorem decide_agrees_with_graph:
  "Decide repoID branch s (sql_predicates None db) =
     Inr (if sf_Rule s = ''dead-code'' \<and> \<not> (\<exists>e \<in> set (db_edges db). call_into repoID branch (sf_NodeID s) e)
           \<or> sf_Rule s = ''contract-drift'' \<and> sql_drifts db repoID branch (sf_NodeID s)
           \<or> sf_Rule s = ''untested-symbol''
             \<and> \<not> (\<exists>e \<in> set (db_edges db). call_into repoID branch (sf_NodeID s) e
                    \<and> (\<exists>m \<in> set (db_nodes db). joins_source e m \<and> IsTestFile (nw_file_path m)))
          then \<lparr>fd_FindingID = sf_FindingID s, fd_Kind = DecisionRefresh, fd_NewHash = sf_CurrentHash s\<rparr>
          else \<lparr>fd_FindingID = sf_FindingID s, fd_Kind = DecisionClose, fd_NewHash = []\<rparr>)"
  unfolding sql.Decide_total still_fires_def sql_calls_def sql_tested_def refresh_of_def close_of_def ..

text \<open>
  C20. A sweep without storage faults settles its file: afterwards no open finding of the scope
  is stale, every stale row was refreshed or closed by the decision for it, every other row of
  the table is untouched, and the graph is not written.
\<close>

theorem revalidation_sweep_exact:
  assumes wf: "gm_wf (db_findings db)" and pk: "nodes_pk db"
    and repo: "rh_repo h = RevalidateRepo None None (\<lambda>_. None)"
    and row: "wr_Kind row = WorkKindRevalidate" "wr_Payload row \<noteq> []"
  shows "\<exists>t m. reval_Handle h db row = (db\<lparr>db_findings := t\<rparr>, m, None)
    \<and> StaleFindingsForFile None (db\<lparr>db_findings := t\<rparr>) (wr_RepoID row) (wr_Branch row) (wr_Payload row) = Inr []
    \<and> (\<forall>k. map_of t k = map_option (\<lambda>x.
         case stale_of db (wr_RepoID row) (wr_Branch row) (wr_Payload row) k x of
           None \<Rightarrow> x
         | Some s \<Rightarrow> if still_fires (sql_calls db) (sql_drifts db) (sql_tested db) (wr_RepoID row) (wr_Branch row) s
                     then refresh_row (sf_CurrentHash s) x else reval_close_row (rh_clock h ()) x)
         (map_of (db_findings db) k))"
proof -
  let ?r = "wr_RepoID row" and ?b = "wr_Branch row" and ?p = "wr_Payload row" and ?at = "rh_clock h ()"
  obtain ss where ss: "StaleFindingsForFile None db ?r ?b ?p = Inr ss" by (simp add: StaleFindingsForFile_def)
  let ?t = "foldl (apply_decision ?r ?b ?at) (db_findings db) (map (decision_of db ?r ?b) ss)"
  obtain m where run: "reval_Handle h db row = (db\<lparr>db_findings := ?t\<rparr>, m, None)"
    using reval_Handle_ok [OF repo row ss] by blast
  have get: "map_of ?t k = map_option (swept db ?r ?b ?p ?at k) (map_of (db_findings db) k)" for k
    using sweep_row [OF wf pk ss] by (cases "map_of (db_findings db) k") (simp_all add: get_apply_decisions)
  have clean: "stale_of (db\<lparr>db_findings := ?t\<rparr>) ?r ?b ?p k y = None" if "(k, y) \<in> set ?t" for k y
  proof -
    have "map_of ?t k = Some y" using that wf by (simp add: gm_get_iff gm_wf_apply_decisions)
    then obtain x where "y = swept db ?r ?b ?p ?at k x" using get [of k] by auto
    then show ?thesis using swept_fresh [OF pk] by simp
  qed
  have "StaleFindingsForFile None (db\<lparr>db_findings := ?t\<rparr>) ?r ?b ?p = Inr []"
    by (rule StaleFindingsForFile_empty) (use pk clean in \<open>simp_all add: nodes_pk_def\<close>)
  then show ?thesis
    using run get unfolding swept_eq by blast
qed

definition reval_node :: "string \<Rightarrow> string \<Rightarrow> node_row" where
  "reval_node nid path = \<lparr>nw_node_id = nid, nw_branch = ''main'', nw_repo_id = ''r'', nw_file_path = path,
     nw_content_hash = ''new'', nw_prev_signature = None, nw_signature = None\<rparr>"

definition sample_db :: graph_db where
  "sample_db = \<lparr>db_findings = [((''f1'', ''main''), (sample_row ''dead-code'')\<lparr>fr_node_id := Some ''n1'', fr_anchor_content_hash := Some ''old''\<rparr>)],
     db_nodes = [reval_node ''n1'' ''a.go'', reval_node ''n2'' ''b.go''],
     db_edges = [\<lparr>er_edge_id = ''e'', er_repo_id = ''r'', er_branch = ''main'', er_kind = ''CALLS'', er_src_node_id = ''n2'', er_dst_node_id = ''n1''\<rparr>]\<rparr>"

definition sample_handler :: "(apply_point \<Rightarrow> err option) \<Rightarrow> graph_db reval_Handler" where
  "sample_handler fault = \<lparr>rh_repo = RevalidateRepo None None fault, rh_clock = (\<lambda>_. 42),
     rh_metrics = Some \<lparr>rm_refreshed = Some 0, rm_closed = Some 0\<rparr>\<rparr>"

definition reval_row :: WorkRow where
  "reval_row = \<lparr>wr_Seq = 1, wr_PromotionID = ''p'', wr_RepoID = ''r'', wr_Branch = ''main'', wr_GitSHA = ''s'',
     wr_Kind = WorkKindRevalidate, wr_Payload = ''a.go'', wr_State = ''in_progress'', wr_Attempts = 1, wr_EnqueuedAt = 0\<rparr>"

theorem revalidation_sweep_exact_witness:
  "\<exists>t m. reval_Handle (sample_handler (\<lambda>_. None)) sample_db reval_row = (sample_db\<lparr>db_findings := t\<rparr>, m, None)
    \<and> StaleFindingsForFile None (sample_db\<lparr>db_findings := t\<rparr>) ''r'' ''main'' ''a.go'' = Inr []"
proof -
  have p: "gm_wf (db_findings sample_db)" "nodes_pk sample_db" "rh_repo (sample_handler (\<lambda>_. None)) = RevalidateRepo None None (\<lambda>_. None)"
    "wr_Kind reval_row = WorkKindRevalidate" "wr_Payload reval_row \<noteq> []"
    by (simp_all add: sample_db_def nodes_pk_def reval_node_def sample_handler_def reval_row_def)
  have "wr_RepoID reval_row = ''r''" "wr_Branch reval_row = ''main''" "wr_Payload reval_row = ''a.go''"
    by (simp_all add: reval_row_def)
  then show ?thesis using revalidation_sweep_exact [OF p] by auto
qed

text \<open>
  A sweep that reports an error, from whichever statement, has written nothing: the
  database and both counters are what they were, so the retry of the queue starts afresh.
\<close>

theorem revalidation_error_writes_nothing:
  assumes "rh_repo h = RevalidateRepo stale_fault pred_fault apply_fault" and "reval_Handle h db row = (db', m, Some e)"
  shows "db' = db \<and> m = rh_metrics h"
  using reval_Handle_error [OF assms(2,1)] by simp

theorem revalidation_error_writes_nothing_witness:
  "\<exists>db' m e. reval_Handle (sample_handler (\<lambda>p. if p = ACommit then Some (Errs ''io'') else None)) sample_db reval_row = (db', m, Some e)
     \<and> db' = sample_db"
proof -
  let ?h = "sample_handler (\<lambda>p. if p = ACommit then Some (Errs ''io'') else None)"
  have h: "rh_repo ?h = RevalidateRepo None None (\<lambda>p. if p = ACommit then Some (Errs ''io'') else None)"
    by (simp add: sample_handler_def)
  have "snd (snd (reval_Handle ?h sample_db reval_row)) \<noteq> None" by code_simp
  then obtain db' m e where run: "reval_Handle ?h sample_db reval_row = (db', m, Some e)"
    by (cases "reval_Handle ?h sample_db reval_row") auto
  then show ?thesis using revalidation_error_writes_nothing [OF h run] by blast
qed

end
