(* ===== verification/Blast_Radius.thy ===== *)
theory Blast_Radius
  imports Staging Finding_Repo
begin

text \<open>
  \<open>internal/application/blastradius\<close> and the SQLite edge reader it runs on: the bounded
  breadth-first search over the promoted edges, its hub gate, and the three entry points \<open>Of\<close>,
  \<open>DiffOf\<close> and \<open>DirtyOf\<close>. The search is the loop of the source, with the visited map, the
  order slice, the frontier (which may repeat nodes) and the labelled break. The locale
  \<open>edge_reader\<close> states the port; it is interpreted on the SQL adapter.
\<close>

section \<open>The edge reader\<close>

record EdgeReader =
  ed_InboundEdges :: "string \<Rightarrow> string \<Rightarrow> string list \<Rightarrow> (string \<Rightarrow> string list) result"
  ed_OutboundEdges :: "string \<Rightarrow> string \<Rightarrow> string list \<Rightarrow> (string \<Rightarrow> string list) result"

text \<open>
  \<open>adjacency\<close> of the SQL adapter: the values of the edges whose key column is among the queried
  nodes, in the order the query returns its rows. \<open>kind\<close> empty means no filter; the adapter
  upper-cases it first, which leaves the one kind that is ever passed, \<open>CALLS\<close>, as it is.
\<close>

definition adjacency ::
  "err option \<Rightarrow> edge_row list \<Rightarrow> string \<Rightarrow> string \<Rightarrow> string list \<Rightarrow> (edge_row \<Rightarrow> string) \<Rightarrow> (edge_row \<Rightarrow> string) \<Rightarrow> string
     \<Rightarrow> (string \<Rightarrow> string list) result" where
  "adjacency fault edges repoID branch nodeIDs keyCol valCol kind =
     (if nodeIDs = [] then Inr (\<lambda>_. [])
      else case fault of
        Some e \<Rightarrow> Inl (Wrap ''edge_reader: query: %w'' [] e)
      | None \<Rightarrow>
          let rows = filter (\<lambda>e. er_repo_id e = repoID \<and> er_branch e = branch \<and> keyCol e \<in> set nodeIDs
                              \<and> (kind = [] \<or> er_kind e = kind)) edges
          in Inr (foldl (\<lambda>out e. out(keyCol e := out (keyCol e) @ [valCol e])) (\<lambda>_. []) rows))"

definition InboundEdges ::
  "err option \<Rightarrow> edge_row list \<Rightarrow> string \<Rightarrow> string \<Rightarrow> string list \<Rightarrow> (string \<Rightarrow> string list) result" where
  "InboundEdges fault edges repoID branch nodeIDs =
     adjacency fault edges repoID branch nodeIDs er_dst_node_id er_src_node_id []"

definition OutboundEdges ::
  "err option \<Rightarrow> edge_row list \<Rightarrow> string \<Rightarrow> string \<Rightarrow> string list \<Rightarrow> (string \<Rightarrow> string list) result" where
  "OutboundEdges fault edges repoID branch nodeIDs =
     adjacency fault edges repoID branch nodeIDs er_src_node_id er_dst_node_id []"

definition InboundCallEdges ::
  "err option \<Rightarrow> edge_row list \<Rightarrow> string \<Rightarrow> string \<Rightarrow> string list \<Rightarrow> (string \<Rightarrow> string list) result" where
  "InboundCallEdges fault edges repoID branch nodeIDs =
     adjacency fault edges repoID branch nodeIDs er_dst_node_id er_src_node_id ''CALLS''"

definition EdgeReaderRepo :: "err option \<Rightarrow> edge_row list \<Rightarrow> EdgeReader" where
  "EdgeReaderRepo fault edges =
     \<lparr>ed_InboundEdges = InboundEdges fault edges, ed_OutboundEdges = OutboundEdges fault edges\<rparr>"

section \<open>Requests and responses\<close>

record NodeMeta =
  nm_NodeID :: string
  nm_SymbolPath :: string
  nm_FilePath :: string
  nm_Kind :: string
  nm_LineStart :: int
  nm_LineEnd :: int
  nm_Snippet :: string

record NodeLookup =
  nl_LookupNodes :: "string \<Rightarrow> string \<Rightarrow> string list \<Rightarrow> NodeMeta list result"
  nl_NodesInFile :: "string \<Rightarrow> string \<Rightarrow> string \<Rightarrow> string list result"
  nl_NodeContentHash :: "(string \<Rightarrow> string \<Rightarrow> string \<Rightarrow> string result) option"

definition ErrSeedNotFound :: err where
  "ErrSeedNotFound = Errs ''blastradius: seed not found''"

definition ErrMissingDependency_blast :: err where
  "ErrMissingDependency_blast = Errs ''blastradius: missing required dependency''"

type_synonym Direction = string

definition DirCallers :: Direction where "DirCallers = ''callers''"
definition DirCallees :: Direction where "DirCallees = ''callees''"
definition DirBoth :: Direction where "DirBoth = ''both''"

definition ParseDirection :: "string \<Rightarrow> Direction result" where
  "ParseDirection s =
     (if s = [] \<or> s = DirCallers then Inr DirCallers
      else if s = DirCallees then Inr DirCallees
      else if s = DirBoth then Inr DirBoth
      else Inl (Errorf ''unknown direction %q (want callers|callees|both)'' [s]))"

definition DefaultMaxDepth :: int where "DefaultMaxDepth = 3"
definition DefaultMaxNodes :: int where "DefaultMaxNodes = 200"
definition HardMaxDepth :: int where "HardMaxDepth = 10"
definition HardMaxNodes :: int where "HardMaxNodes = 10000"
definition DefaultHubDegreeThreshold :: int where "DefaultHubDegreeThreshold = 50"

record Entry =
  be_NodeID :: string
  be_Distance :: nat
  be_SymbolPath :: string
  be_FilePath :: string
  be_Kind :: string
  be_LineStart :: int
  be_LineEnd :: int
  be_Snippet :: string
  be_IsHub :: bool
  be_Pending :: bool

record Response =
  rs_Entries :: "Entry list"
  rs_Truncated :: bool
  rs_IncludedStaging :: bool

record Options =
  op_MaxDepth :: int
  op_MaxNodes :: int
  op_Direction :: Direction
  op_HubDegreeThreshold :: int

definition applied :: "Options \<Rightarrow> int \<Rightarrow> Options" where
  "applied opt defaultHub =
     (let o1 = (if op_MaxDepth opt \<le> 0 then opt\<lparr>op_MaxDepth := DefaultMaxDepth\<rparr> else opt);
          o2 = (if op_MaxDepth o1 > HardMaxDepth then o1\<lparr>op_MaxDepth := HardMaxDepth\<rparr> else o1);
          o3 = (if op_MaxNodes o2 \<le> 0 then o2\<lparr>op_MaxNodes := DefaultMaxNodes\<rparr> else o2);
          o4 = (if op_MaxNodes o3 > HardMaxNodes then o3\<lparr>op_MaxNodes := HardMaxNodes\<rparr> else o3);
          o5 = (if op_Direction o4 = [] then o4\<lparr>op_Direction := DirCallers\<rparr> else o4)
      in if op_HubDegreeThreshold o5 = 0 then o5\<lparr>op_HubDegreeThreshold := defaultHub\<rparr> else o5)"

record Service =
  sv_edges :: EdgeReader
  sv_nodes :: NodeLookup
  sv_staging :: "Area option"
  sv_defaultHubDegree :: int

type_synonym ServiceOption = "Service \<Rightarrow> Service"

definition WithDefaultHubDegreeThreshold :: "int \<Rightarrow> ServiceOption" where
  "WithDefaultHubDegreeThreshold n s = s\<lparr>sv_defaultHubDegree := n\<rparr>"

definition NewService ::
  "EdgeReader option \<Rightarrow> NodeLookup option \<Rightarrow> Area option \<Rightarrow> ServiceOption list \<Rightarrow> Service result" where
  "NewService edges nodes staging opts =
     (case edges of
        None \<Rightarrow> Inl (Wrap ''blastradius.NewService: edges is nil: %w'' [] ErrMissingDependency_blast)
      | Some e \<Rightarrow>
          (case nodes of
             None \<Rightarrow> Inl (Wrap ''blastradius.NewService: nodes is nil: %w'' [] ErrMissingDependency_blast)
           | Some n \<Rightarrow>
               Inr (foldl (\<lambda>s opt. opt s)
                 \<lparr>sv_edges = e, sv_nodes = n, sv_staging = staging,
                  sv_defaultHubDegree = DefaultHubDegreeThreshold\<rparr> opts)))"

section \<open>The search\<close>

definition append_all :: "string list \<Rightarrow> (string \<Rightarrow> string list) \<Rightarrow> (string \<Rightarrow> string list) \<Rightarrow> (string \<Rightarrow> string list)" where
  "append_all frontier m out = foldl (\<lambda>out x. out(x := out x @ m x)) out frontier"

definition expandPerSource ::
  "Service \<Rightarrow> string \<Rightarrow> string \<Rightarrow> string list \<Rightarrow> Direction \<Rightarrow> (string \<Rightarrow> string list) result" where
  "expandPerSource s repoID branch frontier dir =
     (case (if dir = DirCallers \<or> dir = DirBoth
            then (case ed_InboundEdges (sv_edges s) repoID branch frontier of
                    Inl e \<Rightarrow> Inl (Wrap ''blastradius: inbound: %w'' [] e)
                  | Inr m \<Rightarrow> Inr (append_all frontier m (\<lambda>_. [])))
            else Inr (\<lambda>_. [])) of
        Inl e \<Rightarrow> Inl e
      | Inr out \<Rightarrow>
          if dir = DirCallees \<or> dir = DirBoth
          then (case ed_OutboundEdges (sv_edges s) repoID branch frontier of
                  Inl e \<Rightarrow> Inl (Wrap ''blastradius: outbound: %w'' [] e)
                | Inr m \<Rightarrow> Inr (append_all frontier m out))
          else Inr out)"

record bfs =
  bf_visited :: "string \<rightharpoonup> nat"
  bf_order :: "string list"
  bf_truncated :: bool

definition enqueue :: "nat \<Rightarrow> string \<Rightarrow> nat \<Rightarrow> bfs \<Rightarrow> bfs \<times> bool" where
  "enqueue maxNodes x dist st =
     (if bf_visited st x \<noteq> None then (st, True)
      else if length (bf_order st) \<ge> maxNodes then (st\<lparr>bf_truncated := True\<rparr>, False)
      else (st\<lparr>bf_visited := (bf_visited st)(x \<mapsto> dist), bf_order := bf_order st @ [x]\<rparr>, True))"

fun seed_frontier :: "nat \<Rightarrow> string list \<Rightarrow> bfs \<Rightarrow> string list \<Rightarrow> bfs \<times> string list" where
  "seed_frontier maxNodes [] st frontier = (st, frontier)"
| "seed_frontier maxNodes (x # xs) st frontier =
     (if x = [] then seed_frontier maxNodes xs st frontier
      else case enqueue maxNodes x 0 st of
             (st', True) \<Rightarrow> seed_frontier maxNodes xs st' (frontier @ [x])
           | (st', False) \<Rightarrow> seed_frontier maxNodes xs st' frontier)"

text \<open>The inner loop over the neighbours of one source; the flag reports the labelled break.\<close>

fun enqueue_all :: "nat \<Rightarrow> nat \<Rightarrow> string list \<Rightarrow> bfs \<Rightarrow> string list \<Rightarrow> bfs \<times> string list \<times> bool" where
  "enqueue_all maxNodes dist [] st next = (st, next, False)"
| "enqueue_all maxNodes dist (n # ns) st next =
     (case enqueue maxNodes n dist st of
        (st', False) \<Rightarrow> (st', next, True)
      | (st', True) \<Rightarrow> enqueue_all maxNodes dist ns st' (next @ [n]))"

fun frontier_loop ::
  "nat \<Rightarrow> bool \<Rightarrow> int \<Rightarrow> nat \<Rightarrow> (string \<Rightarrow> string list) \<Rightarrow> string list \<Rightarrow> bfs \<Rightarrow> string set \<Rightarrow> string list
     \<Rightarrow> bfs \<times> string set \<times> string list" where
  "frontier_loop maxNodes gateOn threshold dist perSrc [] st hubs next = (st, hubs, next)"
| "frontier_loop maxNodes gateOn threshold dist perSrc (src # rest) st hubs next =
     (if gateOn \<and> int (length (perSrc src)) > threshold
      then frontier_loop maxNodes gateOn threshold dist perSrc rest st (insert src hubs) next
      else case enqueue_all maxNodes dist (perSrc src) st next of
             (st', next', True) \<Rightarrow> (st', hubs, next')
           | (st', next', False) \<Rightarrow> frontier_loop maxNodes gateOn threshold dist perSrc rest st' hubs next')"

text \<open>The hop loop; its first argument is the number of hops left.\<close>

fun hop_loop ::
  "nat \<Rightarrow> (string list \<Rightarrow> (string \<Rightarrow> string list) result) \<Rightarrow> nat \<Rightarrow> bool \<Rightarrow> int \<Rightarrow> nat
     \<Rightarrow> string list \<Rightarrow> bfs \<Rightarrow> string set \<Rightarrow> (bfs \<times> string set) result" where
  "hop_loop 0 expand maxNodes gateOn threshold hop frontier st hubs = Inr (st, hubs)"
| "hop_loop (Suc left) expand maxNodes gateOn threshold hop frontier st hubs =
     (if frontier = [] \<or> bf_truncated st then Inr (st, hubs)
      else case expand frontier of
             Inl e \<Rightarrow> Inl e
           | Inr perSrc \<Rightarrow>
               (case frontier_loop maxNodes gateOn threshold (Suc hop) perSrc frontier st hubs [] of
                  (st', hubs', next) \<Rightarrow>
                    hop_loop left expand maxNodes gateOn threshold (Suc hop) next st' hubs'))"

definition bfs_start :: bfs where
  "bfs_start = \<lparr>bf_visited = Map.empty, bf_order = [], bf_truncated = False\<rparr>"

text \<open>A later row of the hydration overwrites an earlier one.\<close>

definition meta_by_id :: "NodeMeta list \<Rightarrow> string \<Rightarrow> NodeMeta option" where
  "meta_by_id ms = foldl (\<lambda>m x. m(nm_NodeID x \<mapsto> x)) Map.empty ms"

definition entry_of_node :: "(string \<Rightarrow> NodeMeta option) \<Rightarrow> bfs \<Rightarrow> string set \<Rightarrow> string \<Rightarrow> Entry" where
  "entry_of_node byID st hubs x =
     (let m = (case byID x of Some m \<Rightarrow> m
               | None \<Rightarrow> \<lparr>nm_NodeID = [], nm_SymbolPath = [], nm_FilePath = [], nm_Kind = [],
                          nm_LineStart = 0, nm_LineEnd = 0, nm_Snippet = []\<rparr>)
      in \<lparr>be_NodeID = x, be_Distance = (case bf_visited st x of Some d \<Rightarrow> d | None \<Rightarrow> 0),
          be_SymbolPath = nm_SymbolPath m, be_FilePath = nm_FilePath m, be_Kind = nm_Kind m,
          be_LineStart = nm_LineStart m, be_LineEnd = nm_LineEnd m, be_Snippet = nm_Snippet m,
          be_IsHub = (x \<in> hubs), be_Pending = (byID x = None)\<rparr>)"

definition seed_check :: "Service \<Rightarrow> string \<Rightarrow> string \<Rightarrow> string list \<Rightarrow> unit result" where
  "seed_check s repoID branch seedIDs =
     (let cleanSeeds = filter (\<lambda>x. x \<noteq> []) seedIDs
      in if cleanSeeds = [] then Inr ()
         else case nl_LookupNodes (sv_nodes s) repoID branch cleanSeeds of
                Inl e \<Rightarrow> Inl (Wrap ''blastradius: seed lookup: %w'' [] e)
              | Inr seedMeta \<Rightarrow>
                  if seedMeta = []
                  then Inl (Wrap ''%w: no seed node_id resolved in repo=%s branch=%s'' [repoID, branch] ErrSeedNotFound)
                  else Inr ())"

definition Of :: "Service \<Rightarrow> string \<Rightarrow> string \<Rightarrow> string list \<Rightarrow> Options \<Rightarrow> Response result" where
  "Of s repoID branch seedIDs opts0 =
     (let opts = applied opts0 (sv_defaultHubDegree s);
          maxNodes = nat (op_MaxNodes opts)
      in case seed_check s repoID branch seedIDs of
           Inl e \<Rightarrow> Inl e
         | Inr _ \<Rightarrow>
             (case seed_frontier maxNodes seedIDs bfs_start [] of
                (st0, frontier) \<Rightarrow>
                  (case hop_loop (nat (op_MaxDepth opts))
                          (\<lambda>fr. expandPerSource s repoID branch fr (op_Direction opts))
                          maxNodes (op_HubDegreeThreshold opts > 0) (op_HubDegreeThreshold opts) 0 frontier st0 {} of
                     Inl e \<Rightarrow> Inl e
                   | Inr (st, hubs) \<Rightarrow>
                       (case nl_LookupNodes (sv_nodes s) repoID branch (bf_order st) of
                          Inl e \<Rightarrow> Inl (Wrap ''blastradius: node lookup: %w'' [] e)
                        | Inr hydrated \<Rightarrow>
                            Inr \<lparr>rs_Entries = map (entry_of_node (meta_by_id hydrated) st hubs) (bf_order st),
                                 rs_Truncated = bf_truncated st, rs_IncludedStaging = False\<rparr>))))"

section \<open>Seeds from a diff and from the staging area\<close>

definition empty_response :: Response where
  "empty_response = \<lparr>rs_Entries = [], rs_Truncated = False, rs_IncludedStaging = False\<rparr>"

definition diff_path :: "(string \<Rightarrow> string \<Rightarrow> string result) \<Rightarrow> string \<Rightarrow> string \<Rightarrow> string" where
  "diff_path Rel repoRoot fp =
     (if HasPrefix fp ''/'' then (case Rel repoRoot fp of Inr rel \<Rightarrow> rel | Inl _ \<Rightarrow> fp) else fp)"

definition DiffOf ::
  "(string \<Rightarrow> string \<Rightarrow> string result) \<Rightarrow> Service \<Rightarrow> string \<Rightarrow> string \<Rightarrow> string
     \<Rightarrow> (string \<Rightarrow> string list result) option \<Rightarrow> Options \<Rightarrow> Response result" where
  "DiffOf Rel s repoID branch repoRoot changedFiles opts =
     (case changedFiles of
        None \<Rightarrow> Inl (Errorf ''blastradius.DiffOf: changedFiles is nil'' [])
      | Some changed \<Rightarrow>
          if repoRoot = [] then Inl (Errorf ''blastradius.DiffOf: repoRoot is empty'' [])
          else case changed repoRoot of
            Inl e \<Rightarrow> Inl (Wrap ''blastradius: list changed files: %w'' [] e)
          | Inr files \<Rightarrow>
              if files = [] then Inr empty_response
              else case map_r (\<lambda>fp. case nl_NodesInFile (sv_nodes s) repoID branch (diff_path Rel repoRoot fp) of
                                 Inl e \<Rightarrow> Inl (Wrap ''blastradius: nodes in %s: %w'' [diff_path Rel repoRoot fp] e)
                               | Inr ids \<Rightarrow> Inr ids) files of
                     Inl e \<Rightarrow> Inl e
                   | Inr idss \<Rightarrow>
                       let seeds = dedup (concat idss)
                       in if seeds = [] then Inr empty_response
                          else Of s repoID branch seeds opts)"

definition unchanged_node :: "Service \<Rightarrow> string \<Rightarrow> string \<Rightarrow> Node \<Rightarrow> bool" where
  "unchanged_node s repoID branch n \<longleftrightarrow>
     (case nl_NodeContentHash (sv_nodes s) of
        None \<Rightarrow> False
      | Some hasher \<Rightarrow>
          (case n_ContentHash n of
             None \<Rightarrow> False
           | Some h \<Rightarrow>
               (case hasher repoID branch (n_ID n) of
                  Inl _ \<Rightarrow> False
                | Inr promoted \<Rightarrow> promoted \<noteq> [] \<and> promoted = h)))"

definition dirty_seeds :: "Service \<Rightarrow> Area \<Rightarrow> string \<Rightarrow> string \<Rightarrow> string list" where
  "dirty_seeds s area repoID branch =
     concat (map (\<lambda>(path, sf). map n_ID (filter (\<lambda>n. \<not> unchanged_node s repoID branch n) (somes (sf_Nodes sf))))
              (Snapshot area repoID branch))"

definition DirtyOf :: "Service \<Rightarrow> string \<Rightarrow> string \<Rightarrow> Options \<Rightarrow> Response result" where
  "DirtyOf s repoID branch opts =
     (case sv_staging s of
        None \<Rightarrow> Inr empty_response
      | Some area \<Rightarrow>
          let seeds = dirty_seeds s area repoID branch
          in case Of s repoID branch seeds opts of
               Inl e \<Rightarrow> Inl e
             | Inr resp \<Rightarrow> Inr (resp\<lparr>rs_IncludedStaging := (seeds \<noteq> [])\<rparr>))"

section \<open>The edge reader's contract\<close>

lemma append_all_eq:
  "append_all frontier m out x = out x @ concat (map (\<lambda>y. if y = x then m y else []) frontier)"
  by (induction frontier arbitrary: out) (simp_all add: append_all_def)

lemma set_append_all: "x \<in> set frontier \<Longrightarrow> set (append_all frontier m out x) = set (out x) \<union> set (m x)"
  by (auto simp: append_all_eq split: if_splits)

text \<open>The adjacency of one hop, by the direction.\<close>

definition hop_neighbours ::
  "(string \<Rightarrow> string list) \<Rightarrow> (string \<Rightarrow> string list) \<Rightarrow> Direction \<Rightarrow> string \<Rightarrow> string list" where
  "hop_neighbours inn outn dir x =
     (if dir = DirCallers \<or> dir = DirBoth then inn x else [])
     @ (if dir = DirCallees \<or> dir = DirBoth then outn x else [])"

locale edge_reader =
  fixes reader :: "'d \<Rightarrow> EdgeReader"
    and inn :: "'d \<Rightarrow> string \<Rightarrow> string \<Rightarrow> string \<Rightarrow> string list"
    and outn :: "'d \<Rightarrow> string \<Rightarrow> string \<Rightarrow> string \<Rightarrow> string list"
  assumes inbound: "\<exists>m. ed_InboundEdges (reader d) r b ids = Inr m \<and> (\<forall>x \<in> set ids. m x = inn d r b x)"
    and outbound: "\<exists>m. ed_OutboundEdges (reader d) r b ids = Inr m \<and> (\<forall>x \<in> set ids. m x = outn d r b x)"
begin

lemma expand_ok:
  assumes "sv_edges s = reader d"
  shows "\<exists>ps. expandPerSource s r b fr dir = Inr ps
    \<and> (\<forall>x \<in> set fr. set (ps x) = set (hop_neighbours (inn d r b) (outn d r b) dir x))"
proof -
  obtain mi where mi: "ed_InboundEdges (reader d) r b fr = Inr mi" "\<forall>x \<in> set fr. mi x = inn d r b x"
    using inbound by blast
  obtain mo where mo: "ed_OutboundEdges (reader d) r b fr = Inr mo" "\<forall>x \<in> set fr. mo x = outn d r b x"
    using outbound by blast
  show ?thesis
    using assms mi mo by (auto simp: expandPerSource_def hop_neighbours_def set_append_all)
qed

end

definition sql_in :: "edge_row list \<Rightarrow> string \<Rightarrow> string \<Rightarrow> string \<Rightarrow> string list" where
  "sql_in edges r b x =
     map er_src_node_id (filter (\<lambda>e. er_repo_id e = r \<and> er_branch e = b \<and> er_dst_node_id e = x) edges)"

definition sql_out :: "edge_row list \<Rightarrow> string \<Rightarrow> string \<Rightarrow> string \<Rightarrow> string list" where
  "sql_out edges r b x =
     map er_dst_node_id (filter (\<lambda>e. er_repo_id e = r \<and> er_branch e = b \<and> er_src_node_id e = x) edges)"

lemma foldl_group:
  "foldl (\<lambda>out e. out(k e := out (k e) @ [v e])) out es x = out x @ map v (filter (\<lambda>e. k e = x) es)"
  by (induction es arbitrary: out) auto

lemma adjacency_ok:
  "\<exists>m. adjacency None edges r b ids kc vc [] = Inr m \<and>
     (\<forall>x \<in> set ids. m x = map vc (filter (\<lambda>e. er_repo_id e = r \<and> er_branch e = b \<and> kc e = x) edges))"
proof (cases "ids = []")
  case False
  have "filter (\<lambda>e. kc e = x) (filter (\<lambda>e. er_repo_id e = r \<and> er_branch e = b \<and> kc e \<in> set ids) edges)
      = filter (\<lambda>e. er_repo_id e = r \<and> er_branch e = b \<and> kc e = x) edges" if "x \<in> set ids" for x
    using that by (auto simp: filter_filter intro!: filter_cong)
  then show ?thesis using False by (simp add: adjacency_def Let_def foldl_group)
qed (simp add: adjacency_def)

interpretation sql_edges: edge_reader "EdgeReaderRepo None" sql_in sql_out
proof unfold_locales
  show "\<exists>m. ed_InboundEdges (EdgeReaderRepo None d) r b ids = Inr m \<and> (\<forall>x \<in> set ids. m x = sql_in d r b x)" for d r b ids
    using adjacency_ok [of d r b ids er_dst_node_id er_src_node_id]
    by (simp add: EdgeReaderRepo_def InboundEdges_def sql_in_def)
  show "\<exists>m. ed_OutboundEdges (EdgeReaderRepo None d) r b ids = Inr m \<and> (\<forall>x \<in> set ids. m x = sql_out d r b x)" for d r b ids
    using adjacency_ok [of d r b ids er_src_node_id er_dst_node_id]
    by (simp add: EdgeReaderRepo_def OutboundEdges_def sql_out_def)
qed

section \<open>Bounds and soundness of the search\<close>

definition reach_from :: "string set \<Rightarrow> (string \<Rightarrow> string list) \<Rightarrow> nat \<Rightarrow> string \<Rightarrow> bool" where
  "reach_from seeds nb k t \<longleftrightarrow> (\<exists>s \<in> seeds. reach_in nb k s t)"

lemma reach_from_0: "reach_from seeds nb 0 t \<longleftrightarrow> t \<in> seeds"
  by (simp add: reach_from_def)

lemma reach_from_Suc: "reach_from seeds nb (Suc k) t \<longleftrightarrow> (\<exists>u. reach_from seeds nb k u \<and> t \<in> set (nb u))"
  by (auto simp: reach_from_def)

lemma reach_from_earlier: "reach_from seeds nb (k + i) t \<Longrightarrow> \<exists>u. reach_from seeds nb k u"
  by (induction i arbitrary: t) (auto simp: reach_from_Suc)

text \<open>What every state of the search satisfies.\<close>

definition bfs_inv :: "string set \<Rightarrow> (string \<Rightarrow> string list) \<Rightarrow> nat \<Rightarrow> nat \<Rightarrow> bfs \<Rightarrow> bool" where
  "bfs_inv seeds nb maxNodes k st \<longleftrightarrow>
     distinct (bf_order st) \<and> dom (bf_visited st) = set (bf_order st) \<and> length (bf_order st) \<le> maxNodes
     \<and> (bf_truncated st \<longrightarrow> length (bf_order st) = maxNodes)
     \<and> (\<forall>x d. bf_visited st x = Some d \<longrightarrow> d \<le> k \<and> reach_from seeds nb d x)"

lemma bfs_inv_start: "bfs_inv seeds nb maxNodes k bfs_start"
  by (simp add: bfs_inv_def bfs_start_def)

lemma bfs_inv_mono: "bfs_inv seeds nb maxNodes k st \<Longrightarrow> k \<le> k' \<Longrightarrow> bfs_inv seeds nb maxNodes k' st"
  unfolding bfs_inv_def using le_trans by blast

lemma enqueue_inv:
  assumes "bfs_inv seeds nb maxNodes k st" "reach_from seeds nb d x" "d \<le> k"
  shows "bfs_inv seeds nb maxNodes k (fst (enqueue maxNodes x d st))"
  using assms by (auto simp: bfs_inv_def enqueue_def domIff split: if_splits)

lemma seed_frontier_inv:
  assumes "bfs_inv seeds nb maxNodes k st" "set fr \<subseteq> seeds" "set xs - {[]} \<subseteq> seeds"
    and "seed_frontier maxNodes xs st fr = (st', fr')"
  shows "bfs_inv seeds nb maxNodes k st' \<and> set fr' \<subseteq> seeds"
  using assms
proof (induction maxNodes xs st fr rule: seed_frontier.induct)
  case (2 maxNodes x xs st fr)
  show ?case
  proof (cases "x = []")
    case True
    then show ?thesis using 2 by simp
  next
    case False
    obtain st1 ok where e: "enqueue maxNodes x 0 st = (st1, ok)" by force
    have "reach_from seeds nb 0 x" using 2 False by (auto simp: reach_from_0)
    then have "bfs_inv seeds nb maxNodes k st1" using enqueue_inv [of seeds nb maxNodes k st 0 x] 2 e by simp
    then show ?thesis using 2 e False by (cases ok) auto
  qed
qed simp

lemma enqueue_all_inv:
  assumes "bfs_inv seeds nb maxNodes k st" "d \<le> k"
    and "\<forall>n \<in> set ns \<union> set next. reach_from seeds nb d n"
    and "enqueue_all maxNodes d ns st next = (st', next', stop)"
  shows "bfs_inv seeds nb maxNodes k st' \<and> (\<forall>n \<in> set next'. reach_from seeds nb d n)"
  using assms(1,3,4)
proof (induction ns arbitrary: st "next")
  case (Cons n ns)
  obtain st1 ok where e: "enqueue maxNodes n d st = (st1, ok)" by force
  have inv: "bfs_inv seeds nb maxNodes k st1"
    using enqueue_inv [OF Cons.prems(1) _ assms(2), of n] Cons.prems(2) e by simp
  show ?case
  proof (cases ok)
    case True
    then have "enqueue_all maxNodes d ns st1 (next @ [n]) = (st', next', stop)" using Cons.prems(3) e by simp
    then show ?thesis using Cons.IH [OF inv, of "next @ [n]"] Cons.prems(2) by auto
  next
    case False
    then show ?thesis using inv Cons.prems(2,3) e by simp
  qed
qed simp

lemma frontier_loop_inv:
  assumes "bfs_inv seeds nb maxNodes k st" "d \<le> k"
    and "\<forall>src \<in> set fr. \<forall>n \<in> set (ps src). reach_from seeds nb d n"
    and "\<forall>n \<in> set next. reach_from seeds nb d n"
    and "frontier_loop maxNodes gate thr d ps fr st hubs next = (st', hubs', next')"
  shows "bfs_inv seeds nb maxNodes k st' \<and> (\<forall>n \<in> set next'. reach_from seeds nb d n)"
  using assms(1,3,4,5)
proof (induction fr arbitrary: st hubs "next")
  case (Cons src fr)
  show ?case
  proof (cases "gate \<and> int (length (ps src)) > thr")
    case True
    then have "frontier_loop maxNodes gate thr d ps fr st (insert src hubs) next = (st', hubs', next')"
      using Cons.prems(4) by simp
    then show ?thesis using Cons.IH Cons.prems(1,2,3) by simp
  next
    case False
    obtain st1 next1 stop where e: "enqueue_all maxNodes d (ps src) st next = (st1, next1, stop)"
      using prod_cases3 by blast
    have inv: "bfs_inv seeds nb maxNodes k st1" "\<forall>n \<in> set next1. reach_from seeds nb d n"
      using enqueue_all_inv [OF Cons.prems(1) assms(2) _ e] Cons.prems(2,3) by auto
    show ?thesis
    proof (cases stop)
      case True
      then show ?thesis using inv False e Cons.prems(4) by auto
    next
      case False
      then have "frontier_loop maxNodes gate thr d ps fr st1 hubs next1 = (st', hubs', next')"
        using \<open>\<not> (gate \<and> int (length (ps src)) > thr)\<close> e Cons.prems(4) by (simp split: if_splits)
      then show ?thesis using Cons.IH [OF inv(1) _ inv(2)] Cons.prems(2) by simp
    qed
  qed
qed simp

lemma hop_loop_inv:
  assumes ex: "\<And>fr ps. expand fr = Inr ps \<Longrightarrow> \<forall>x \<in> set fr. set (ps x) \<subseteq> set (nb x)"
    and "bfs_inv seeds nb maxNodes hop st" "\<And>x. x \<in> set fr \<Longrightarrow> reach_from seeds nb hop x"
    and "hop_loop left expand maxNodes gate thr hop fr st hubs = Inr (st', hubs')"
  shows "bfs_inv seeds nb maxNodes (hop + left) st'"
  using assms(2-)
proof (induction left arbitrary: hop fr st hubs)
  case (Suc left)
  show ?case
  proof (cases "fr = [] \<or> bf_truncated st")
    case True
    then have "st' = st" using Suc.prems(3) by auto
    then show ?thesis using Suc.prems(1) bfs_inv_mono le_add1 by blast
  next
    case False
    then obtain ps where ps: "expand fr = Inr ps" using Suc.prems(3) by (cases "expand fr") auto
    obtain st1 hubs1 next1 where e: "frontier_loop maxNodes gate thr (Suc hop) ps fr st hubs [] = (st1, hubs1, next1)"
      using prod_cases3 by blast
    have "bfs_inv seeds nb maxNodes (Suc hop) st1 \<and> (\<forall>n \<in> set next1. reach_from seeds nb (Suc hop) n)"
    proof (rule frontier_loop_inv [OF _ le_refl _ _ e])
      show "bfs_inv seeds nb maxNodes (Suc hop) st" using Suc.prems(1) by (rule bfs_inv_mono) simp
      show "\<forall>src \<in> set fr. \<forall>n \<in> set (ps src). reach_from seeds nb (Suc hop) n"
        using ex [OF ps] Suc.prems(2) by (fastforce simp: reach_from_Suc)
    qed simp
    moreover have "hop_loop left expand maxNodes gate thr (Suc hop) next1 st1 hubs1 = Inr (st', hubs')"
      using False ps e Suc.prems(3) by simp
    ultimately show ?thesis using Suc.IH [of "Suc hop" st1 next1 hubs1] by simp
  qed
qed simp

section \<open>Exactness without the hub gate\<close>

text \<open>An untruncated pass over a slice visits every new element at the given distance.\<close>

definition visit_all :: "nat \<Rightarrow> string set \<Rightarrow> (string \<rightharpoonup> nat) \<Rightarrow> (string \<rightharpoonup> nat)" where
  "visit_all d S v = (\<lambda>x. case v x of Some e \<Rightarrow> Some e | None \<Rightarrow> if x \<in> S then Some d else None)"

lemma visit_all_empty [simp]: "visit_all d {} v = v"
  by (auto simp: visit_all_def fun_eq_iff split: option.split)

lemma visit_all_union: "visit_all d T (visit_all d S v) = visit_all d (S \<union> T) v"
  by (auto simp: visit_all_def fun_eq_iff split: option.split)

lemma enqueue_exact:
  assumes "enqueue maxNodes x d st = (st', ok)"
  shows "bf_truncated st' \<longleftrightarrow> bf_truncated st \<or> \<not> ok"
    and "ok \<Longrightarrow> bf_visited st' = visit_all d {x} (bf_visited st)"
  using assms by (auto simp: enqueue_def visit_all_def fun_eq_iff split: if_splits option.split)

lemma enqueue_all_exact:
  assumes "enqueue_all maxNodes d ns st next = (st', next', stop)"
  shows "(bf_truncated st' \<longleftrightarrow> bf_truncated st \<or> stop)
    \<and> (\<not> stop \<longrightarrow> next' = next @ ns \<and> bf_visited st' = visit_all d (set ns) (bf_visited st))"
  using assms
proof (induction ns arbitrary: st "next")
  case (Cons n ns)
  obtain st1 ok where e: "enqueue maxNodes n d st = (st1, ok)" by force
  show ?case
  proof (cases ok)
    case True
    then have "enqueue_all maxNodes d ns st1 (next @ [n]) = (st', next', stop)" using Cons.prems e by simp
    then show ?thesis
      using Cons.IH [of st1 "next @ [n]"] enqueue_exact [OF e] True by (auto simp: visit_all_union)
  next
    case False
    then show ?thesis using Cons.prems e enqueue_exact(1) [OF e] by auto
  qed
qed simp

lemma frontier_loop_exact:
  assumes "frontier_loop maxNodes False thr d ps fr st hubs next = (st', hubs', next')" "\<not> bf_truncated st'"
  shows "\<not> bf_truncated st \<and> next' = next @ concat (map ps fr)
    \<and> bf_visited st' = visit_all d (\<Union>x \<in> set fr. set (ps x)) (bf_visited st)"
  using assms
proof (induction fr arbitrary: st "next")
  case (Cons src fr)
  obtain st1 next1 stop where e: "enqueue_all maxNodes d (ps src) st next = (st1, next1, stop)"
    using prod_cases3 by blast
  note ex = enqueue_all_exact [OF e]
  have ns: "\<not> stop" using Cons.prems ex e by (cases stop) auto
  then have "frontier_loop maxNodes False thr d ps fr st1 hubs next1 = (st', hubs', next')"
    using Cons.prems(1) e by simp
  then show ?case using Cons.IH [of st1 next1] Cons.prems(2) ex ns by (simp add: visit_all_union)
qed simp

text \<open>After \<open>k\<close> hops the visited map holds the nodes within \<open>k\<close> hops at their distance.\<close>

definition at_distance :: "string set \<Rightarrow> (string \<Rightarrow> string list) \<Rightarrow> nat \<Rightarrow> string \<Rightarrow> bool" where
  "at_distance seeds nb d x \<longleftrightarrow> reach_from seeds nb d x \<and> (\<forall>j < d. \<not> reach_from seeds nb j x)"

definition exact_upto :: "string set \<Rightarrow> (string \<Rightarrow> string list) \<Rightarrow> nat \<Rightarrow> bfs \<Rightarrow> bool" where
  "exact_upto seeds nb k st \<longleftrightarrow> (\<forall>x d. bf_visited st x = Some d \<longleftrightarrow> d \<le> k \<and> at_distance seeds nb d x)"

lemma at_distance_unique: "at_distance seeds nb d x \<Longrightarrow> at_distance seeds nb e x \<Longrightarrow> d = e"
  unfolding at_distance_def by (meson linorder_neqE_nat)

lemma exact_None:
  assumes "exact_upto seeds nb k st"
  shows "bf_visited st x = None \<longleftrightarrow> (\<forall>j \<le> k. \<not> reach_from seeds nb j x)"
proof
  assume "bf_visited st x = None"
  then have no: "\<not> (d \<le> k \<and> at_distance seeds nb d x)" for d
    using assms unfolding exact_upto_def by (metis option.distinct(1))
  show "\<forall>j \<le> k. \<not> reach_from seeds nb j x"
  proof (intro allI impI notI)
    fix j
    assume j: "j \<le> k" "reach_from seeds nb j x"
    obtain d where d: "reach_from seeds nb d x" "\<forall>i < d. \<not> reach_from seeds nb i x" "d \<le> j"
    proof -
      let ?d = "Least (\<lambda>d. reach_from seeds nb d x)"
      have "reach_from seeds nb ?d x" by (rule LeastI) (rule j(2))
      moreover have "\<forall>i < ?d. \<not> reach_from seeds nb i x" by (intro allI impI) (erule not_less_Least)
      moreover have "?d \<le> j" by (rule Least_le) (rule j(2))
      ultimately show ?thesis by (rule that)
    qed
    then have "at_distance seeds nb d x" by (simp add: at_distance_def)
    then show False using no d(3) j(1) by (meson le_trans)
  qed
next
  assume "\<forall>j \<le> k. \<not> reach_from seeds nb j x"
  then show "bf_visited st x = None"
    using assms by (cases "bf_visited st x") (auto simp: exact_upto_def at_distance_def)
qed

lemma exact_step:
  assumes ex: "exact_upto seeds nb k st" and S: "\<And>x. x \<in> S \<longleftrightarrow> reach_from seeds nb (Suc k) x"
    and v: "bf_visited st' = visit_all (Suc k) S (bf_visited st)"
  shows "exact_upto seeds nb (Suc k) st'"
  unfolding exact_upto_def
proof (intro allI)
  fix x d
  show "bf_visited st' x = Some d \<longleftrightarrow> d \<le> Suc k \<and> at_distance seeds nb d x"
  proof (cases "bf_visited st x")
    case None
    then have no: "\<forall>j \<le> k. \<not> reach_from seeds nb j x" using exact_None [OF ex] by blast
    have "d \<le> Suc k \<and> at_distance seeds nb d x \<longleftrightarrow> d = Suc k \<and> reach_from seeds nb (Suc k) x"
      using no by (auto simp: at_distance_def le_Suc_eq less_Suc_eq_le)
    then show ?thesis using None by (auto simp: v visit_all_def S)
  next
    case (Some e)
    then have "e \<le> k \<and> at_distance seeds nb e x" using ex by (auto simp: exact_upto_def)
    then show ?thesis using Some at_distance_unique [of seeds nb e x d] by (auto simp: v visit_all_def)
  qed
qed

lemma exact_exhausted:
  assumes "exact_upto seeds nb k st" "\<And>x. \<not> reach_from seeds nb k x"
  shows "exact_upto seeds nb (k + i) st"
proof -
  have "\<not> reach_from seeds nb d x" if "k \<le> d" for d x
    using reach_from_earlier [of seeds nb k "d - k" x] assms(2) that by auto
  then have "d < k" if "at_distance seeds nb d x" for d x using that by (auto simp: at_distance_def not_le [symmetric])
  then show ?thesis using assms(1) unfolding exact_upto_def by (metis less_imp_le trans_le_add1)
qed

lemma hop_loop_exact:
  assumes ex: "\<And>fr. \<exists>ps. expand fr = Inr ps \<and> (\<forall>x \<in> set fr. set (ps x) = set (nb x))"
    and "exact_upto seeds nb hop st" "\<And>x. x \<in> set fr \<longleftrightarrow> reach_from seeds nb hop x" "\<not> bf_truncated st"
  shows "\<exists>st' hubs'. hop_loop left expand maxNodes False thr hop fr st hubs = Inr (st', hubs')
    \<and> (\<not> bf_truncated st' \<longrightarrow> exact_upto seeds nb (hop + left) st')"
  using assms(2-)
proof (induction left arbitrary: hop fr st hubs)
  case (Suc left)
  show ?case
  proof (cases "fr = []")
    case True
    then show ?thesis using exact_exhausted [OF Suc.prems(1), of "Suc left"] Suc.prems(2) by simp
  next
    case False
    obtain ps where ps: "expand fr = Inr ps" "\<forall>x \<in> set fr. set (ps x) = set (nb x)" using ex by blast
    obtain st1 hubs1 next1 where e: "frontier_loop maxNodes False thr (Suc hop) ps fr st hubs [] = (st1, hubs1, next1)"
      using prod_cases3 by blast
    have run: "hop_loop (Suc left) expand maxNodes False thr hop fr st hubs
        = hop_loop left expand maxNodes False thr (Suc hop) next1 st1 hubs1"
      using False Suc.prems(3) ps(1) e by simp
    show ?thesis
    proof (cases "bf_truncated st1")
      case True
      then have "hop_loop left expand maxNodes False thr (Suc hop) next1 st1 hubs1 = Inr (st1, hubs1)"
        by (cases left) auto
      then show ?thesis using run True by simp
    next
      case False
      note fl = frontier_loop_exact [OF e False]
      have S: "x \<in> (\<Union>x \<in> set fr. set (ps x)) \<longleftrightarrow> reach_from seeds nb (Suc hop) x" for x
        using ps(2) Suc.prems(2) by (auto simp: reach_from_Suc)
      have "exact_upto seeds nb (Suc hop) st1" using exact_step [OF Suc.prems(1) S] fl by blast
      moreover have "x \<in> set next1 \<longleftrightarrow> reach_from seeds nb (Suc hop) x" for x using fl S by auto
      ultimately show ?thesis using Suc.IH [of "Suc hop" st1 next1 hubs1] False run by simp
    qed
  qed
qed simp

section \<open>The whole call\<close>

lemma applied_bounds:
  "1 \<le> op_MaxDepth (applied opt h)" "op_MaxDepth (applied opt h) \<le> HardMaxDepth"
  "1 \<le> op_MaxNodes (applied opt h)" "op_MaxNodes (applied opt h) \<le> HardMaxNodes"
  by (auto simp: applied_def Let_def DefaultMaxDepth_def HardMaxDepth_def DefaultMaxNodes_def HardMaxNodes_def)

lemma applied_threshold: "op_HubDegreeThreshold (applied opt h) =
    (if op_HubDegreeThreshold opt = 0 then h else op_HubDegreeThreshold opt)"
  by (simp add: applied_def Let_def)

lemma seed_frontier_exact:
  assumes "seed_frontier maxNodes xs st fr = (st', fr')"
  shows "(bf_truncated st \<longrightarrow> bf_truncated st') \<and> (\<not> bf_truncated st' \<longrightarrow> fr' = fr @ filter (\<lambda>x. x \<noteq> []) xs
    \<and> bf_visited st' = visit_all 0 (set xs - {[]}) (bf_visited st))"
  using assms
proof (induction xs arbitrary: st fr)
  case (Cons x xs)
  show ?case
  proof (cases "x = []")
    case True
    then show ?thesis using Cons.IH [of st fr] Cons.prems by simp
  next
    case False
    obtain st1 ok where e: "enqueue maxNodes x 0 st = (st1, ok)" by force
    have ins: "{x} \<union> (set xs - {[]}) = set (x # xs) - {[]}" using False by auto
    show ?thesis
    proof (cases ok)
      case True
      then have "seed_frontier maxNodes xs st1 (fr @ [x]) = (st', fr')" using Cons.prems e False by simp
      then show ?thesis
        using Cons.IH [of st1 "fr @ [x]"] enqueue_exact [OF e] True False ins by (auto simp: visit_all_union)
    next
      case nok: False
      then have "seed_frontier maxNodes xs st1 fr = (st', fr')" using Cons.prems e False by simp
      then show ?thesis using Cons.IH [of st1 fr] enqueue_exact(1) [OF e] nok by auto
    qed
  qed
qed simp

text \<open>The nodes one hop away in a service over the SQL edge reader.\<close>

definition service_hop :: "edge_row list \<Rightarrow> string \<Rightarrow> string \<Rightarrow> Options \<Rightarrow> int \<Rightarrow> string \<Rightarrow> string list" where
  "service_hop edges r b opts h = hop_neighbours (sql_in edges r b) (sql_out edges r b) (op_Direction (applied opts h))"

lemma Of_Inr:
  assumes "Of s r b seeds opts = Inr resp"
  obtains st0 fr st hubs hyd where
    "seed_frontier (nat (op_MaxNodes (applied opts (sv_defaultHubDegree s)))) seeds bfs_start [] = (st0, fr)"
    "hop_loop (nat (op_MaxDepth (applied opts (sv_defaultHubDegree s))))
       (\<lambda>fr. expandPerSource s r b fr (op_Direction (applied opts (sv_defaultHubDegree s))))
       (nat (op_MaxNodes (applied opts (sv_defaultHubDegree s))))
       (op_HubDegreeThreshold (applied opts (sv_defaultHubDegree s)) > 0)
       (op_HubDegreeThreshold (applied opts (sv_defaultHubDegree s))) 0 fr st0 {} = Inr (st, hubs)"
    "resp = \<lparr>rs_Entries = map (entry_of_node (meta_by_id hyd) st hubs) (bf_order st),
       rs_Truncated = bf_truncated st, rs_IncludedStaging = False\<rparr>"
  using assms by (auto simp: Of_def Let_def split: sum.splits prod.splits)

lemma entry_of_node_sel [simp]:
  "be_NodeID (entry_of_node m st hubs x) = x"
  "bf_visited st x = Some d \<Longrightarrow> be_Distance (entry_of_node m st hubs x) = d"
  by (simp_all add: entry_of_node_def Let_def)

lemma Of_Inr_sql:
  assumes s: "sv_edges s = EdgeReaderRepo None edges" and of: "Of s r b seeds opts = Inr resp"
  defines "nb \<equiv> service_hop edges r b opts (sv_defaultHubDegree s)"
    and "ap \<equiv> applied opts (sv_defaultHubDegree s)"
  obtains st0 fr st hubs hyd where
    "seed_frontier (nat (op_MaxNodes ap)) seeds bfs_start [] = (st0, fr)"
    "hop_loop (nat (op_MaxDepth ap)) (\<lambda>fr. expandPerSource s r b fr (op_Direction ap)) (nat (op_MaxNodes ap))
       (op_HubDegreeThreshold ap > 0) (op_HubDegreeThreshold ap) 0 fr st0 {} = Inr (st, hubs)"
    "resp = \<lparr>rs_Entries = map (entry_of_node (meta_by_id hyd) st hubs) (bf_order st),
       rs_Truncated = bf_truncated st, rs_IncludedStaging = False\<rparr>"
    "bfs_inv (set seeds - {[]}) nb (nat (op_MaxNodes ap)) (nat (op_MaxDepth ap)) st"
proof -
  obtain st0 fr st hubs hyd where run:
    "seed_frontier (nat (op_MaxNodes ap)) seeds bfs_start [] = (st0, fr)"
    "hop_loop (nat (op_MaxDepth ap)) (\<lambda>fr. expandPerSource s r b fr (op_Direction ap)) (nat (op_MaxNodes ap))
       (op_HubDegreeThreshold ap > 0) (op_HubDegreeThreshold ap) 0 fr st0 {} = Inr (st, hubs)"
    "resp = \<lparr>rs_Entries = map (entry_of_node (meta_by_id hyd) st hubs) (bf_order st),
       rs_Truncated = bf_truncated st, rs_IncludedStaging = False\<rparr>"
    using of unfolding ap_def by (rule Of_Inr)
  have st0: "bfs_inv (set seeds - {[]}) nb (nat (op_MaxNodes ap)) 0 st0 \<and> set fr \<subseteq> set seeds - {[]}"
    by (rule seed_frontier_inv [OF bfs_inv_start _ _ run(1)]) auto
  have "\<forall>x \<in> set f. set (ps x) \<subseteq> set (nb x)" if "expandPerSource s r b f (op_Direction ap) = Inr ps" for f ps
    using sql_edges.expand_ok [OF s, of r b f "op_Direction ap"] that
    by (auto simp: nb_def service_hop_def ap_def)
  then have "bfs_inv (set seeds - {[]}) nb (nat (op_MaxNodes ap)) (0 + nat (op_MaxDepth ap)) st"
    by (rule hop_loop_inv [OF _ _ _ run(2)]) (use st0 in \<open>auto simp: reach_from_0\<close>)
  then show ?thesis using that [OF run] by simp
qed

lemma bfs_inv_entries:
  assumes "bfs_inv seeds nb maxNodes k st"
  shows "(\<exists>e \<in> set (map (entry_of_node m st hubs) (bf_order st)). be_NodeID e = x \<and> be_Distance e = d)
    \<longleftrightarrow> bf_visited st x = Some d"
proof -
  have "x \<in> set (bf_order st) \<longleftrightarrow> (\<exists>d. bf_visited st x = Some d)" for x
    using assms unfolding bfs_inv_def by (metis domD domI)
  then show ?thesis by auto
qed

lemma Of_sound:
  assumes s: "sv_edges s = EdgeReaderRepo None edges" and of: "Of s r b seeds opts = Inr resp"
  defines "nb \<equiv> service_hop edges r b opts (sv_defaultHubDegree s)"
    and "ap \<equiv> applied opts (sv_defaultHubDegree s)"
  shows "distinct (map be_NodeID (rs_Entries resp))" "length (rs_Entries resp) \<le> nat (op_MaxNodes ap)"
    "rs_Truncated resp \<longrightarrow> length (rs_Entries resp) = nat (op_MaxNodes ap)"
    "\<And>e. e \<in> set (rs_Entries resp) \<Longrightarrow> be_Distance e \<le> nat (op_MaxDepth ap)
       \<and> reach_from (set seeds - {[]}) nb (be_Distance e) (be_NodeID e)"
proof -
  obtain st hubs hyd where
    resp: "resp = \<lparr>rs_Entries = map (entry_of_node (meta_by_id hyd) st hubs) (bf_order st),
       rs_Truncated = bf_truncated st, rs_IncludedStaging = False\<rparr>" and
    inv: "bfs_inv (set seeds - {[]}) nb (nat (op_MaxNodes ap)) (nat (op_MaxDepth ap)) st"
    using Of_Inr_sql [OF s of] unfolding nb_def ap_def by blast
  show "distinct (map be_NodeID (rs_Entries resp))" "length (rs_Entries resp) \<le> nat (op_MaxNodes ap)"
    "rs_Truncated resp \<longrightarrow> length (rs_Entries resp) = nat (op_MaxNodes ap)"
    using inv by (simp_all add: resp bfs_inv_def comp_def)
  show "be_Distance e \<le> nat (op_MaxDepth ap) \<and> reach_from (set seeds - {[]}) nb (be_Distance e) (be_NodeID e)"
    if "e \<in> set (rs_Entries resp)" for e
  proof -
    have "bf_visited st (be_NodeID e) = Some (be_Distance e)"
      using bfs_inv_entries [OF inv, of "meta_by_id hyd" hubs "be_NodeID e" "be_Distance e"] that resp by auto
    then show ?thesis using inv unfolding bfs_inv_def by blast
  qed
qed

lemma Of_exact:
  assumes s: "sv_edges s = EdgeReaderRepo None edges" and gate: "op_HubDegreeThreshold opts < 0"
    and of: "Of s r b seeds opts = Inr resp" and full: "\<not> rs_Truncated resp"
  defines "nb \<equiv> service_hop edges r b opts (sv_defaultHubDegree s)"
    and "ap \<equiv> applied opts (sv_defaultHubDegree s)"
  shows "(\<exists>e \<in> set (rs_Entries resp). be_NodeID e = x \<and> be_Distance e = d)
    \<longleftrightarrow> d \<le> nat (op_MaxDepth ap) \<and> at_distance (set seeds - {[]}) nb d x"
proof -
  obtain st0 fr st hubs hyd where run:
    "seed_frontier (nat (op_MaxNodes ap)) seeds bfs_start [] = (st0, fr)"
    "hop_loop (nat (op_MaxDepth ap)) (\<lambda>fr. expandPerSource s r b fr (op_Direction ap)) (nat (op_MaxNodes ap))
       (op_HubDegreeThreshold ap > 0) (op_HubDegreeThreshold ap) 0 fr st0 {} = Inr (st, hubs)"
    "resp = \<lparr>rs_Entries = map (entry_of_node (meta_by_id hyd) st hubs) (bf_order st),
       rs_Truncated = bf_truncated st, rs_IncludedStaging = False\<rparr>" and
    inv: "bfs_inv (set seeds - {[]}) nb (nat (op_MaxNodes ap)) (nat (op_MaxDepth ap)) st"
    using Of_Inr_sql [OF s of] unfolding nb_def ap_def by blast
  have off: "(op_HubDegreeThreshold ap > 0) = False" using gate by (simp add: ap_def applied_threshold)
  have nt0: "\<not> bf_truncated st0"
  proof
    assume "bf_truncated st0"
    then have "st = st0" using run(2) by (cases "nat (op_MaxDepth ap)") auto
    then show False using \<open>bf_truncated st0\<close> full run(3) by simp
  qed
  note sf = seed_frontier_exact [OF run(1)]
  have fr: "x \<in> set fr \<longleftrightarrow> reach_from (set seeds - {[]}) nb 0 x" for x
    using sf nt0 by (auto simp: reach_from_0)
  have ex0: "exact_upto (set seeds - {[]}) nb 0 st0"
    using sf nt0 by (auto simp: exact_upto_def bfs_start_def visit_all_def at_distance_def reach_from_0)
  have "\<exists>ps. expandPerSource s r b f (op_Direction ap) = Inr ps \<and> (\<forall>x \<in> set f. set (ps x) = set (nb x))" for f
    using sql_edges.expand_ok [OF s, of r b f "op_Direction ap"] by (simp add: nb_def service_hop_def ap_def)
  from hop_loop_exact [OF this ex0 fr nt0, where left = "nat (op_MaxDepth ap)" and maxNodes = "nat (op_MaxNodes ap)"
      and thr = "op_HubDegreeThreshold ap" and hubs = "{}"]
  have ex: "exact_upto (set seeds - {[]}) nb (nat (op_MaxDepth ap)) st"
    using run(2,3) full unfolding off by auto
  then show ?thesis
    using bfs_inv_entries [OF inv, of "meta_by_id hyd" hubs x d] by (simp add: run(3) exact_upto_def)
qed

section \<open>Properties\<close>

text \<open>
  C26. A blast radius respects its bounds whatever the request asks for: depth at most the hard
  maximum, no node twice, at most the applied node budget, truncation only reported when that
  budget is used up, and every entry reachable from a seed in as many hops as it claims.
\<close>

theorem blast_radius_bounded_and_sound:
  assumes "sv_edges s = EdgeReaderRepo None edges" and "Of s r b seeds opts = Inr resp"
  shows "distinct (map be_NodeID (rs_Entries resp)) \<and> length (rs_Entries resp) \<le> 10000
    \<and> int (length (rs_Entries resp)) \<le> op_MaxNodes (applied opts (sv_defaultHubDegree s))
    \<and> (rs_Truncated resp \<longrightarrow> int (length (rs_Entries resp)) = op_MaxNodes (applied opts (sv_defaultHubDegree s)))
    \<and> (\<forall>e \<in> set (rs_Entries resp). be_Distance e \<le> 10
         \<and> int (be_Distance e) \<le> op_MaxDepth (applied opts (sv_defaultHubDegree s))
         \<and> (\<exists>seed \<in> set seeds. seed \<noteq> [] \<and>
              reach_in (service_hop edges r b opts (sv_defaultHubDegree s)) (be_Distance e) seed (be_NodeID e)))"
proof -
  note bd = applied_bounds [where opt = opts and h = "sv_defaultHubDegree s"]
  note sound = Of_sound [OF assms]
  have nodes: "int (length (rs_Entries resp)) \<le> op_MaxNodes (applied opts (sv_defaultHubDegree s))"
    using sound(2) bd(3) by linarith
  have trunc: "rs_Truncated resp \<longrightarrow> int (length (rs_Entries resp)) = op_MaxNodes (applied opts (sv_defaultHubDegree s))"
    using sound(3) bd(3) by auto
  have "be_Distance e \<le> 10 \<and> int (be_Distance e) \<le> op_MaxDepth (applied opts (sv_defaultHubDegree s))
      \<and> (\<exists>seed \<in> set seeds. seed \<noteq> [] \<and>
           reach_in (service_hop edges r b opts (sv_defaultHubDegree s)) (be_Distance e) seed (be_NodeID e))"
    if "e \<in> set (rs_Entries resp)" for e
    using sound(4) [OF that] bd(1,2) unfolding reach_from_def HardMaxDepth_def by auto
  then show ?thesis using sound(1) nodes trunc bd(4) unfolding HardMaxNodes_def by auto
qed

definition sample_edge :: "string \<Rightarrow> string \<Rightarrow> edge_row" where
  "sample_edge src dst = \<lparr>er_edge_id = src @ dst, er_repo_id = ''r'', er_branch = ''main'', er_kind = ''CALLS'',
     er_src_node_id = src, er_dst_node_id = dst\<rparr>"

definition sample_meta :: "string \<Rightarrow> NodeMeta" where
  "sample_meta x = \<lparr>nm_NodeID = x, nm_SymbolPath = x, nm_FilePath = ''a.go'', nm_Kind = ''function'', nm_LineStart = 1,
     nm_LineEnd = 2, nm_Snippet = []\<rparr>"

definition sample_service :: "edge_row list \<Rightarrow> Service" where
  "sample_service edges = \<lparr>sv_edges = EdgeReaderRepo None edges,
     sv_nodes = \<lparr>nl_LookupNodes = (\<lambda>_ _ ids. Inr (map sample_meta ids)), nl_NodesInFile = (\<lambda>_ _ _. Inr []), nl_NodeContentHash = None\<rparr>,
     sv_staging = None, sv_defaultHubDegree = 50\<rparr>"

definition sample_opts :: "int \<Rightarrow> Options" where
  "sample_opts hub = \<lparr>op_MaxDepth = 2, op_MaxNodes = 100, op_Direction = [], op_HubDegreeThreshold = hub\<rparr>"

definition sample_edges :: "edge_row list" where
  "sample_edges = [sample_edge ''c'' ''s'', sample_edge ''d'' ''c'']"

lemma sample_of_run:
  "map_sum id (\<lambda>resp. (map (\<lambda>e. (be_NodeID e, be_Distance e)) (rs_Entries resp), rs_Truncated resp))
     (Of (sample_service sample_edges) ''r'' ''main'' [''s''] (sample_opts (-1)))
   = Inr ([(''s'', 0), (''c'', 1), (''d'', 2)], False)"
  by code_simp

lemma sample_of:
  obtains resp where "Of (sample_service sample_edges) ''r'' ''main'' [''s''] (sample_opts (-1)) = Inr resp"
    "(''d'', 2) \<in> (\<lambda>e. (be_NodeID e, be_Distance e)) ` set (rs_Entries resp)" "\<not> rs_Truncated resp"
proof -
  obtain resp where of: "Of (sample_service sample_edges) ''r'' ''main'' [''s''] (sample_opts (-1)) = Inr resp"
    and en: "map (\<lambda>e. (be_NodeID e, be_Distance e)) (rs_Entries resp) = [(''s'', 0), (''c'', 1), (''d'', 2)]" "\<not> rs_Truncated resp"
    using sample_of_run by (cases "Of (sample_service sample_edges) ''r'' ''main'' [''s''] (sample_opts (-1))") auto
  have "(''d'', 2) \<in> set (map (\<lambda>e. (be_NodeID e, be_Distance e)) (rs_Entries resp))" unfolding en by simp
  then show ?thesis using that [OF of _ en(2)] by (simp only: set_map)
qed

lemma sample_service_sel: "sv_edges (sample_service es) = EdgeReaderRepo None es" "sv_defaultHubDegree (sample_service es) = 50"
  by (simp_all add: sample_service_def)

theorem blast_radius_bounded_and_sound_witness:
  "\<exists>resp. Of (sample_service sample_edges) ''r'' ''main'' [''s''] (sample_opts (-1)) = Inr resp
     \<and> length (rs_Entries resp) \<le> 10000"
proof (rule sample_of)
  fix resp
  assume of: "Of (sample_service sample_edges) ''r'' ''main'' [''s''] (sample_opts (-1)) = Inr resp"
  show ?thesis using blast_radius_bounded_and_sound [OF sample_service_sel(1) of] of by blast
qed

text \<open>
  C23. With the hub gate switched off and no truncation, the search is exact: a node is listed
  at distance \<open>d\<close> if and only if \<open>d\<close> is within the applied depth and is its distance from the
  seeds over the edges of the chosen direction.
\<close>

theorem blast_radius_exact:
  assumes "sv_edges s = EdgeReaderRepo None edges" and "op_HubDegreeThreshold opts < 0"
    and "Of s r b seeds opts = Inr resp" and "\<not> rs_Truncated resp"
  shows "(\<exists>e \<in> set (rs_Entries resp). be_NodeID e = x \<and> be_Distance e = d)
    \<longleftrightarrow> d \<le> nat (op_MaxDepth (applied opts (sv_defaultHubDegree s)))
      \<and> at_distance (set seeds - {[]}) (service_hop edges r b opts (sv_defaultHubDegree s)) d x"
  using assms by (rule Of_exact)

theorem blast_radius_exact_witness:
  "at_distance {''s''} (service_hop sample_edges ''r'' ''main'' (sample_opts (-1)) 50) 2 ''d''"
proof (rule sample_of)
  fix resp
  assume of: "Of (sample_service sample_edges) ''r'' ''main'' [''s''] (sample_opts (-1)) = Inr resp"
    and d: "(''d'', 2) \<in> (\<lambda>e. (be_NodeID e, be_Distance e)) ` set (rs_Entries resp)" and full: "\<not> rs_Truncated resp"
  have hub: "op_HubDegreeThreshold (sample_opts (-1)) < 0" by (simp add: sample_opts_def)
  have "\<exists>e \<in> set (rs_Entries resp). be_NodeID e = ''d'' \<and> be_Distance e = 2" using d by (elim imageE) (metis prod.inject)
  then have "at_distance (set [''s''] - {[]}) (service_hop sample_edges ''r'' ''main'' (sample_opts (-1)) 50) 2 ''d''"
    unfolding blast_radius_exact [OF sample_service_sel(1) hub of full] sample_service_sel by (elim conjE)
  moreover have "set [''s''] - {[]} = {''s''}" by simp
  ultimately show ?thesis by simp
qed

text \<open>
  The hub gate can misfire: a node that two seeds lead to is put on the frontier twice, the
  expansion then lists its neighbours twice, and with two callers and a threshold of three it is
  cut off as a hub although its degree is two; without the duplicate it is expanded.
\<close>

theorem hub_gate_counts_duplicates:
  "map_sum id (\<lambda>resp. map (\<lambda>e. (be_NodeID e, be_IsHub e)) (rs_Entries resp))
     (Of (sample_service [sample_edge ''x'' ''s1'', sample_edge ''x'' ''s2'', sample_edge ''y1'' ''x'', sample_edge ''y2'' ''x''])
       ''r'' ''main'' [''s1'', ''s2''] (sample_opts 3))
     = Inr [(''s1'', False), (''s2'', False), (''x'', True)]
   \<and> map_sum id (\<lambda>resp. map (\<lambda>e. (be_NodeID e, be_IsHub e)) (rs_Entries resp))
     (Of (sample_service [sample_edge ''x'' ''s1'', sample_edge ''y1'' ''x'', sample_edge ''y2'' ''x''])
       ''r'' ''main'' [''s1'', ''s2''] (sample_opts 3))
     = Inr [(''s1'', False), (''s2'', False), (''x'', False), (''y1'', False), (''y2'', False)]"
  by (intro conjI; code_simp)

text \<open>
  Edits to symbols that are not promoted yet have no blast radius: when none of the staged
  nodes is known to the lookup, \<open>DirtyOf\<close> fails with \<open>ErrSeedNotFound\<close> instead of returning a
  response without entries.
\<close>

theorem dirty_of_new_symbols_fails:
  assumes "sv_staging s = Some area" and "\<forall>x \<in> set (dirty_seeds s area r b). x \<noteq> []" and "dirty_seeds s area r b \<noteq> []"
    and "nl_LookupNodes (sv_nodes s) r b (dirty_seeds s area r b) = Inr []"
  shows "\<exists>e. DirtyOf s r b opts = Inl e \<and> errors_is e ErrSeedNotFound"
proof -
  have "filter (\<lambda>x. x \<noteq> []) (dirty_seeds s area r b) = dirty_seeds s area r b" using assms(2) by (simp add: filter_id_conv)
  then show ?thesis using assms by (simp add: DirtyOf_def Of_def seed_check_def Let_def)
qed

definition dirty_service :: Service where
  "dirty_service = \<lparr>sv_edges = EdgeReaderRepo None [],
     sv_nodes = \<lparr>nl_LookupNodes = (\<lambda>_ _ _. Inr []), nl_NodesInFile = (\<lambda>_ _ _. Inr []), nl_NodeContentHash = None\<rparr>,
     sv_staging = Some (fst (Stage NewArea ''r'' ''main'' ''a.go'' (empty_file\<lparr>sf_Nodes := [Some sample_node]\<rparr>) [])),
     sv_defaultHubDegree = 50\<rparr>"

theorem dirty_of_new_symbols_fails_witness:
  "\<exists>e. DirtyOf dirty_service ''r'' ''main'' (sample_opts 0) = Inl e \<and> errors_is e ErrSeedNotFound"
proof -
  let ?a = "fst (Stage NewArea ''r'' ''main'' ''a.go'' (empty_file\<lparr>sf_Nodes := [Some sample_node]\<rparr>) [])"
  have seeds: "dirty_seeds dirty_service ?a ''r'' ''main'' = [''n1'']"
    by (simp add: dirty_seeds_def dirty_service_def Stage_unguarded area_put_def NewArea_def gm_put_def Snapshot_def
        unchanged_node_def sample_node_def blank_node_def file_of_def entry_of_def empty_file_def)
  show ?thesis
    by (rule dirty_of_new_symbols_fails [where area = ?a]) (simp_all add: seeds, simp_all add: dirty_service_def)
qed

end
