(* ===== verification/Diff_Gate.thy ===== *)
theory Diff_Gate
  imports Ingest Revalidate Blast_Radius
begin

text \<open>
  The diff-safety gate of \<open>internal/application/diffgate\<close>: the change source over two git refs
  (\<open>changesource.go\<close>), the indexer that parses a candidate into an overlay (\<open>indexer.go\<close>), the
  changed nodes (\<open>changednodes.go\<close>), the verifier (\<open>verify.go\<close>), the scope guard with its fixpoint
  (\<open>guard.go\<close>) and the gate that composes them (\<open>gate.go\<close>). Git, the parser and the base graph are
  ports; the base graph is instantiated with the SQL adapters.
\<close>

section \<open>The candidate change\<close>

definition ErrMissingDependency_diffgate :: err where
  "ErrMissingDependency_diffgate = Errs ''diffgate: missing required dependency''"

definition ErrFileAbsentAtRef :: err where
  "ErrFileAbsentAtRef = Errs ''diffgate: file absent at ref''"

record FileChange =
  fc_Path :: string
  fc_Content :: string
  fc_Deleted :: bool

record RefChangeSource =
  rc_repoRoot :: string
  rc_baseRef :: string
  rc_candidateRef :: string
  rc_changedFiles :: "string \<Rightarrow> string \<Rightarrow> string \<Rightarrow> string list result"
  rc_fileAtRef :: "string \<Rightarrow> string \<Rightarrow> string \<Rightarrow> string result"

definition NewRefChangeSource ::
  "string \<Rightarrow> string \<Rightarrow> string \<Rightarrow> (string \<Rightarrow> string \<Rightarrow> string \<Rightarrow> string list result) option
     \<Rightarrow> (string \<Rightarrow> string \<Rightarrow> string \<Rightarrow> string result) option \<Rightarrow> RefChangeSource result" where
  "NewRefChangeSource repoRoot baseRef candidateRef changedFiles fileAtRef =
     (if repoRoot = [] then Inl (Wrap ''%w: repoRoot is empty'' [] ErrMissingDependency_diffgate)
      else if baseRef = [] \<or> candidateRef = [] then Inl (Wrap ''%w: baseRef/candidateRef is empty'' [] ErrMissingDependency_diffgate)
      else case changedFiles of
        None \<Rightarrow> Inl (Wrap ''%w: changedFiles func is nil'' [] ErrMissingDependency_diffgate)
      | Some cf \<Rightarrow>
          (case fileAtRef of
             None \<Rightarrow> Inl (Wrap ''%w: fileAtRef func is nil'' [] ErrMissingDependency_diffgate)
           | Some fr \<Rightarrow> Inr \<lparr>rc_repoRoot = repoRoot, rc_baseRef = baseRef, rc_candidateRef = candidateRef,
                            rc_changedFiles = cf, rc_fileAtRef = fr\<rparr>))"

definition read_change :: "RefChangeSource \<Rightarrow> string \<Rightarrow> FileChange result" where
  "read_change s p =
     (case rc_fileAtRef s (rc_repoRoot s) (rc_candidateRef s) p of
        Inl e \<Rightarrow> if errors_is e ErrFileAbsentAtRef then Inr \<lparr>fc_Path = p, fc_Content = [], fc_Deleted = True\<rparr>
                 else Inl (Wrap ''diffgate: read %s at %s: %w'' [p, rc_candidateRef s] e)
      | Inr content \<Rightarrow> Inr \<lparr>fc_Path = p, fc_Content = content, fc_Deleted = False\<rparr>)"

definition Changes :: "RefChangeSource \<Rightarrow> FileChange list result" where
  "Changes s =
     (case rc_changedFiles s (rc_repoRoot s) (rc_baseRef s) (rc_candidateRef s) of
        Inl e \<Rightarrow> Inl (Wrap ''diffgate: list changed files: %w'' [] e)
      | Inr paths \<Rightarrow> map_r (read_change s) paths)"

section \<open>The ephemeral graph\<close>

text \<open>
  The base graph with its ports. The two capabilities that the code finds by a type assertion are
  optional: \<open>nl_NodeContentHash\<close> of the node lookup and \<open>bg_NodesByContentHash\<close>.
\<close>

record BaseGraph =
  bg_edges :: EdgeReader
  bg_nodes :: NodeLookup
  bg_InboundCallEdges :: "string \<Rightarrow> string \<Rightarrow> string list \<Rightarrow> (string \<Rightarrow> string list) result"
  bg_NodesByContentHash :: "(string \<Rightarrow> string \<Rightarrow> string \<Rightarrow> string list \<Rightarrow> NodeRef list result) option"

record Ephemeral =
  ep_Base :: BaseGraph
  ep_Overlay :: Area
  ep_RepoID :: string
  ep_Branch :: string
  ep_ChangedFiles :: "string list"

record Indexer =
  ix_parser :: CodeParser

definition NewIndexer :: "CodeParser option \<Rightarrow> Indexer result" where
  "NewIndexer parser =
     (case parser of None \<Rightarrow> Inl (Wrap ''%w: parser is nil'' [] ErrMissingDependency_diffgate)
      | Some ps \<Rightarrow> Inr \<lparr>ix_parser = ps\<rparr>)"

definition index_change ::
  "Indexer \<Rightarrow> string \<Rightarrow> string \<Rightarrow> FileChange \<Rightarrow> Area \<times> string list \<Rightarrow> (Area \<times> string list) result" where
  "index_change ix repoID branch fc st =
     (if fc_Deleted fc
      then Inr (fst (Stage (fst st) repoID branch (fc_Path fc) empty_file []), snd st @ [fc_Path fc])
      else case cp_ParseFile (ix_parser ix) repoID (fc_Path fc) (fc_Content fc) of
             Inl e \<Rightarrow> Inl (Wrap ''diffgate: parse %s: %w'' [fc_Path fc] e)
           | Inr pr \<Rightarrow>
               Inr (fst (Stage (fst st) repoID branch (fc_Path fc)
                      (empty_file\<lparr>sf_Nodes := pr_Nodes pr, sf_Edges := pr_Edges pr,
                                  sf_UnresolvedCalls := pr_UnresolvedCalls pr, sf_Imports := pr_Imports pr\<rparr>) []),
                    snd st @ [fc_Path fc]))"

definition Index ::
  "Indexer \<Rightarrow> string \<Rightarrow> string \<Rightarrow> BaseGraph option \<Rightarrow> RefChangeSource option \<Rightarrow> Ephemeral result" where
  "Index ix repoID branch base src =
     (case base of
        None \<Rightarrow> Inl (Wrap ''%w: base graph is nil'' [] ErrMissingDependency_diffgate)
      | Some bg \<Rightarrow>
          (case src of
             None \<Rightarrow> Inl (Wrap ''%w: change source is nil'' [] ErrMissingDependency_diffgate)
           | Some s \<Rightarrow>
               (case Changes s of
                  Inl e \<Rightarrow> Inl (Wrap ''diffgate: read change source: %w'' [] e)
                | Inr changes \<Rightarrow>
                    bind_r (for_r (index_change ix repoID branch) changes (NewArea, []))
                      (\<lambda>(overlay, changedFiles).
                         Inr \<lparr>ep_Base = bg, ep_Overlay = overlay, ep_RepoID = repoID, ep_Branch = branch,
                              ep_ChangedFiles = changedFiles\<rparr>))))"

text \<open>A node is dropped only when the base reports its non-empty hash and it is the candidate's.\<close>

definition confirmed_unchanged :: "Ephemeral \<Rightarrow> Node \<Rightarrow> bool" where
  "confirmed_unchanged e n \<longleftrightarrow>
     (case nl_NodeContentHash (bg_nodes (ep_Base e)) of
        None \<Rightarrow> False
      | Some hasher \<Rightarrow>
          (case n_ContentHash n of
             None \<Rightarrow> False
           | Some h \<Rightarrow>
               (case hasher (ep_RepoID e) (ep_Branch e) (n_ID n) of
                  Inl _ \<Rightarrow> False
                | Inr baseHash \<Rightarrow> baseHash \<noteq> [] \<and> baseHash = h)))"

definition overlay_files :: "Ephemeral \<Rightarrow> File list" where
  "overlay_files e = map snd (Snapshot (ep_Overlay e) (ep_RepoID e) (ep_Branch e))"

definition ChangedNodeIDs :: "Ephemeral \<Rightarrow> string list" where
  "ChangedNodeIDs e =
     sort (dedup (map n_ID (filter (\<lambda>n. \<not> confirmed_unchanged e n)
                              (concat (map (\<lambda>f. somes (sf_Nodes f)) (overlay_files e))))))"

section \<open>The verifier\<close>

definition resolvableRules :: "string list" where
  "resolvableRules = [''dead-code'']"

record VerifyVerdict =
  vv_Rule :: string
  vv_ResolutionChecked :: bool
  vv_TargetResolved :: bool
  vv_NewFindingsChecked :: bool
  vv_NewFindings :: "string list"
  vv_NewFindingsCoveredRules :: "string list"

record Discovery =
  ds_Ran :: bool
  ds_BaseIDs :: "string list"
  ds_CandidateIDs :: "string list"
  ds_CoveredRules :: "string list"

definition overlay_call :: "Ephemeral \<Rightarrow> string \<Rightarrow> string \<Rightarrow> string \<Rightarrow> bool" where
  "overlay_call eph repoID branch nodeID \<longleftrightarrow>
     list_ex (\<lambda>f. list_ex (\<lambda>e. e_Resolved e \<and> e_Kind e = EdgeCalls \<and> e_Tgt e = nodeID) (somes (sf_Edges f)))
       (map snd (Snapshot (ep_Overlay eph) repoID branch))"

definition ephemeralPredicates :: "Ephemeral \<Rightarrow> PredicateSource" where
  "ephemeralPredicates eph =
     \<lparr>ps_HasInboundCallEdges = (\<lambda>repoID branch nodeID.
        (case bg_InboundCallEdges (ep_Base eph) repoID branch [nodeID] of
           Inl e \<Rightarrow> Inl (Wrap ''diffgate: base inbound call edges for %q: %w'' [nodeID] e)
         | Inr base \<Rightarrow> Inr (base nodeID \<noteq> [] \<or> overlay_call eph repoID branch nodeID))),
      ps_NodeSignaturePair = (\<lambda>_ _ _. Inr ([], [])),
      ps_HasTestCaller = (\<lambda>_ _ _. Inr False)\<rparr>"

definition new_finding_ids :: "Discovery \<Rightarrow> string list" where
  "new_finding_ids disc = sort (dedup (filter (\<lambda>x. x \<noteq> [] \<and> x \<notin> set (ds_BaseIDs disc)) (ds_CandidateIDs disc)))"

definition Verify :: "Ephemeral option \<Rightarrow> Finding option \<Rightarrow> Discovery \<Rightarrow> VerifyVerdict result" where
  "Verify eph target disc =
     (case eph of
        None \<Rightarrow> Inl (Wrap ''%w: ephemeral graph is nil'' [] ErrMissingDependency_diffgate)
      | Some ep \<Rightarrow>
          (case target of
             None \<Rightarrow> Inl (Wrap ''%w: target finding is nil'' [] ErrMissingDependency_diffgate)
           | Some t \<Rightarrow>
               let out = \<lparr>vv_Rule = f_Rule t, vv_ResolutionChecked = False, vv_TargetResolved = False,
                          vv_NewFindingsChecked = False, vv_NewFindings = [], vv_NewFindingsCoveredRules = []\<rparr>
               in bind_r
                    (case f_NodeID t of
                       Some node \<Rightarrow>
                         if f_Rule t \<in> set resolvableRules
                         then (case Decide (ep_RepoID ep) (ep_Branch ep)
                                 \<lparr>sf_FindingID = f_FindingID t, sf_NodeID = node, sf_Rule = f_Rule t,
                                  sf_AnchorHash = [], sf_CurrentHash = []\<rparr> (ephemeralPredicates ep) of
                                 Inl e \<Rightarrow> Inl (Wrap ''diffgate: verify resolution for %q: %w'' [f_FindingID t] e)
                               | Inr d \<Rightarrow> Inr (out\<lparr>vv_ResolutionChecked := True,
                                                    vv_TargetResolved := (fd_Kind d = DecisionClose)\<rparr>))
                         else Inr out
                     | None \<Rightarrow> Inr out)
                    (\<lambda>out. Inr (if ds_Ran disc
                                then out\<lparr>vv_NewFindingsChecked := True, vv_NewFindingsCoveredRules := ds_CoveredRules disc,
                                          vv_NewFindings := new_finding_ids disc\<rparr>
                                else out))))"

section \<open>The scope guard\<close>

record ScopeVerdict =
  so_Contained :: bool
  so_AnchorNodeID :: string
  so_Offending :: "string list"
  so_Truncated :: bool

record Guard =
  gd_radius :: "string \<Rightarrow> string \<Rightarrow> string list \<Rightarrow> Options \<Rightarrow> Response result"

definition NewGuard :: "(string \<Rightarrow> string \<Rightarrow> string list \<Rightarrow> Options \<Rightarrow> Response result) option \<Rightarrow> Guard result" where
  "NewGuard radius =
     (case radius of None \<Rightarrow> Inl (Wrap ''%w: blast-radius service is nil'' [] ErrMissingDependency_diffgate)
      | Some r \<Rightarrow> Inr \<lparr>gd_radius = r\<rparr>)"

definition newNodes :: "Ephemeral \<Rightarrow> string list \<Rightarrow> string list result" where
  "newNodes eph changed =
     (if changed = [] then Inr []
      else case nl_LookupNodes (bg_nodes (ep_Base eph)) (ep_RepoID eph) (ep_Branch eph) changed of
             Inl e \<Rightarrow> Inl (Wrap ''diffgate: guard base membership lookup: %w'' [] e)
           | Inr metas \<Rightarrow> Inr (filter (\<lambda>x. x \<notin> nm_NodeID ` set metas) (dedup changed)))"

text \<open>The undirected adjacency over the resolved edges of the overlay.\<close>

definition wired_edges :: "Ephemeral \<Rightarrow> Edge list" where
  "wired_edges eph =
     filter (\<lambda>e. e_Resolved e \<and> e_Src e \<noteq> [] \<and> e_Tgt e \<noteq> []) (concat (map (\<lambda>f. somes (sf_Edges f)) (overlay_files eph)))"

definition wire_edge :: "(string \<Rightarrow> string list) \<Rightarrow> Edge \<Rightarrow> string \<Rightarrow> string list" where
  "wire_edge adj e =
     (let adj1 = adj(e_Src e := adj (e_Src e) @ [e_Tgt e])
      in adj1(e_Tgt e := adj1 (e_Tgt e) @ [e_Src e]))"

definition wired_adj :: "Ephemeral \<Rightarrow> string \<Rightarrow> string list" where
  "wired_adj eph = foldl wire_edge (\<lambda>_. []) (wired_edges eph)"

text \<open>One pass over the new nodes, with the flag \<open>grew\<close>; then passes until none grows the set.\<close>

fun admit_pass :: "(string \<Rightarrow> string list) \<Rightarrow> string list \<Rightarrow> string set \<Rightarrow> bool \<Rightarrow> string set \<times> bool" where
  "admit_pass adj [] allowed grew = (allowed, grew)"
| "admit_pass adj (n # ns) allowed grew =
     (if n \<in> allowed then admit_pass adj ns allowed grew
      else if list_ex (\<lambda>nbr. nbr \<in> allowed) (adj n) then admit_pass adj ns (insert n allowed) True
      else admit_pass adj ns allowed grew)"

lemma admit_pass_mono: "admit_pass adj ns A g = (A', g') \<Longrightarrow> A \<subseteq> A' \<and> A' \<subseteq> A \<union> set ns \<and> (g \<longrightarrow> g')"
  by (induction adj ns A g rule: admit_pass.induct) (auto split: if_splits)

lemma admit_pass_grew: "admit_pass adj ns A g = (A', g') \<Longrightarrow> \<not> g \<Longrightarrow> g' \<longleftrightarrow> A' \<noteq> A"
proof (induction adj ns A g rule: admit_pass.induct)
  case (2 adj n ns A g)
  show ?case
  proof (cases "n \<notin> A \<and> list_ex (\<lambda>nbr. nbr \<in> A) (adj n)")
    case True
    then have "admit_pass adj ns (insert n A) True = (A', g')" using 2(4) by simp
    then show ?thesis using admit_pass_mono [of adj ns "insert n A" True A' g'] True by auto
  next
    case False
    then show ?thesis using 2 by (auto split: if_splits)
  qed
qed simp

lemma admit_decreases:
  assumes p: "admit_pass adj ns A False = (A', True)"
  shows "card (set ns - A') < card (set ns - A)"
proof -
  have "A \<subseteq> A'" "A' \<subseteq> A \<union> set ns" "A' \<noteq> A"
    using admit_pass_mono [OF p] admit_pass_grew [OF p] by auto
  then have "set ns - A' \<subset> set ns - A" by blast
  then show ?thesis by (simp add: psubset_card_mono)
qed

function admit_loop :: "(string \<Rightarrow> string list) \<Rightarrow> string list \<Rightarrow> string set \<Rightarrow> string set" where
  "admit_loop adj ns allowed =
     (case admit_pass adj ns allowed False of (allowed', grew) \<Rightarrow>
        if grew then admit_loop adj ns allowed' else allowed')"
  by pat_completeness auto
termination
  by (relation "measure (\<lambda>(adj, ns, A). card (set ns - A))") (auto dest: admit_decreases [OF sym])

definition admitNewWired :: "string set \<Rightarrow> string list \<Rightarrow> Ephemeral \<Rightarrow> string set" where
  "admitNewWired allowed new eph = (if new = [] then allowed else admit_loop (wired_adj eph) new allowed)"

definition Check :: "Guard \<Rightarrow> Ephemeral option \<Rightarrow> string \<Rightarrow> Options \<Rightarrow> ScopeVerdict result" where
  "Check g eph anchor opts =
     (case eph of
        None \<Rightarrow> Inl (Wrap ''%w: ephemeral graph is nil'' [] ErrMissingDependency_diffgate)
      | Some ep \<Rightarrow>
          if anchor = [] then Inl (Errs ''diffgate: guard requires a node-anchored finding (empty anchor)'')
          else case gd_radius g (ep_RepoID ep) (ep_Branch ep) [anchor] opts of
                 Inl e \<Rightarrow> Inl (Wrap ''diffgate: blast radius of anchor %q: %w'' [anchor] e)
               | Inr resp \<Rightarrow>
                   bind_r (newNodes ep (ChangedNodeIDs ep)) (\<lambda>new.
                     let allowed = admitNewWired (insert anchor (be_NodeID ` set (rs_Entries resp))) new ep;
                         offending = filter (\<lambda>x. x \<noteq> [] \<and> x \<notin> allowed) (ChangedNodeIDs ep)
                     in Inr \<lparr>so_Contained = (offending = []), so_AnchorNodeID = anchor,
                             so_Offending = sort offending, so_Truncated = rs_Truncated resp\<rparr>))"

section \<open>The gate\<close>

definition FailUnresolved :: string where "FailUnresolved = ''unresolved''"
definition FailResolutionUnchecked :: string where "FailResolutionUnchecked = ''resolution_unchecked''"
definition FailNewFindings :: string where "FailNewFindings = ''new_findings''"
definition FailDiscoveryUnchecked :: string where "FailDiscoveryUnchecked = ''discovery_unchecked''"
definition FailBlastRadiusExceeded :: string where "FailBlastRadiusExceeded = ''blast_radius_exceeded''"
definition FailAnchorNotResolved :: string where "FailAnchorNotResolved = ''anchor_not_resolved''"
definition FailRepoNotIndexed :: string where "FailRepoNotIndexed = ''repo_not_indexed''"

record GateVerdict =
  gv_Pass :: bool
  gv_Failures :: "string list"
  gv_Verify :: VerifyVerdict
  gv_Scope :: ScopeVerdict

definition GateVerdict_ExitCode :: "GateVerdict \<Rightarrow> int" where
  "GateVerdict_ExitCode v = (if gv_Pass v then 0 else 1)"

definition derefAnchor :: "Finding \<Rightarrow> string" where
  "derefAnchor f = (case f_NodeID f of None \<Rightarrow> [] | Some n \<Rightarrow> n)"

definition NewGate :: "unit option \<Rightarrow> Guard option \<Rightarrow> Guard result" where
  "NewGate verifier guard =
     (case verifier of
        None \<Rightarrow> Inl (Wrap ''%w: verifier is nil'' [] ErrMissingDependency_diffgate)
      | Some _ \<Rightarrow>
          (case guard of
             None \<Rightarrow> Inl (Wrap ''%w: guard is nil'' [] ErrMissingDependency_diffgate)
           | Some g \<Rightarrow> Inr g))"

definition zero_scope :: "string \<Rightarrow> ScopeVerdict" where
  "zero_scope anchor = \<lparr>so_Contained = False, so_AnchorNodeID = anchor, so_Offending = [], so_Truncated = False\<rparr>"

definition verify_failures :: "VerifyVerdict \<Rightarrow> string list" where
  "verify_failures vv =
     (if \<not> vv_ResolutionChecked vv then [FailResolutionUnchecked]
      else if \<not> vv_TargetResolved vv then [FailUnresolved] else [])
     @ (if \<not> vv_NewFindingsChecked vv then [FailDiscoveryUnchecked]
        else if vv_NewFindings vv \<noteq> [] then [FailNewFindings] else [])"

text \<open>The scope check, with the failures it adds.\<close>

definition scope_part ::
  "Guard \<Rightarrow> Ephemeral option \<Rightarrow> Finding \<Rightarrow> Options \<Rightarrow> (ScopeVerdict \<times> string list) result" where
  "scope_part g eph target radiusOpts =
     (case f_NodeID target of
        None \<Rightarrow> Inr (zero_scope (derefAnchor target), [])
      | Some node \<Rightarrow>
          (case Check g eph node radiusOpts of
             Inl e \<Rightarrow> if errors_is e ErrSeedNotFound then Inr (zero_scope node, [FailAnchorNotResolved])
                      else Inl (Wrap ''diffgate: guard: %w'' [] e)
           | Inr sv \<Rightarrow> Inr (sv, if so_Contained sv then [] else [FailBlastRadiusExceeded])))"

definition Gate_Evaluate ::
  "Guard \<Rightarrow> Ephemeral option \<Rightarrow> Finding option \<Rightarrow> Discovery \<Rightarrow> Options \<Rightarrow> GateVerdict result" where
  "Gate_Evaluate g eph target disc radiusOpts =
     (case eph of
        None \<Rightarrow> Inl (Wrap ''%w: ephemeral graph is nil'' [] ErrMissingDependency_diffgate)
      | Some ep \<Rightarrow>
          (case target of
             None \<Rightarrow> Inl (Wrap ''%w: target finding is nil'' [] ErrMissingDependency_diffgate)
           | Some t \<Rightarrow>
               (case Verify eph target disc of
                  Inl e \<Rightarrow> Inl (Wrap ''diffgate: verify: %w'' [] e)
                | Inr vv \<Rightarrow>
                    bind_r (scope_part g eph t radiusOpts) (\<lambda>(sv, extra).
                      let failures = verify_failures vv @ extra
                      in Inr \<lparr>gv_Pass = (failures = []), gv_Failures = failures, gv_Verify = vv, gv_Scope = sv\<rparr>))))"


declare admit_loop.simps [simp del]

section \<open>The fixpoint of the guard\<close>

text \<open>
  The reference: a node is admitted if it is allowed to begin with, or new and wired to an
  admitted node.
\<close>

inductive admitted :: "(string \<Rightarrow> string \<Rightarrow> bool) \<Rightarrow> string set \<Rightarrow> string set \<Rightarrow> string \<Rightarrow> bool" for W new base where
  allowed: "x \<in> base \<Longrightarrow> admitted W new base x"
| wired: "n \<in> new \<Longrightarrow> W n y \<Longrightarrow> admitted W new base y \<Longrightarrow> admitted W new base n"

lemma admit_pass_sound:
  "admit_pass adj ns A g = (A', g') \<Longrightarrow> set ns \<subseteq> new \<Longrightarrow> \<forall>x \<in> A. admitted (\<lambda>x y. y \<in> set (adj x)) new base x
     \<Longrightarrow> x \<in> A' \<Longrightarrow> admitted (\<lambda>x y. y \<in> set (adj x)) new base x"
proof (induction adj ns A g rule: admit_pass.induct)
  case (2 adj n ns A g)
  show ?case
  proof (cases "n \<notin> A \<and> list_ex (\<lambda>nbr. nbr \<in> A) (adj n)")
    case True
    then obtain y where "y \<in> set (adj n)" "y \<in> A" by (auto simp: list_ex_iff)
    then have "admitted (\<lambda>x y. y \<in> set (adj x)) new base n" using 2(5,6) by (auto intro: admitted.wired)
    then show ?thesis using True 2 by auto
  next
    case False
    then show ?thesis using 2 by (auto split: if_splits)
  qed
qed auto

lemma admit_pass_fixed:
  "admit_pass adj ns A False = (A', False) \<Longrightarrow> n \<in> set ns \<Longrightarrow> y \<in> set (adj n) \<Longrightarrow> y \<in> A \<Longrightarrow> n \<in> A"
proof (induction ns)
  case (Cons m ns)
  show ?case
  proof (cases "m \<notin> A \<and> list_ex (\<lambda>nbr. nbr \<in> A) (adj m)")
    case True
    then have "admit_pass adj ns (insert m A) True = (A', False)" using Cons.prems(1) by simp
    then show ?thesis using admit_pass_mono by blast
  next
    case False
    then show ?thesis using Cons by (auto simp: list_ex_iff split: if_splits)
  qed
qed simp

lemma admit_loop_exact:
  "x \<in> admit_loop adj ns A \<longleftrightarrow> admitted (\<lambda>x y. y \<in> set (adj x)) (set ns) A x"
proof (induction adj ns A rule: admit_loop.induct)
  case (1 adj ns A)
  let ?adm = "admitted (\<lambda>x y. y \<in> set (adj x)) (set ns)"
  obtain A' g where p: "admit_pass adj ns A False = (A', g)" by force
  show ?case
  proof (cases g)
    case True
    have step: "admit_loop adj ns A = admit_loop adj ns A'" using p True by (subst admit_loop.simps) simp
    have "?adm A' x \<longleftrightarrow> ?adm A x"
    proof
      assume "?adm A' x"
      then show "?adm A x"
        by induction (auto intro: admitted.wired admit_pass_sound [OF p] admitted.allowed)
    next
      assume "?adm A x"
      then show "?adm A' x"
        by induction (use admit_pass_mono [OF p] in \<open>auto intro: admitted.intros\<close>)
    qed
    then show ?thesis using 1 [OF p [symmetric]] True step by simp
  next
    case False
    then have same: "A' = A" using admit_pass_grew [OF p] by simp
    have "?adm A x \<Longrightarrow> x \<in> A"
      by (induction rule: admitted.induct) (use admit_pass_fixed p False in auto)
    then show ?thesis using p False same by (subst admit_loop.simps) (auto intro: admitted.allowed)
  qed
qed

definition wired_to :: "Ephemeral \<Rightarrow> string \<Rightarrow> string \<Rightarrow> bool" where
  "wired_to eph x y \<longleftrightarrow> (\<exists>f \<in> set (overlay_files eph). \<exists>e \<in> set (somes (sf_Edges f)).
     e_Resolved e \<and> e_Src e \<noteq> [] \<and> e_Tgt e \<noteq> [] \<and> (e_Src e = x \<and> e_Tgt e = y \<or> e_Tgt e = x \<and> e_Src e = y))"

lemma set_wire_edges:
  "y \<in> set (foldl wire_edge adj es x)
     \<longleftrightarrow> y \<in> set (adj x) \<or> (\<exists>e \<in> set es. e_Src e = x \<and> e_Tgt e = y \<or> e_Tgt e = x \<and> e_Src e = y)"
  by (induction es arbitrary: adj) (auto simp: wire_edge_def Let_def)

lemma set_wired_adj: "y \<in> set (wired_adj eph x) \<longleftrightarrow> wired_to eph x y"
  unfolding wired_adj_def wired_to_def set_wire_edges wired_edges_def by auto

lemma admitNewWired_exact: "x \<in> admitNewWired A new eph \<longleftrightarrow> admitted (wired_to eph) (set new) A x"
proof -
  have "admitted W {} A x \<longleftrightarrow> x \<in> A" for W
    by (auto elim: admitted.cases intro: admitted.allowed)
  then show ?thesis by (auto simp: admitNewWired_def admit_loop_exact set_wired_adj)
qed

lemma Check_exact:
  assumes "Check g (Some ep) anchor opts = Inr sv"
  obtains resp new where "gd_radius g (ep_RepoID ep) (ep_Branch ep) [anchor] opts = Inr resp"
    "newNodes ep (ChangedNodeIDs ep) = Inr new" "anchor \<noteq> []"
    "so_Contained sv \<longleftrightarrow> (\<forall>x \<in> set (ChangedNodeIDs ep). x = []
       \<or> admitted (wired_to ep) (set new) (insert anchor (be_NodeID ` set (rs_Entries resp))) x)"
    "so_Truncated sv = rs_Truncated resp"
  using assms that
  by (auto simp: Check_def bind_r_Inr Let_def admitNewWired_exact filter_empty_conv split: if_splits sum.splits)

section \<open>The gate over the SQL graph\<close>

definition sql_base :: "edge_row list \<Rightarrow> NodeLookup \<Rightarrow> (string \<Rightarrow> string \<Rightarrow> string \<Rightarrow> string list \<Rightarrow> NodeRef list result) option \<Rightarrow> BaseGraph" where
  "sql_base edges nodes clones =
     \<lparr>bg_edges = EdgeReaderRepo None edges, bg_nodes = nodes, bg_InboundCallEdges = InboundCallEdges None edges,
      bg_NodesByContentHash = clones\<rparr>"

definition candidate_calls :: "edge_row list \<Rightarrow> Ephemeral \<Rightarrow> string \<Rightarrow> string \<Rightarrow> string \<Rightarrow> bool" where
  "candidate_calls edges eph r b n \<longleftrightarrow> (\<exists>e \<in> set edges. call_into r b n e) \<or> overlay_call eph r b n"

lemma inbound_call_edges:
  "\<exists>adj. InboundCallEdges None edges r b [n] = Inr adj \<and> (adj n \<noteq> [] \<longleftrightarrow> (\<exists>e \<in> set edges. call_into r b n e))"
proof -
  let ?rows = "filter (\<lambda>e. er_repo_id e = r \<and> er_branch e = b \<and> er_dst_node_id e = n \<and> er_kind e = ''CALLS'') edges"
  have "filter (\<lambda>e. er_dst_node_id e = n) ?rows = ?rows" by (auto simp: filter_filter intro: filter_cong)
  then show ?thesis
    by (auto simp: InboundCallEdges_def adjacency_def Let_def foldl_group filter_empty_conv call_into_def)
qed

interpretation candidate: predicate_source "ephemeralPredicates (eph\<lparr>ep_Base := sql_base edges nodes clones\<rparr>)"
  "candidate_calls edges eph" "\<lambda>_ _ _. False" "\<lambda>_ _ _. False" for eph edges nodes clones
proof unfold_locales
  fix r b n
  obtain adj where "InboundCallEdges None edges r b [n] = Inr adj" "adj n \<noteq> [] \<longleftrightarrow> (\<exists>e \<in> set edges. call_into r b n e)"
    using inbound_call_edges by blast
  then show "ps_HasInboundCallEdges (ephemeralPredicates (eph\<lparr>ep_Base := sql_base edges nodes clones\<rparr>)) r b n
      = Inr (candidate_calls edges eph r b n)"
    by (simp add: ephemeralPredicates_def sql_base_def candidate_calls_def overlay_call_def)
qed (simp_all add: ephemeralPredicates_def)

lemma Verify_eq:
  assumes base: "ep_Base ep = sql_base edges nodes clones"
  shows "Verify (Some ep) (Some t) disc = Inr
    \<lparr>vv_Rule = f_Rule t, vv_ResolutionChecked = (f_Rule t = ''dead-code'' \<and> f_NodeID t \<noteq> None),
     vv_TargetResolved = (f_Rule t = ''dead-code'' \<and>
       (case f_NodeID t of None \<Rightarrow> False | Some node \<Rightarrow> candidate_calls edges ep (ep_RepoID ep) (ep_Branch ep) node)),
     vv_NewFindingsChecked = ds_Ran disc, vv_NewFindings = (if ds_Ran disc then new_finding_ids disc else []),
     vv_NewFindingsCoveredRules = (if ds_Ran disc then ds_CoveredRules disc else [])\<rparr>"
proof -
  have ep: "ep\<lparr>ep_Base := sql_base edges nodes clones\<rparr> = ep" using base by simp
  note dec = candidate.Decide_total [where eph = ep and edges = edges and nodes = nodes and clones = clones, unfolded ep]
  show ?thesis
  proof (cases "f_Rule t = ''dead-code''")
    case True
    then show ?thesis
      by (simp add: Verify_def resolvableRules_def dec bind_r_def still_fires_def close_of_def refresh_of_def DecisionKind_differ
          Let_def split: option.split)
  next
    case False
    then show ?thesis by (simp add: Verify_def resolvableRules_def bind_r_def Let_def split: option.split)
  qed
qed

lemma new_finding_ids_empty:
  "new_finding_ids disc = [] \<longleftrightarrow> set (ds_CandidateIDs disc) \<subseteq> insert [] (set (ds_BaseIDs disc))"
  by (auto simp: new_finding_ids_def filter_empty_conv)

lemma verify_failures_empty:
  assumes base: "ep_Base ep = sql_base edges nodes clones" and v: "Verify (Some ep) (Some t) disc = Inr vv"
  shows "verify_failures vv = [] \<longleftrightarrow> f_Rule t = ''dead-code''
    \<and> (\<exists>node. f_NodeID t = Some node \<and> candidate_calls edges ep (ep_RepoID ep) (ep_Branch ep) node)
    \<and> ds_Ran disc \<and> set (ds_CandidateIDs disc) \<subseteq> insert [] (set (ds_BaseIDs disc))"
  using v unfolding Verify_eq [OF base] by (auto simp: verify_failures_def new_finding_ids_empty split: option.splits)

text \<open>What a contained candidate is: every changed node is admitted from the anchor and its radius.\<close>

definition in_scope_of :: "Guard \<Rightarrow> Ephemeral \<Rightarrow> Options \<Rightarrow> string \<Rightarrow> bool" where
  "in_scope_of g ep opts anchor \<longleftrightarrow> anchor \<noteq> [] \<and> (\<exists>resp new.
     gd_radius g (ep_RepoID ep) (ep_Branch ep) [anchor] opts = Inr resp \<and> newNodes ep (ChangedNodeIDs ep) = Inr new
     \<and> (\<forall>x \<in> set (ChangedNodeIDs ep). x = []
          \<or> admitted (wired_to ep) (set new) (insert anchor (be_NodeID ` set (rs_Entries resp))) x))"

lemma scope_part_empty:
  assumes "scope_part g (Some ep) t opts = Inr (sv, extra)"
  shows "extra = [] \<longleftrightarrow> (\<forall>node. f_NodeID t = Some node \<longrightarrow> in_scope_of g ep opts node)"
proof (cases "f_NodeID t")
  case None
  then show ?thesis using assms by (simp add: scope_part_def)
next
  case (Some node)
  show ?thesis
  proof (cases "Check g (Some ep) node opts")
    case (Inl e)
    then have "\<not> in_scope_of g ep opts node"
      by (auto simp: Check_def in_scope_of_def bind_r_def Let_def split: if_splits)
    then show ?thesis using assms Some Inl by (auto simp: scope_part_def split: if_splits)
  next
    case (Inr sv')
    obtain resp new where r: "gd_radius g (ep_RepoID ep) (ep_Branch ep) [node] opts = Inr resp"
      "newNodes ep (ChangedNodeIDs ep) = Inr new" "node \<noteq> []"
      "so_Contained sv' \<longleftrightarrow> (\<forall>x \<in> set (ChangedNodeIDs ep). x = []
         \<or> admitted (wired_to ep) (set new) (insert node (be_NodeID ` set (rs_Entries resp))) x)"
      using Check_exact [OF Inr] by metis
    have "in_scope_of g ep opts node \<longleftrightarrow> so_Contained sv'" using r by (simp add: in_scope_of_def)
    then show ?thesis using assms Some Inr by (auto simp: scope_part_def split: if_splits)
  qed
qed

section \<open>What the indexer builds\<close>

definition candidate_file :: "Indexer \<Rightarrow> string \<Rightarrow> FileChange \<Rightarrow> File result" where
  "candidate_file ix repoID fc =
     (if fc_Deleted fc then Inr empty_file
      else map_sum id (\<lambda>pr. empty_file\<lparr>sf_Nodes := pr_Nodes pr, sf_Edges := pr_Edges pr,
             sf_UnresolvedCalls := pr_UnresolvedCalls pr, sf_Imports := pr_Imports pr\<rparr>)
           (cp_ParseFile (ix_parser ix) repoID (fc_Path fc) (fc_Content fc)))"

lemma index_change_Inr:
  "index_change ix r b fc st = Inr st' \<longleftrightarrow> (\<exists>f. candidate_file ix r fc = Inr f
     \<and> st' = (area_put (fst st) (mk_key r b (fc_Path fc)) (entry_of f), snd st @ [fc_Path fc]))"
  by (auto simp: index_change_def candidate_file_def Stage_unguarded map_sum_def split: if_splits sum.splits)

lemma index_changes:
  assumes "for_r (index_change ix r b) changes (area, ps) = Inr (area', ps')" and "area_wf area"
    and "distinct (map fc_Path changes)"
  shows "area_wf area' \<and> ps' = ps @ map fc_Path changes
    \<and> (\<forall>p. map_of (Snapshot area' r b) p = (case find (\<lambda>fc. fc_Path fc = p) changes of
          None \<Rightarrow> map_of (Snapshot area r b) p | Some fc \<Rightarrow> (case candidate_file ix r fc of Inr f \<Rightarrow> Some f | Inl _ \<Rightarrow> None)))"
  using assms
proof (induction changes arbitrary: area ps)
  case (Cons fc changes)
  obtain f where f: "candidate_file ix r fc = Inr f"
    and rest: "for_r (index_change ix r b) changes (area_put area (mk_key r b (fc_Path fc)) (entry_of f), ps @ [fc_Path fc])
      = Inr (area', ps')"
    using Cons.prems(1) by (auto simp: bind_r_Inr index_change_Inr)
  note wf = overlay.wf_put [OF Cons.prems(2), of "mk_key r b (fc_Path fc)" "entry_of f"]
  have none: "find (\<lambda>c. fc_Path c = fc_Path fc) changes = None"
    using Cons.prems(3) by (simp add: find_None_iff) (metis image_eqI)
  show ?case using Cons.IH [OF rest wf] Cons.prems(3) f none
    by (auto simp: overlay.snap_put [OF Cons.prems(2)] file_of_entry_of split: option.splits)
qed simp

lemma index_exact:
  assumes run: "Index ix r b (Some bg) (Some src) = Inr ep" and ch: "Changes src = Inr changes"
    and d: "distinct (map fc_Path changes)"
  shows "ep_Base ep = bg" "ep_ChangedFiles ep = map fc_Path changes"
    "map_of (Snapshot (ep_Overlay ep) r b) p =
      (case find (\<lambda>fc. fc_Path fc = p) changes of None \<Rightarrow> None
       | Some fc \<Rightarrow> (case candidate_file ix r fc of Inr f \<Rightarrow> Some f | Inl _ \<Rightarrow> None))"
proof -
  obtain area ps where st: "for_r (index_change ix r b) changes (NewArea, []) = Inr (area, ps)"
    "ep = \<lparr>ep_Base = bg, ep_Overlay = area, ep_RepoID = r, ep_Branch = b, ep_ChangedFiles = ps\<rparr>"
    using run ch by (auto simp: Index_def bind_r_Inr)
  note res = index_changes [OF st(1) area_wf_New d]
  show "ep_Base ep = bg" "ep_ChangedFiles ep = map fc_Path changes" using st(2) res by simp_all
  show "map_of (Snapshot (ep_Overlay ep) r b) p =
      (case find (\<lambda>fc. fc_Path fc = p) changes of None \<Rightarrow> None
       | Some fc \<Rightarrow> (case candidate_file ix r fc of Inr f \<Rightarrow> Some f | Inl _ \<Rightarrow> None))"
    using st(2) res overlay.get_snap [OF area_wf_New, of r b p] by (simp split: option.splits)
qed

section \<open>Properties\<close>

text \<open>
  C6. The gate passes a candidate exactly if the target is a node-anchored dead-code finding whose
  node has a caller in the base graph or among the candidate's resolved calls, the discovery ran
  and found no identity absent from the base, and every changed node is the anchor, in its blast
  radius, or a new node wired to an admitted one. In every other case it names a failure: a
  dimension that was not checked never passes.
\<close>

theorem gate_passes_exactly:
  assumes base: "ep_Base ep = sql_base edges nodes clones"
    and run: "Gate_Evaluate g (Some ep) (Some t) disc opts = Inr v"
  shows "(gv_Pass v \<longleftrightarrow> f_Rule t = ''dead-code'' \<and> ds_Ran disc
      \<and> set (ds_CandidateIDs disc) \<subseteq> insert [] (set (ds_BaseIDs disc))
      \<and> (\<exists>node. f_NodeID t = Some node \<and> candidate_calls edges ep (ep_RepoID ep) (ep_Branch ep) node
           \<and> in_scope_of g ep opts node))
    \<and> (gv_Pass v \<longleftrightarrow> gv_Failures v = []) \<and> (GateVerdict_ExitCode v = 0 \<longleftrightarrow> gv_Pass v)"
proof -
  obtain vv sv extra where st: "Verify (Some ep) (Some t) disc = Inr vv" "scope_part g (Some ep) t opts = Inr (sv, extra)"
    "v = \<lparr>gv_Pass = (verify_failures vv @ extra = []), gv_Failures = verify_failures vv @ extra, gv_Verify = vv, gv_Scope = sv\<rparr>"
    using run by (auto simp: Gate_Evaluate_def bind_r_Inr Let_def split: sum.splits)
  show ?thesis using verify_failures_empty [OF base st(1)] scope_part_empty [OF st(2)] st(3)
    by (auto simp: GateVerdict_ExitCode_def)
qed


section \<open>A concrete candidate\<close>

text \<open>The dead function \<open>d\<close>; the candidate adds a function \<open>n\<close> in a new file, with a resolved call to it.\<close>

definition fixing_file :: File where
  "fixing_file =
     empty_file\<lparr>sf_Nodes := [Some \<lparr>n_ID = ''n'', n_Path = ''n.go'', n_Name = ''N'', n_Kind = ''function'', n_Signature = None,
                   n_Lines = None, n_RawContent = None, n_ContentHash = None, n_StructuralHash = None, n_Language = None,
                   n_Exported = None, n_External = None, n_ShortSummary = None\<rparr>],
                sf_Edges := [Some \<lparr>e_ID = ''e'', e_Src = ''n'', e_Tgt = ''d'', e_Kind = EdgeCalls, e_Confidence = Definite,
                   e_Resolved = True, e_SourceLine = None, e_Score = None\<rparr>]\<rparr>"

definition dead_lookup :: NodeLookup where
  "dead_lookup = \<lparr>nl_LookupNodes = (\<lambda>_ _ ids. Inr (map sample_meta (filter (\<lambda>x. x = ''d'') ids))),
     nl_NodesInFile = (\<lambda>_ _ _. Inr []), nl_NodeContentHash = None\<rparr>"

definition fixing_candidate :: Ephemeral where
  "fixing_candidate = \<lparr>ep_Base = sql_base [] dead_lookup None,
     ep_Overlay = fst (Stage NewArea ''r'' ''main'' ''n.go'' fixing_file []), ep_RepoID = ''r'', ep_Branch = ''main'',
     ep_ChangedFiles = [''n.go'']\<rparr>"

definition radius_guard :: Guard where
  "radius_guard = \<lparr>gd_radius = Of \<lparr>sv_edges = EdgeReaderRepo None [], sv_nodes = dead_lookup, sv_staging = None,
                                    sv_defaultHubDegree = 50\<rparr>\<rparr>"

definition dead_finding_of :: "string option \<Rightarrow> Finding" where
  "dead_finding_of node = \<lparr>f_FindingID = ''f'', f_RepoID = ''r'', f_Branch = ''main'', f_Rule = ''dead-code'', f_Message = [],
     f_Severity = ''low'', f_SourceLayer = [], f_State = [], f_NodeID = node, f_FilePath = None, f_ClosedAt = None,
     f_ClosedReason = None, f_ActorID = None, f_ActorKind = None, f_findingKey = [], f_AnchorContentHash = None\<rparr>"

theorem gate_passes_exactly_witness:
  "\<exists>v. Gate_Evaluate radius_guard (Some fixing_candidate) (Some (dead_finding_of (Some ''d'')))
      \<lparr>ds_Ran = True, ds_BaseIDs = [''f''], ds_CandidateIDs = [], ds_CoveredRules = [''dead-code'']\<rparr> (sample_opts 0) = Inr v
    \<and> gv_Pass v \<and> in_scope_of radius_guard fixing_candidate (sample_opts 0) ''d''"
proof -
  let ?disc = "\<lparr>ds_Ran = True, ds_BaseIDs = [''f''], ds_CandidateIDs = [], ds_CoveredRules = [''dead-code'']\<rparr>"
  have "map_sum id gv_Pass (Gate_Evaluate radius_guard (Some fixing_candidate) (Some (dead_finding_of (Some ''d''))) ?disc (sample_opts 0))
      = Inr True"
    by code_simp
  then obtain v where v: "Gate_Evaluate radius_guard (Some fixing_candidate) (Some (dead_finding_of (Some ''d''))) ?disc (sample_opts 0) = Inr v"
    "gv_Pass v" by (auto simp: map_sum_def split: sum.splits)
  have "ep_Base fixing_candidate = sql_base [] dead_lookup None" by (simp add: fixing_candidate_def)
  from gate_passes_exactly [OF this v(1)] v show ?thesis by (auto simp: dead_finding_of_def)
qed

end
