(* ===== verification/Cycle_Search.thy ===== *)
theory Cycle_Search
  imports Prelude
begin

text \<open>
  \<open>stronglyConnected\<close> of \<open>internal/application/diffgate/cyclegate.go\<close>: an iterative version of
  Tarjan's algorithm, modelled with the maps, the stack, the frames and the loops of the
  source; a read from the empty stack would be a panic and is the value \<^term>\<open>None\<close>. The
  invariant of the search is split into the shape of the stacks, what has been seen, the two
  facts on low links, reachability along the frames, and the components already output; every
  round keeps it, so the search returns, never panics, and outputs exactly the strongly
  connected components.
\<close>

section \<open>The strongly connected components\<close>

record DirectedEdge =
  de_Src :: string
  de_Dst :: string

subsection \<open>Adjacency and node list\<close>

text \<open>The adjacency map: self-loops are dropped, targets are appended in edge order, then sorted.\<close>

fun build_adj :: "DirectedEdge list \<Rightarrow> (string \<Rightarrow> string list) \<Rightarrow> (string \<Rightarrow> string list)" where
  "build_adj [] adj = adj"
| "build_adj (e # es) adj =
     build_adj es (if de_Src e = de_Dst e then adj
                   else adj(de_Src e := adj (de_Src e) @ [de_Dst e]))"

definition dep_adj :: "DirectedEdge list \<Rightarrow> string \<Rightarrow> string list" where
  "dep_adj es = (\<lambda>v. sort (build_adj es (\<lambda>_. []) v))"

definition dep_nodes :: "DirectedEdge list \<Rightarrow> string list" where
  "dep_nodes es = sort (dedup (concat (map (\<lambda>e. [de_Src e, de_Dst e]) es)))"

subsection \<open>The state of the search\<close>

text \<open>
  The local variables of \<open>stronglyConnected\<close>. The slices used as stacks are kept with their last
  element first; a frame is a node with the next index into its adjacency list. A missing
  entry of \<open>lowlink\<close> or \<open>onStack\<close> reads as the zero value, so both are total functions.
\<close>

record tarjan =
  tj_index :: "string \<rightharpoonup> nat"
  tj_lowlink :: "string \<Rightarrow> nat"
  tj_onStack :: "string \<Rightarrow> bool"
  tj_stack :: "string list"
  tj_next :: nat
  tj_call :: "(string \<times> nat) list"
  tj_sccs :: "string list list"

definition tarjan_init :: tarjan where
  "tarjan_init = \<lparr>tj_index = Map.empty, tj_lowlink = (\<lambda>_. 0), tj_onStack = (\<lambda>_. False),
     tj_stack = [], tj_next = 0, tj_call = [], tj_sccs = []\<rparr>"

definition tarjan_push :: "string \<Rightarrow> tarjan \<Rightarrow> tarjan" where
  "tarjan_push v s = s\<lparr>tj_index := (tj_index s)(v \<mapsto> tj_next s),
     tj_lowlink := (tj_lowlink s)(v := tj_next s), tj_next := Suc (tj_next s),
     tj_stack := v # tj_stack s, tj_onStack := (tj_onStack s)(v := True)\<rparr>"

text \<open>The inner loop that pops a component up to its root.\<close>

fun pop_until :: "string \<Rightarrow> string list \<Rightarrow> (string \<Rightarrow> bool) \<Rightarrow> string list
    \<Rightarrow> (string list \<times> string list \<times> (string \<Rightarrow> bool)) option" where
  "pop_until v [] onS popped = None"
| "pop_until v (w # st) onS popped =
     (if w = v then Some (popped @ [w], st, onS(w := False))
      else pop_until v st (onS(w := False)) (popped @ [w]))"

text \<open>
  The node \<open>v\<close> is fully explored: if it roots a component, the component is popped. A node with
  a frame always has an index, so the comparison never reads a missing entry.
\<close>

definition tarjan_close :: "string \<Rightarrow> tarjan \<Rightarrow> tarjan option" where
  "tarjan_close v s =
     (if Some (tj_lowlink s v) = tj_index s v
      then case pop_until v (tj_stack s) (tj_onStack s) [] of None \<Rightarrow> None
           | Some (popped, st, onS) \<Rightarrow>
               Some (s\<lparr>tj_stack := st, tj_onStack := onS, tj_sccs := tj_sccs s @ [sort popped]\<rparr>)
      else Some s)"

text \<open>Leaving a frame: the low link of \<open>v\<close> is propagated to the parent frame, if any.\<close>

definition tarjan_return :: "string \<Rightarrow> (string \<times> nat) list \<Rightarrow> tarjan \<Rightarrow> tarjan" where
  "tarjan_return v rest s =
     (case rest of [] \<Rightarrow> s\<lparr>tj_call := rest\<rparr>
      | (p, _) # _ \<Rightarrow>
          (if tj_lowlink s v < tj_lowlink s p
           then s\<lparr>tj_call := rest, tj_lowlink := (tj_lowlink s)(p := tj_lowlink s v)\<rparr>
           else s\<lparr>tj_call := rest\<rparr>))"

text \<open>The next edge \<open>v \<rightarrow> w\<close> of the frame on top, whose index was already advanced.\<close>

definition tarjan_edge :: "string \<Rightarrow> string \<Rightarrow> tarjan \<Rightarrow> tarjan" where
  "tarjan_edge v w s =
     (case tj_index s w of
        None \<Rightarrow> (tarjan_push w s)\<lparr>tj_call := (w, 0) # tj_call s\<rparr>
      | Some i \<Rightarrow>
          (if tj_onStack s w \<and> i < tj_lowlink s v
           then s\<lparr>tj_lowlink := (tj_lowlink s)(v := i)\<rparr> else s))"

text \<open>One round of the loop \<open>for len(call) > 0\<close>.\<close>

definition tarjan_step :: "(string \<Rightarrow> string list) \<Rightarrow> tarjan \<Rightarrow> tarjan option" where
  "tarjan_step adj s =
     (case tj_call s of [] \<Rightarrow> Some s
      | (v, ei) # rest \<Rightarrow>
          (if ei < length (adj v)
           then Some (tarjan_edge v (adj v ! ei) (s\<lparr>tj_call := (v, Suc ei) # rest\<rparr>))
           else map_option (tarjan_return v rest) (tarjan_close v s)))"

text \<open>
  The measure of the loop: unvisited nodes, then the edges and frames that are left.
\<close>

definition frames_left :: "(string \<Rightarrow> string list) \<Rightarrow> (string \<times> nat) list \<Rightarrow> nat" where
  "frames_left adj call = sum_list (map (\<lambda>(v, ei). Suc (length (adj v) - ei)) call)"

definition unvisited :: "DirectedEdge list \<Rightarrow> tarjan \<Rightarrow> nat" where
  "unvisited es s = card (set (dep_nodes es) - dom (tj_index s))"

lemma set_build_adj:
  "y \<in> set (build_adj es adj x)
     \<longleftrightarrow> y \<in> set (adj x) \<or> (\<exists>e \<in> set es. de_Src e = x \<and> de_Dst e = y \<and> x \<noteq> y)"
  by (induction es adj rule: build_adj.induct) auto

lemma set_dep_adj:
  "y \<in> set (dep_adj es x) \<longleftrightarrow> (\<exists>e \<in> set es. de_Src e = x \<and> de_Dst e = y) \<and> x \<noteq> y"
  by (auto simp: dep_adj_def set_build_adj)

lemma set_dep_nodes: "set (dep_nodes es) = de_Src ` set es \<union> de_Dst ` set es"
  by (auto simp: dep_nodes_def)

lemma dep_adj_nodes: "y \<in> set (dep_adj es x) \<Longrightarrow> y \<in> set (dep_nodes es)"
  by (auto simp: set_dep_adj set_dep_nodes)

lemma pop_until_fields:
  assumes "tarjan_close v s = Some s'"
  shows "tj_index s' = tj_index s" and "tj_call s' = tj_call s" and "tj_lowlink s' = tj_lowlink s"
    and "tj_next s' = tj_next s"
  using assms by (auto simp: tarjan_close_def split: if_splits option.splits)

lemma tarjan_return_fields:
  shows "tj_index (tarjan_return v rest s) = tj_index s" and "tj_call (tarjan_return v rest s) = rest"
    and "tj_stack (tarjan_return v rest s) = tj_stack s"
    and "tj_onStack (tarjan_return v rest s) = tj_onStack s"
    and "tj_sccs (tarjan_return v rest s) = tj_sccs s"
    and "tj_next (tarjan_return v rest s) = tj_next s"
  by (auto simp: tarjan_return_def split: list.splits)

lemma tarjan_step_decreases:
  assumes call: "tj_call s \<noteq> []" and step: "tarjan_step (dep_adj es) s = Some s'"
  shows "((unvisited es s', frames_left (dep_adj es) (tj_call s')),
          (unvisited es s, frames_left (dep_adj es) (tj_call s))) \<in> less_than <*lex*> less_than"
proof -
  obtain v ei rest where c: "tj_call s = (v, ei) # rest" using call by (cases "tj_call s") auto
  show ?thesis
  proof (cases "ei < length (dep_adj es v)")
    case True
    define w where "w = dep_adj es v ! ei"
    have w: "w \<in> set (dep_nodes es)" using True dep_adj_nodes [of w es v] by (simp add: w_def)
    have s': "s' = tarjan_edge v w (s\<lparr>tj_call := (v, Suc ei) # rest\<rparr>)"
      using step c True by (simp add: tarjan_step_def w_def)
    show ?thesis
    proof (cases "tj_index s w")
      case None
      have "set (dep_nodes es) - insert w (dom (tj_index s)) \<subset> set (dep_nodes es) - dom (tj_index s)"
        using w None by auto
      then show ?thesis
        using s' None by (auto simp: tarjan_edge_def tarjan_push_def unvisited_def intro: psubset_card_mono)
    next
      case (Some i)
      have "tj_index s' = tj_index s" "tj_call s' = (v, Suc ei) # rest"
        using s' Some by (auto simp: tarjan_edge_def)
      then show ?thesis using c True by (auto simp: unvisited_def frames_left_def)
    qed
  next
    case False
    then obtain s1 where "tarjan_close v s = Some s1" "s' = tarjan_return v rest s1"
      using step c by (auto simp: tarjan_step_def)
    then have "tj_index s' = tj_index s" "tj_call s' = rest"
      by (simp_all add: pop_until_fields tarjan_return_fields)
    then show ?thesis using c by (auto simp: unvisited_def frames_left_def)
  qed
qed

function tarjan_loop :: "DirectedEdge list \<Rightarrow> tarjan \<Rightarrow> tarjan option" where
  "tarjan_loop es s =
     (if tj_call s = [] then Some s
      else case tarjan_step (dep_adj es) s of None \<Rightarrow> None | Some s' \<Rightarrow> tarjan_loop es s')"
  by auto
termination
  by (relation "inv_image (less_than <*lex*> less_than)
      (\<lambda>(es, s). (unvisited es s, frames_left (dep_adj es) (tj_call s)))")
    (auto dest: tarjan_step_decreases)

declare tarjan_loop.simps [simp del]

text \<open>The loop over the sorted nodes: every node not seen yet is the root of a new search.\<close>

fun tarjan_roots :: "DirectedEdge list \<Rightarrow> string list \<Rightarrow> tarjan \<Rightarrow> tarjan option" where
  "tarjan_roots es [] s = Some s"
| "tarjan_roots es (root # ns) s =
     (case tj_index s root of
        Some _ \<Rightarrow> tarjan_roots es ns s
      | None \<Rightarrow>
          (case tarjan_loop es ((tarjan_push root s)\<lparr>tj_call := [(root, 0)]\<rparr>) of
             None \<Rightarrow> None
           | Some s' \<Rightarrow> tarjan_roots es ns s'))"

definition stronglyConnected :: "DirectedEdge list \<Rightarrow> string list list option" where
  "stronglyConnected es = map_option tj_sccs (tarjan_roots es (dep_nodes es) tarjan_init)"

section \<open>The invariant of the search\<close>

definition ix :: "tarjan \<Rightarrow> string \<Rightarrow> nat" where
  "ix s x = the (tj_index s x)"

definition frames :: "tarjan \<Rightarrow> string set" where
  "frames s = fst ` set (tj_call s)"

definition processed :: "(string \<Rightarrow> string list) \<Rightarrow> tarjan \<Rightarrow> string \<Rightarrow> string set" where
  "processed adj s x = (case map_of (tj_call s) x of None \<Rightarrow> set (adj x) | Some e \<Rightarrow> set (take e (adj x)))"

definition scc_of :: "(string \<Rightarrow> string list) \<Rightarrow> string \<Rightarrow> string set" where
  "scc_of adj v = {y. (v, y) \<in> (edge_rel adj)\<^sup>* \<and> (y, v) \<in> (edge_rel adj)\<^sup>*}"

definition owner :: "tarjan \<Rightarrow> string \<Rightarrow> string \<Rightarrow> bool" where
  "owner s v x \<longleftrightarrow> v \<in> frames s \<and> ix s v \<le> ix s x \<and> (\<forall>u \<in> frames s. ix s u \<le> ix s x \<longrightarrow> ix s u \<le> ix s v)"

definition tj_shape :: "tarjan \<Rightarrow> bool" where
  "tj_shape s \<longleftrightarrow> (\<forall>x. tj_onStack s x \<longleftrightarrow> x \<in> set (tj_stack s))
     \<and> set (tj_stack s) \<subseteq> dom (tj_index s) \<and> (\<forall>x \<in> dom (tj_index s). ix s x < tj_next s)
     \<and> sorted_wrt (\<lambda>a b. ix s b < ix s a) (tj_stack s)
     \<and> frames s \<subseteq> set (tj_stack s) \<and> sorted_wrt (\<lambda>a b. ix s (fst b) < ix s (fst a)) (tj_call s)"

definition tj_seen :: "(string \<Rightarrow> string list) \<Rightarrow> tarjan \<Rightarrow> bool" where
  "tj_seen adj s \<longleftrightarrow>
     (\<forall>x \<in> dom (tj_index s) - set (tj_stack s). set (adj x) \<subseteq> dom (tj_index s) - set (tj_stack s))
     \<and> (\<forall>x \<in> set (tj_stack s). processed adj s x \<subseteq> dom (tj_index s))"

definition tj_low :: "(string \<Rightarrow> string list) \<Rightarrow> tarjan \<Rightarrow> bool" where
  "tj_low adj s \<longleftrightarrow> (\<forall>x \<in> set (tj_stack s). tj_lowlink s x \<le> ix s x
     \<and> (\<exists>w \<in> set (tj_stack s). ix s w = tj_lowlink s x \<and> (x, w) \<in> (edge_rel adj)\<^sup>*)
     \<and> (x \<notin> frames s \<longrightarrow> tj_lowlink s x < ix s x))"

definition tj_bound :: "(string \<Rightarrow> string list) \<Rightarrow> tarjan \<Rightarrow> bool" where
  "tj_bound adj s \<longleftrightarrow> (\<forall>x \<in> set (tj_stack s). \<forall>y \<in> set (tj_stack s) \<inter> processed adj s x.
     \<forall>v. owner s v x \<longrightarrow> tj_lowlink s v \<le> ix s y)"

definition tj_tree :: "(string \<Rightarrow> string list) \<Rightarrow> tarjan \<Rightarrow> bool" where
  "tj_tree adj s \<longleftrightarrow> (\<forall>v \<in> frames s. \<forall>x \<in> set (tj_stack s). ix s v \<le> ix s x \<longrightarrow> (v, x) \<in> (edge_rel adj)\<^sup>*)
     \<and> (\<forall>x \<in> set (tj_stack s). \<exists>v \<in> frames s. ix s v \<le> ix s x)"

definition tj_out :: "(string \<Rightarrow> string list) \<Rightarrow> tarjan \<Rightarrow> bool" where
  "tj_out adj s \<longleftrightarrow> distinct (concat (tj_sccs s))
     \<and> set (concat (tj_sccs s)) = dom (tj_index s) - set (tj_stack s)
     \<and> (\<forall>c \<in> set (tj_sccs s). sorted c \<and> (\<exists>v \<in> set c. set c = scc_of adj v))"

definition tj_inv :: "(string \<Rightarrow> string list) \<Rightarrow> tarjan \<Rightarrow> bool" where
  "tj_inv adj s \<longleftrightarrow> tj_shape s \<and> tj_seen adj s \<and> tj_low adj s \<and> tj_bound adj s \<and> tj_tree adj s \<and> tj_out adj s"

subsection \<open>Starting a search\<close>

text \<open>Visiting \<open>w\<close>: the new frame goes on top of \<open>c\<close>, the old frames with the top one advanced.\<close>

definition visit :: "string \<Rightarrow> (string \<times> nat) list \<Rightarrow> tarjan \<Rightarrow> tarjan" where
  "visit w c s = (tarjan_push w s)\<lparr>tj_call := (w, 0) # c\<rparr>"

definition extends_to :: "(string \<Rightarrow> string list) \<Rightarrow> string \<Rightarrow> (string \<times> nat) list \<Rightarrow> tarjan \<Rightarrow> bool" where
  "extends_to adj w c s \<longleftrightarrow> tj_index s w = None \<and> map fst c = map fst (tj_call s)
     \<and> (\<forall>x \<in> set (tj_stack s). processed adj (s\<lparr>tj_call := c\<rparr>) x \<subseteq> insert w (processed adj s x))
     \<and> (c \<noteq> [] \<longrightarrow> w \<in> set (adj (fst (hd c))))"

lemma visit_simps [simp]:
  "tj_index (visit w c s) = (tj_index s)(w \<mapsto> tj_next s)"
  "tj_lowlink (visit w c s) = (tj_lowlink s)(w := tj_next s)"
  "tj_onStack (visit w c s) = (tj_onStack s)(w := True)"
  "tj_stack (visit w c s) = w # tj_stack s"
  "tj_next (visit w c s) = Suc (tj_next s)"
  "tj_call (visit w c s) = (w, 0) # c"
  "tj_sccs (visit w c s) = tj_sccs s"
  by (simp_all add: visit_def tarjan_push_def)

lemma visit_facts:
  assumes "extends_to adj w c s" and "tj_shape s"
  shows "ix (visit w c s) w = tj_next s"
    and "x \<in> dom (tj_index s) \<Longrightarrow> ix (visit w c s) x = ix s x"
    and "x \<in> set (tj_stack s) \<Longrightarrow> ix (visit w c s) x = ix s x"
    and "w \<notin> set (tj_stack s)"
    and "frames (visit w c s) = insert w (frames s)"
    and "processed adj (visit w c s) w = {}"
    and "x \<in> set (tj_stack s) \<Longrightarrow> processed adj (visit w c s) x \<subseteq> insert w (processed adj s x)"
    and "x \<in> set (tj_stack s) \<Longrightarrow> ix s x < tj_next s"
    and "w \<notin> frames s"
proof -
  have w: "tj_index s w = None" using assms(1) by (simp add: extends_to_def)
  have st: "set (tj_stack s) \<subseteq> dom (tj_index s)" using assms(2) by (simp add: tj_shape_def)
  have eqf: "fst ` set c = fst ` set (tj_call s)"
    using assms(1) by (metis extends_to_def list.set_map)
  show "ix (visit w c s) w = tj_next s" by (simp add: ix_def)
  show dom: "ix (visit w c s) x = ix s x" if "x \<in> dom (tj_index s)" for x
    using that w by (auto simp: ix_def)
  show ws: "w \<notin> set (tj_stack s)" using w st by auto
  show "ix (visit w c s) x = ix s x" if "x \<in> set (tj_stack s)" using that st dom by auto
  show "frames (visit w c s) = insert w (frames s)" by (simp add: frames_def eqf)
  show "processed adj (visit w c s) w = {}" by (simp add: processed_def)
  show "ix s x < tj_next s" if "x \<in> set (tj_stack s)"
    using that st assms(2) by (auto simp: tj_shape_def)
  show "w \<notin> frames s" using ws assms(2) by (auto simp: tj_shape_def)
  show "processed adj (visit w c s) x \<subseteq> insert w (processed adj s x)" if "x \<in> set (tj_stack s)"
  proof -
    have "x \<noteq> w" using that ws by auto
    then have "processed adj (visit w c s) x = processed adj (s\<lparr>tj_call := c\<rparr>) x"
      by (simp add: processed_def)
    then show ?thesis using assms(1) that by (simp add: extends_to_def)
  qed
qed

lemma sorted_wrt_ix_map:
  "sorted_wrt (\<lambda>a b. ix s (fst b) < ix s (fst a)) c \<longleftrightarrow> sorted_wrt (\<lambda>a b. ix s b < ix s a) (map fst c)"
  by (simp add: sorted_wrt_map)

lemma frames_on_stack: "tj_shape s \<Longrightarrow> v \<in> frames s \<Longrightarrow> v \<in> set (tj_stack s)"
  by (auto simp: tj_shape_def)

lemma seen_doneD:
  assumes "tj_seen adj s" and "x \<in> dom (tj_index s)" and "x \<notin> set (tj_stack s)" and "y \<in> set (adj x)"
  shows "y \<in> dom (tj_index s)" and "y \<notin> set (tj_stack s)"
  using assms unfolding tj_seen_def by blast+

lemma seen_processedD:
  "tj_seen adj s \<Longrightarrow> x \<in> set (tj_stack s) \<Longrightarrow> y \<in> processed adj s x \<Longrightarrow> y \<in> dom (tj_index s)"
  unfolding tj_seen_def by blast

lemma lowD:
  assumes "tj_low adj s" and "x \<in> set (tj_stack s)"
  shows "tj_lowlink s x \<le> ix s x"
    and "\<exists>w \<in> set (tj_stack s). ix s w = tj_lowlink s x \<and> (x, w) \<in> (edge_rel adj)\<^sup>*"
    and "x \<notin> frames s \<Longrightarrow> tj_lowlink s x < ix s x"
  using assms unfolding tj_low_def by blast+

lemma lowI:
  assumes "\<And>x. x \<in> set (tj_stack s) \<Longrightarrow> tj_lowlink s x \<le> ix s x"
    and "\<And>x. x \<in> set (tj_stack s)
      \<Longrightarrow> \<exists>w \<in> set (tj_stack s). ix s w = tj_lowlink s x \<and> (x, w) \<in> (edge_rel adj)\<^sup>*"
    and "\<And>x. x \<in> set (tj_stack s) \<Longrightarrow> x \<notin> frames s \<Longrightarrow> tj_lowlink s x < ix s x"
  shows "tj_low adj s"
  using assms unfolding tj_low_def by blast

lemma boundD:
  "tj_bound adj s \<Longrightarrow> x \<in> set (tj_stack s) \<Longrightarrow> y \<in> set (tj_stack s) \<Longrightarrow> y \<in> processed adj s x
     \<Longrightarrow> owner s v x \<Longrightarrow> tj_lowlink s v \<le> ix s y"
  unfolding tj_bound_def by blast

lemma boundI:
  "(\<And>x y v. x \<in> set (tj_stack s) \<Longrightarrow> y \<in> set (tj_stack s) \<Longrightarrow> y \<in> processed adj s x
     \<Longrightarrow> owner s v x \<Longrightarrow> tj_lowlink s v \<le> ix s y) \<Longrightarrow> tj_bound adj s"
  unfolding tj_bound_def by blast

lemma treeD:
  assumes "tj_tree adj s" and "x \<in> set (tj_stack s)"
  shows "v \<in> frames s \<Longrightarrow> ix s v \<le> ix s x \<Longrightarrow> (v, x) \<in> (edge_rel adj)\<^sup>*"
    and "\<exists>v \<in> frames s. ix s v \<le> ix s x"
  using assms unfolding tj_tree_def by blast+

lemma treeI:
  assumes "\<And>x v. x \<in> set (tj_stack s) \<Longrightarrow> v \<in> frames s \<Longrightarrow> ix s v \<le> ix s x
      \<Longrightarrow> (v, x) \<in> (edge_rel adj)\<^sup>*"
    and "\<And>x. x \<in> set (tj_stack s) \<Longrightarrow> \<exists>v \<in> frames s. ix s v \<le> ix s x"
  shows "tj_tree adj s"
  using assms unfolding tj_tree_def by blast

lemma invD:
  assumes "tj_inv adj s"
  shows "tj_shape s" and "tj_seen adj s" and "tj_low adj s" and "tj_bound adj s" and "tj_tree adj s"
    and "tj_out adj s"
  using assms by (simp_all add: tj_inv_def)

lemma top_frame_max:
  assumes "tj_shape s" and "tj_call s = (v, ei) # rest" and "u \<in> frames s"
  shows "ix s u \<le> ix s v"
  using assms by (auto simp: tj_shape_def frames_def less_imp_le)

lemma visit_shape:
  assumes ext: "extends_to adj w c s" and "tj_shape s"
  shows "tj_shape (visit w c s)"
proof -
  note f = visit_facts [OF assms]
  have c: "map fst c = map fst (tj_call s)" using ext by (simp add: extends_to_def)
  have st: "set (tj_stack s) \<subseteq> dom (tj_index s)" "frames s \<subseteq> set (tj_stack s)"
    "sorted_wrt (\<lambda>a b. ix s b < ix s a) (tj_stack s)"
    "sorted_wrt (\<lambda>a b. ix s b < ix s a) (map fst (tj_call s))"
    using assms(2) by (simp_all add: tj_shape_def sorted_wrt_map)
  have fr: "x \<in> set (tj_stack s)" if "x \<in> set (map fst (tj_call s))" for x
    using that st(2) by (auto simp: frames_def)
  have "sorted_wrt (\<lambda>a b. ix (visit w c s) b < ix (visit w c s) a) (map fst (tj_call s))"
    using st(4) by (rule sorted_wrt_mono_rel [rotated]) (use fr f(3) in metis)
  moreover have "sorted_wrt (\<lambda>a b. ix (visit w c s) b < ix (visit w c s) a) (tj_stack s)"
    using st(3) by (rule sorted_wrt_mono_rel [rotated]) (use f(3) in auto)
  moreover have "\<forall>x \<in> set (map fst c). ix (visit w c s) x < tj_next s"
    using fr f(3,8) by (simp add: c del: set_map)
  moreover have "\<forall>x \<in> insert w (dom (tj_index s)). ix (visit w c s) x < Suc (tj_next s)"
    using assms(2) f(1,2) by (auto simp: tj_shape_def less_Suc_eq)
  moreover have "\<forall>x \<in> set (tj_stack s). ix (visit w c s) x < tj_next s"
    using f(3,8) by simp
  moreover have "frames (visit w c s) \<subseteq> insert w (set (tj_stack s))"
    using f(5) st(2) by blast
  moreover have "\<forall>x. tj_onStack s x \<longleftrightarrow> x \<in> set (tj_stack s)"
    using assms(2) by (simp add: tj_shape_def)
  moreover have "insert w (set (tj_stack s)) \<subseteq> insert w (dom (tj_index s))" using st(1) by blast
  ultimately show ?thesis
    unfolding tj_shape_def sorted_wrt_ix_map by (simp add: c f(1) insert_absorb del: fun_upd_apply set_map) simp
qed

lemma visit_low:
  assumes ext: "extends_to adj w c s" and shape: "tj_shape s" and low: "tj_low adj s"
  shows "tj_low adj (visit w c s)"
proof (rule lowI)
  note f = visit_facts [OF ext shape]
  fix x assume "x \<in> set (tj_stack (visit w c s))"
  then consider "x = w" | "x \<in> set (tj_stack s)" "x \<noteq> w" using f(4) by auto
  then show "tj_lowlink (visit w c s) x \<le> ix (visit w c s) x"
    by cases (use f(1,3) lowD(1) [OF low] in auto)
next
  note f = visit_facts [OF ext shape]
  fix x assume "x \<in> set (tj_stack (visit w c s))"
  then consider "x = w" | "x \<in> set (tj_stack s)" "x \<noteq> w" using f(4) by auto
  then show "\<exists>u \<in> set (tj_stack (visit w c s)). ix (visit w c s) u = tj_lowlink (visit w c s) x
      \<and> (x, u) \<in> (edge_rel adj)\<^sup>*"
  proof cases
    case 2
    then obtain u where "u \<in> set (tj_stack s)" "ix s u = tj_lowlink s x" "(x, u) \<in> (edge_rel adj)\<^sup>*"
      using lowD(2) [OF low] by blast
    then show ?thesis using 2 f(3) by auto
  qed (use f(1) in auto)
next
  note f = visit_facts [OF ext shape]
  fix x assume x: "x \<in> set (tj_stack (visit w c s))" "x \<notin> frames (visit w c s)"
  then have "x \<in> set (tj_stack s)" "x \<noteq> w" "x \<notin> frames s" using f(5) by auto
  then show "tj_lowlink (visit w c s) x < ix (visit w c s) x" using f(3) lowD(3) [OF low] by auto
qed

lemma visit_bound:
  assumes ext: "extends_to adj w c s" and shape: "tj_shape s" and low: "tj_low adj s"
    and bound: "tj_bound adj s"
  shows "tj_bound adj (visit w c s)"
proof (rule boundI)
  note f = visit_facts [OF ext shape]
  fix x y v
  assume x: "x \<in> set (tj_stack (visit w c s))" and y: "y \<in> set (tj_stack (visit w c s))"
    and p: "y \<in> processed adj (visit w c s) x" and o: "owner (visit w c s) v x"
  have "x \<noteq> w" using p f(6) by auto
  then have xs: "x \<in> set (tj_stack s)" using x by auto
  have v: "v \<in> insert w (frames s)" "ix (visit w c s) v \<le> ix s x" using o f(3,5) xs by (auto simp: owner_def)
  then have vf: "v \<in> frames s" using f(1) f(8) [of x] xs by fastforce
  then have vs: "v \<in> set (tj_stack s)" by (rule frames_on_stack [OF shape])
  have "v \<noteq> w" using vf f(9) by auto
  have "owner s v x"
    unfolding owner_def
  proof (intro conjI ballI impI)
    show "v \<in> frames s" by (rule vf)
    show "ix s v \<le> ix s x" using v f(3) vs by simp
    fix u assume u: "u \<in> frames s" "ix s u \<le> ix s x"
    then have "u \<in> set (tj_stack s)" by (auto intro: frames_on_stack [OF shape])
    then show "ix s u \<le> ix s v" using o u f(3,5) xs vs unfolding owner_def by auto
  qed
  then have "tj_lowlink s v \<le> ix s y" if "y \<noteq> w"
    using boundD [OF bound xs, of y v] that y p f(7) [OF xs] by auto
  moreover have "tj_lowlink s v \<le> tj_next s" using lowD(1) [OF low vs] f(8) [OF vs] by simp
  ultimately show "tj_lowlink (visit w c s) v \<le> ix (visit w c s) y"
    using y f(1,3) \<open>v \<noteq> w\<close> by (cases "y = w") auto
qed

lemma visit_tree:
  assumes ext: "extends_to adj w c s" and shape: "tj_shape s" and tree: "tj_tree adj s"
  shows "tj_tree adj (visit w c s)"
proof (rule treeI)
  note f = visit_facts [OF ext shape]
  fix x v
  assume x: "x \<in> set (tj_stack (visit w c s))" and v: "v \<in> frames (visit w c s)"
    and le: "ix (visit w c s) v \<le> ix (visit w c s) x"
  consider "v = w" "x = w" | "v = w" "x \<in> set (tj_stack s)" | "v \<in> frames s" "x = w"
    | "v \<in> frames s" "x \<in> set (tj_stack s)"
    using x v f(5) by auto
  then show "(v, x) \<in> (edge_rel adj)\<^sup>*"
  proof cases
    case 2
    then show ?thesis using le f(1,3,8) by fastforce
  next
    case 3
    have c: "map fst c = map fst (tj_call s)" and edge: "c \<noteq> [] \<longrightarrow> w \<in> set (adj (fst (hd c)))"
      using ext by (simp_all add: extends_to_def)
    obtain t ei rest where t: "tj_call s = (t, ei) # rest"
      using 3 by (cases "tj_call s") (auto simp: frames_def)
    then have "c \<noteq> []" "fst (hd c) = t" using c by (cases c; auto)+
    then have tw: "(t, w) \<in> edge_rel adj" using edge by (simp add: edge_rel_def)
    have "t \<in> set (tj_stack s)" using t by (intro frames_on_stack [OF shape]) (simp add: frames_def)
    then have "(v, t) \<in> (edge_rel adj)\<^sup>*"
      using treeD(1) [OF tree _ 3(1), of t] top_frame_max [OF shape t 3(1)] by simp
    then show ?thesis using tw 3 by (simp add: rtrancl.rtrancl_into_rtrancl)
  next
    case 4
    then have "ix s v \<le> ix s x" using le f(3) frames_on_stack [OF shape] by simp
    then show ?thesis using treeD(1) [OF tree] 4 by blast
  qed simp
next
  note f = visit_facts [OF ext shape]
  fix x assume x: "x \<in> set (tj_stack (visit w c s))"
  show "\<exists>v \<in> frames (visit w c s). ix (visit w c s) v \<le> ix (visit w c s) x"
  proof (cases "x = w")
    case False
    then have xs: "x \<in> set (tj_stack s)" using x by auto
    then obtain v where "v \<in> frames s" "ix s v \<le> ix s x" using treeD(2) [OF tree] by blast
    then show ?thesis using xs f(3,5) frames_on_stack [OF shape] by force
  qed (use f(5) in auto)
qed

lemma visit_inv:
  assumes ext: "extends_to adj w c s" and inv: "tj_inv adj s"
  shows "tj_inv adj (visit w c s)"
proof -
  note i = invD [OF inv]
  note f = visit_facts [OF ext i(1)]
  have w: "tj_index s w = None" using ext by (simp add: extends_to_def)
  have "set (adj x) \<subseteq> insert w (dom (tj_index s)) - insert w (set (tj_stack s))"
    if "x \<in> dom (tj_index s)" "x \<notin> set (tj_stack s)" for x
    using seen_doneD [OF i(2) that] w by auto
  moreover have "processed adj (visit w c s) x \<subseteq> insert w (dom (tj_index s))"
    if "x \<in> set (tj_stack s)" for x
    using f(7) [OF that] seen_processedD [OF i(2) that] by blast
  ultimately have "tj_seen adj (visit w c s)" using f(6) w unfolding tj_seen_def by simp
  moreover have "tj_out adj (visit w c s)" using i(6) w f(4) unfolding tj_out_def by auto
  ultimately show ?thesis
    using visit_shape [OF ext i(1)] visit_low [OF ext i(1,3)] visit_bound [OF ext i(1,3,4)]
      visit_tree [OF ext i(1,5)] by (simp add: tj_inv_def)
qed

lemma sorted_wrt_inj: "sorted_wrt (\<lambda>a b. f b < f a) xs \<Longrightarrow> inj_on f (set xs)"
  for f :: "'a \<Rightarrow> nat"
  by (induction xs) (auto intro: inj_on_insert [THEN iffD2] simp: nat_neq_iff)

lemma sorted_wrt_distinct: "sorted_wrt (\<lambda>a b. f b < f a) xs \<Longrightarrow> distinct xs"
  for f :: "'a \<Rightarrow> nat"
  by (induction xs) auto

lemma stack_ix_inj:
  "tj_shape s \<Longrightarrow> x \<in> set (tj_stack s) \<Longrightarrow> y \<in> set (tj_stack s) \<Longrightarrow> ix s x = ix s y \<Longrightarrow> x = y"
  by (meson inj_onD sorted_wrt_inj tj_shape_def)

subsection \<open>An edge to a visited node\<close>

definition back_link :: "string \<Rightarrow> string \<Rightarrow> nat \<Rightarrow> tarjan \<Rightarrow> nat" where
  "back_link v w i s = (if tj_onStack s w \<and> i < tj_lowlink s v then i else tj_lowlink s v)"

lemma tarjan_edge_seen:
  assumes "tj_index s w = Some i"
  shows "tarjan_edge v w (s\<lparr>tj_call := c\<rparr>)
    = s\<lparr>tj_call := c, tj_lowlink := (tj_lowlink s)(v := back_link v w i s)\<rparr>"
  using assms by (simp add: tarjan_edge_def back_link_def)

lemma processed_advance:
  assumes "tj_call s = (v, ei) # rest" and "ei < length (adj v)"
  shows "processed adj (s\<lparr>tj_call := (v, Suc ei) # rest, tj_lowlink := l\<rparr>) x
    = (if x = v then insert (adj v ! ei) (processed adj s x) else processed adj s x)"
  using assms by (simp add: processed_def take_Suc_conv_app_nth)

text \<open>Changing the frames and one low link.\<close>

definition relink :: "string \<Rightarrow> nat \<Rightarrow> (string \<times> nat) list \<Rightarrow> tarjan \<Rightarrow> tarjan" where
  "relink v l c s = s\<lparr>tj_call := c, tj_lowlink := (tj_lowlink s)(v := l)\<rparr>"

lemma relink_simps [simp]:
  "tj_index (relink v l c s) = tj_index s" "tj_stack (relink v l c s) = tj_stack s"
  "tj_sccs (relink v l c s) = tj_sccs s" "tj_next (relink v l c s) = tj_next s"
  "tj_onStack (relink v l c s) = tj_onStack s"
  "tj_lowlink (relink v l c s) = (tj_lowlink s)(v := l)" "tj_call (relink v l c s) = c"
  "ix (relink v l c s) = ix s" "frames (relink v l c s) = fst ` set c"
  by (auto simp: relink_def ix_def frames_def)

lemma relink_lowI:
  assumes low: "tj_low adj s" and l: "l \<le> tj_lowlink s v"
    and wit: "l \<noteq> tj_lowlink s v
      \<Longrightarrow> \<exists>u \<in> set (tj_stack s). ix s u = l \<and> (v, u) \<in> (edge_rel adj)\<^sup>*"
    and left: "\<And>x. x \<in> set (tj_stack s) \<Longrightarrow> x \<in> frames s \<Longrightarrow> x \<notin> fst ` set c
      \<Longrightarrow> tj_lowlink s x < ix s x"
  shows "tj_low adj (relink v l c s)"
proof (rule lowI; unfold relink_simps)
  fix x assume x: "x \<in> set (tj_stack s)"
  show "((tj_lowlink s)(v := l)) x \<le> ix s x" using lowD(1) [OF low x] l by auto
  show "((tj_lowlink s)(v := l)) x < ix s x" if "x \<notin> fst ` set c"
    using lowD(3) [OF low x] left [OF x _ that] l by (cases "x \<in> frames s") auto
  show "\<exists>u \<in> set (tj_stack s). ix s u = ((tj_lowlink s)(v := l)) x \<and> (x, u) \<in> (edge_rel adj)\<^sup>*"
    using lowD(2) [OF low x] wit by (cases "x = v \<and> l \<noteq> tj_lowlink s v") auto
qed

lemma advance_frames: "tj_call s = (v, ei) # rest \<Longrightarrow> fst ` set ((v, e) # rest) = frames s"
  by (simp add: frames_def)

lemma advance_low:
  assumes inv: "tj_inv adj s" and call: "tj_call s = (v, ei) # rest" and ei: "ei < length (adj v)"
    and w: "tj_index s (adj v ! ei) = Some i"
  shows "tj_low adj (relink v (back_link v (adj v ! ei) i s) ((v, Suc ei) # rest) s)"
proof (rule relink_lowI)
  note i = invD [OF inv]
  have "(v, adj v ! ei) \<in> edge_rel adj" using ei by (simp add: edge_rel_def)
  moreover have "ix s (adj v ! ei) = i" using w by (simp add: ix_def)
  moreover have "tj_onStack s (adj v ! ei) \<longleftrightarrow> adj v ! ei \<in> set (tj_stack s)"
    using i(1) by (simp add: tj_shape_def)
  ultimately show "\<exists>u \<in> set (tj_stack s). ix s u = back_link v (adj v ! ei) i s \<and> (v, u) \<in> (edge_rel adj)\<^sup>*"
    if "back_link v (adj v ! ei) i s \<noteq> tj_lowlink s v"
    using that by (auto simp: back_link_def split: if_splits)
qed (use invD(3) [OF inv] advance_frames [OF call] in \<open>auto simp: back_link_def\<close>)

lemma advance_bound:
  assumes inv: "tj_inv adj s" and call: "tj_call s = (v, ei) # rest" and ei: "ei < length (adj v)"
    and w: "tj_index s (adj v ! ei) = Some i"
  shows "tj_bound adj (relink v (back_link v (adj v ! ei) i s) ((v, Suc ei) # rest) s)"
    (is "tj_bound adj ?s'")
proof (rule boundI; unfold relink_simps)
  note i = invD [OF inv]
  let ?w = "adj v ! ei" and ?l = "back_link v (adj v ! ei) i s"
  fix x y u assume x: "x \<in> set (tj_stack s)" and y: "y \<in> set (tj_stack s)"
    and p: "y \<in> processed adj ?s' x" and o: "owner ?s' u x"
  have o: "owner s u x" using o unfolding owner_def relink_simps advance_frames [OF call] .
  have ll: "?l \<le> tj_lowlink s v" by (simp add: back_link_def)
  show "((tj_lowlink s)(v := ?l)) u \<le> ix s y"
  proof (cases "y \<in> processed adj s x")
    case True
    then show ?thesis using boundD [OF i(4) x y True o] ll by auto
  next
    case False
    then have xy: "x = v" "y = ?w"
      using p processed_advance [where adj = adj, OF call ei] by (auto simp: relink_def split: if_splits)
    then have "ix s u = ix s v" "u \<in> set (tj_stack s)"
      using o call frames_on_stack [OF i(1)] by (auto simp: owner_def frames_def intro!: antisym)
    then have "u = v" using x xy stack_ix_inj [OF i(1)] by simp
    then show ?thesis using xy y w i(1) by (auto simp: back_link_def ix_def tj_shape_def)
  qed
qed

lemma advance_inv:
  assumes inv: "tj_inv adj s" and call: "tj_call s = (v, ei) # rest" and ei: "ei < length (adj v)"
    and w: "tj_index s (adj v ! ei) = Some i"
  shows "tj_inv adj (tarjan_edge v (adj v ! ei) (s\<lparr>tj_call := (v, Suc ei) # rest\<rparr>))"
proof -
  let ?s' = "relink v (back_link v (adj v ! ei) i s) ((v, Suc ei) # rest) s"
  note i = invD [OF inv]
  have fr: "frames ?s' = frames s" unfolding relink_simps by (rule advance_frames [OF call])
  have pr: "processed adj ?s' x = (if x = v then insert (adj v ! ei) (processed adj s x) else processed adj s x)"
    for x using processed_advance [where adj = adj, OF call ei] by (simp add: relink_def)
  have "tj_shape ?s'"
    using i(1) unfolding tj_shape_def fr sorted_wrt_ix_map by (simp add: call frames_def)
  moreover have "tj_seen adj ?s'" using i(2) w unfolding tj_seen_def pr relink_simps by auto
  moreover have "tj_tree adj ?s'" using i(5) unfolding tj_tree_def relink_simps advance_frames [OF call] .
  moreover have "tj_out adj ?s'" using i(6) unfolding tj_out_def relink_simps .
  ultimately have "tj_inv adj ?s'"
    using advance_low [OF inv call ei w] advance_bound [OF inv call ei w] by (simp add: tj_inv_def)
  then show ?thesis using tarjan_edge_seen [OF w, of v "(v, Suc ei) # rest"] by (simp add: relink_def)
qed

lemma visit_next_inv:
  assumes inv: "tj_inv adj s" and call: "tj_call s = (v, ei) # rest" and ei: "ei < length (adj v)"
    and w: "tj_index s (adj v ! ei) = None"
  shows "tj_inv adj (tarjan_edge v (adj v ! ei) (s\<lparr>tj_call := (v, Suc ei) # rest\<rparr>))"
proof -
  have "extends_to adj (adj v ! ei) ((v, Suc ei) # rest) s"
    using w call ei processed_advance [where adj = adj and l = "tj_lowlink s", OF call ei]
    by (auto simp: extends_to_def)
  then have "tj_inv adj (visit (adj v ! ei) ((v, Suc ei) # rest) s)" using inv by (rule visit_inv)
  then show ?thesis using w by (simp add: tarjan_edge_def visit_def tarjan_push_def)
qed

subsection \<open>Leaving a frame\<close>

lemma pop_until_append:
  "v \<notin> set pre \<Longrightarrow> pop_until v (pre @ v # post) onS acc
     = Some (acc @ pre @ [v], post, \<lambda>x. onS x \<and> x \<notin> set (pre @ [v]))"
  by (induction pre arbitrary: onS acc) (auto simp: fun_eq_iff)

lemma closed_rtrancl:
  assumes "(x, y) \<in> (edge_rel adj)\<^sup>*" and "x \<in> T" and "\<And>a b. a \<in> T \<Longrightarrow> b \<in> set (adj a) \<Longrightarrow> b \<in> T"
  shows "y \<in> T"
  using assms(1,2) by (induction rule: rtrancl_induct) (auto simp: edge_rel_def intro: assms(3))

text \<open>
  What is known when the top frame \<open>v\<close> has no edge left: every node of the stack above it is
  fully explored, owned by \<open>v\<close>, and reachable from it.
\<close>

lemma top_segment:
  assumes inv: "tj_inv adj s" and call: "tj_call s = (v, ei) # rest" and ei: "\<not> ei < length (adj v)"
    and x: "x \<in> set (tj_stack s)" "ix s v \<le> ix s x"
  shows "processed adj s x = set (adj x)" and "owner s v x" and "(v, x) \<in> (edge_rel adj)\<^sup>*"
    and "x \<noteq> v \<Longrightarrow> x \<notin> frames s"
proof -
  note i = invD [OF inv]
  have vf: "v \<in> frames s" by (simp add: frames_def call)
  have top: "ix s u \<le> ix s v" if "u \<in> frames s" for u using top_frame_max [OF i(1) call that] .
  show nf: "x \<notin> frames s" if "x \<noteq> v"
  proof
    assume "x \<in> frames s"
    then have "ix s x = ix s v" using top x(2) by force
    then show False using that stack_ix_inj [OF i(1) x(1)] frames_on_stack [OF i(1) vf] by simp
  qed
  show "processed adj s x = set (adj x)"
  proof (cases "x = v")
    case False
    then have "map_of (tj_call s) x = None" using nf by (simp add: frames_def map_of_eq_None_iff)
    then show ?thesis by (simp add: processed_def)
  qed (use call ei in \<open>simp add: processed_def\<close>)
  show "owner s v x" unfolding owner_def using vf x(2) top by blast
  show "(v, x) \<in> (edge_rel adj)\<^sup>*" by (rule treeD(1) [OF i(5) x(1) vf x(2)])
qed

lemma call_rest:
  assumes shape: "tj_shape s" and call: "tj_call s = (v, ei) # rest"
  shows "v \<notin> fst ` set rest" and "frames s = insert v (fst ` set rest)"
    and "u \<in> fst ` set rest \<Longrightarrow> ix s u < ix s v"
    and "sorted_wrt (\<lambda>a b. ix s b < ix s a) (map fst rest)"
  using assms by (auto simp: tj_shape_def frames_def sorted_wrt_map)

lemma processed_rest:
  assumes shape: "tj_shape s" and call: "tj_call s = (v, ei) # rest" and ei: "\<not> ei < length (adj v)"
    and s': "tj_call s' = rest"
  shows "processed adj s' x = processed adj s x"
proof (cases "x = v")
  case True
  then have "map_of rest x = None" using call_rest(1) [OF shape call] by (simp add: map_of_eq_None_iff)
  then show ?thesis using True call ei s' by (simp add: processed_def)
qed (use call s' in \<open>simp add: processed_def\<close>)

subsubsection \<open>The node roots a component\<close>

lemma root_component:
  assumes inv: "tj_inv adj s" and call: "tj_call s = (v, ei) # rest" and ei: "\<not> ei < length (adj v)"
    and root: "tj_lowlink s v = ix s v"
  defines "seg \<equiv> {x \<in> set (tj_stack s). ix s v \<le> ix s x}"
    and "T \<equiv> dom (tj_index s) - {x \<in> set (tj_stack s). ix s x < ix s v}"
  shows "a \<in> T \<Longrightarrow> b \<in> set (adj a) \<Longrightarrow> b \<in> T" and "seg = scc_of adj v"
proof -
  note i = invD [OF inv]
  note seg = top_segment [OF inv call ei]
  have vs: "v \<in> set (tj_stack s)" by (rule frames_on_stack [OF i(1)]) (simp add: frames_def call)
  have sd: "set (tj_stack s) \<subseteq> dom (tj_index s)" using i(1) by (simp add: tj_shape_def)
  show closed: "b \<in> T" if a: "a \<in> T" and b: "b \<in> set (adj a)" for a b
  proof (cases "a \<in> set (tj_stack s)")
    case True
    then have "ix s v \<le> ix s a" using a by (auto simp: T_def)
    note sg = seg [OF True this]
    have "b \<in> dom (tj_index s)" using seen_processedD [OF i(2) True] sg(1) b by simp
    moreover have "ix s v \<le> ix s b" if "b \<in> set (tj_stack s)"
      using boundD [OF i(4) True that _ sg(2)] sg(1) b root by simp
    ultimately show ?thesis by (auto simp: T_def)
  next
    case False
    then show ?thesis using seen_doneD [OF i(2) _ False b] a by (simp add: T_def)
  qed
  have up: "(x, v) \<in> (edge_rel adj)\<^sup>*" if "x \<in> set (tj_stack s)" "ix s v \<le> ix s x" for x
    using that
  proof (induction "ix s x" arbitrary: x rule: less_induct)
    case less
    show ?case
    proof (cases "x = v")
      case False
      obtain w where w: "w \<in> set (tj_stack s)" "ix s w = tj_lowlink s x" "(x, w) \<in> (edge_rel adj)\<^sup>*"
        using lowD(2) [OF i(3) less.prems(1)] by blast
      have "x \<in> T" using less.prems sd by (auto simp: T_def)
      with w(3) have "w \<in> T" by (rule closed_rtrancl) (rule closed)
      then have "ix s v \<le> ix s w" using w(1) by (simp add: T_def)
      moreover have "ix s w < ix s x"
        using lowD(3) [OF i(3) less.prems(1)] seg(4) [OF less.prems False] w(2) by simp
      ultimately have "(w, v) \<in> (edge_rel adj)\<^sup>*" using less.hyps [of w] w(1) by blast
      then show ?thesis by (rule rtrancl_trans [OF w(3)])
    qed simp
  qed
  show "seg = scc_of adj v"
  proof (intro equalityI subsetI)
    fix x assume "x \<in> seg"
    then have x: "x \<in> set (tj_stack s)" "ix s v \<le> ix s x" by (simp_all add: seg_def)
    show "x \<in> scc_of adj v" using seg(3) [OF x] up [OF x] by (simp add: scc_of_def)
  next
    fix x assume "x \<in> scc_of adj v"
    then have x: "(v, x) \<in> (edge_rel adj)\<^sup>*" "(x, v) \<in> (edge_rel adj)\<^sup>*" by (simp_all add: scc_of_def)
    have "v \<in> T" using vs sd by (auto simp: T_def)
    with x(1) have xT: "x \<in> T" by (rule closed_rtrancl) (rule closed)
    have "x \<in> set (tj_stack s)"
    proof (rule ccontr)
      assume no: "x \<notin> set (tj_stack s)"
      then have "x \<in> dom (tj_index s) - set (tj_stack s)" using xT by (simp add: T_def)
      with x(2) have "v \<in> dom (tj_index s) - set (tj_stack s)"
        by (rule closed_rtrancl) (use seen_doneD [OF i(2)] in blast)
      then show False using vs by simp
    qed
    then show "x \<in> seg" using xT by (simp add: T_def seg_def)
  qed
qed

text \<open>Popping up to \<open>v\<close> takes the nodes with an index of at least that of \<open>v\<close>.\<close>

lemma split_at_root:
  assumes shape: "tj_shape s" and v: "v \<in> set (tj_stack s)"
  obtains pre post where "tj_stack s = pre @ v # post" "v \<notin> set pre"
    "set (pre @ [v]) = {x \<in> set (tj_stack s). ix s v \<le> ix s x}"
    "set post = {x \<in> set (tj_stack s). ix s x < ix s v}" "distinct (pre @ [v])"
proof -
  obtain pre post where sp: "tj_stack s = pre @ v # post" "v \<notin> set pre"
    using split_list_first [OF v] by blast
  have sorted: "sorted_wrt (\<lambda>a b. ix s b < ix s a) (pre @ v # post)"
    using shape sp(1) by (simp add: tj_shape_def)
  have lt: "\<forall>x \<in> set pre. ix s v < ix s x" "\<forall>x \<in> set post. ix s x < ix s v"
    using sorted by (auto simp: sorted_wrt_append)
  have pre: "set (pre @ [v]) = {x \<in> set (tj_stack s). ix s v \<le> ix s x}"
    unfolding sp(1) using lt by (auto dest: bspec)
  have post: "set post = {x \<in> set (tj_stack s). ix s x < ix s v}"
    unfolding sp(1) using lt by (auto dest: bspec)
  have "distinct (pre @ v # post)" using sorted by (rule sorted_wrt_distinct)
  then have "distinct (pre @ [v])" by simp
  then show thesis by (rule that [OF sp pre post])
qed

text \<open>
  The state after popping: the stack keeps the nodes below \<open>v\<close>, the component is output.
\<close>

definition popped :: "string list \<Rightarrow> string list \<Rightarrow> (string \<times> nat) list \<Rightarrow> tarjan \<Rightarrow> tarjan" where
  "popped c post rest s = s\<lparr>tj_stack := post, tj_onStack := (\<lambda>x. tj_onStack s x \<and> x \<notin> set c),
     tj_sccs := tj_sccs s @ [sort c], tj_call := rest\<rparr>"

lemma popped_simps [simp]:
  "tj_index (popped c post rest s) = tj_index s" "tj_lowlink (popped c post rest s) = tj_lowlink s"
  "tj_stack (popped c post rest s) = post" "tj_call (popped c post rest s) = rest"
  "tj_next (popped c post rest s) = tj_next s" "tj_sccs (popped c post rest s) = tj_sccs s @ [sort c]"
  "tj_onStack (popped c post rest s) x \<longleftrightarrow> tj_onStack s x \<and> x \<notin> set c"
  "ix (popped c post rest s) = ix s" "frames (popped c post rest s) = fst ` set rest"
  by (auto simp: popped_def ix_def frames_def)

lemma popped_shape:
  assumes shape: "tj_shape s" and call: "tj_call s = (v, ei) # rest"
    and st: "tj_stack s = pre @ v # post"
    and pre: "set (pre @ [v]) = {x \<in> set (tj_stack s). ix s v \<le> ix s x}"
    and post: "set post = {x \<in> set (tj_stack s). ix s x < ix s v}"
  shows "tj_shape (popped (pre @ [v]) post rest s)"
proof -
  note r = call_rest [OF shape call]
  have restpost: "fst ` set rest \<subseteq> set post"
    using r(2,3) frames_on_stack [OF shape] unfolding post by blast
  have "sorted_wrt (\<lambda>a b. ix s b < ix s a) (pre @ v # post)" using shape st by (simp add: tj_shape_def)
  then have "sorted_wrt (\<lambda>a b. ix s b < ix s a) post" by (simp add: sorted_wrt_append)
  moreover have "tj_onStack s x \<and> x \<notin> set (pre @ [v]) \<longleftrightarrow> x \<in> set post" for x
    using shape unfolding tj_shape_def pre post by auto
  moreover have "set post \<subseteq> dom (tj_index s)" "\<forall>x \<in> dom (tj_index s). ix s x < tj_next s"
    using shape unfolding tj_shape_def post by blast+
  ultimately show ?thesis
    using r(4) restpost unfolding tj_shape_def sorted_wrt_map by simp
qed

lemma popped_low:
  assumes shape: "tj_shape s" and low: "tj_low adj s" and call: "tj_call s = (v, ei) # rest"
    and post: "set post = {x \<in> set (tj_stack s). ix s x < ix s v}"
  shows "tj_low adj (popped c post rest s)"
proof (rule lowI; unfold popped_simps)
  fix x assume "x \<in> set post"
  then have xs: "x \<in> set (tj_stack s)" "ix s x < ix s v" using post by auto
  show "tj_lowlink s x \<le> ix s x" by (rule lowD(1) [OF low xs(1)])
  show "\<exists>w \<in> set post. ix s w = tj_lowlink s x \<and> (x, w) \<in> (edge_rel adj)\<^sup>*"
    using lowD(1,2) [OF low xs(1)] xs(2) unfolding post by force
  show "tj_lowlink s x < ix s x" if "x \<notin> fst ` set rest"
    by (rule lowD(3) [OF low xs(1)]) (use that call_rest(2) [OF shape call] xs(2) in auto)
qed

lemma popped_tree:
  assumes shape: "tj_shape s" and tree: "tj_tree adj s" and call: "tj_call s = (v, ei) # rest"
    and post: "set post = {x \<in> set (tj_stack s). ix s x < ix s v}"
  shows "tj_tree adj (popped c post rest s)"
proof (rule treeI; unfold popped_simps)
  note r = call_rest [OF shape call]
  fix x assume "x \<in> set post"
  then have xs: "x \<in> set (tj_stack s)" "ix s x < ix s v" using post by auto
  show "(u, x) \<in> (edge_rel adj)\<^sup>*" if "u \<in> fst ` set rest" "ix s u \<le> ix s x" for u
    using treeD(1) [OF tree xs(1)] that r(2) by blast
  obtain u where "u \<in> frames s" "ix s u \<le> ix s x" using treeD(2) [OF tree xs(1)] by blast
  then show "\<exists>u \<in> fst ` set rest. ix s u \<le> ix s x" using r(2) xs(2) by auto
qed

lemma popped_out:
  assumes shape: "tj_shape s" and out: "tj_out adj s" and scc: "set (pre @ [v]) = scc_of adj v"
    and pre: "set (pre @ [v]) = {x \<in> set (tj_stack s). ix s v \<le> ix s x}"
    and post: "set post = {x \<in> set (tj_stack s). ix s x < ix s v}"
    and dist: "distinct (pre @ [v])"
  shows "tj_out adj (popped (pre @ [v]) post rest s)"
proof -
  have all: "set (tj_stack s) \<subseteq> dom (tj_index s)" using shape by (simp add: tj_shape_def)
  have o: "distinct (concat (tj_sccs s))" "set (concat (tj_sccs s)) = dom (tj_index s) - set (tj_stack s)"
    "\<forall>c \<in> set (tj_sccs s). sorted c \<and> (\<exists>v \<in> set c. set c = scc_of adj v)"
    using out by (simp_all add: tj_out_def)
  have "set (sort (pre @ [v])) = scc_of adj v" using scc by simp
  moreover have "v \<in> set (sort (pre @ [v]))" by simp
  moreover have "dom (tj_index s) - set post = dom (tj_index s) - set (tj_stack s) \<union> set (pre @ [v])"
    unfolding pre post using all by auto
  moreover have "set (concat (tj_sccs s)) \<inter> set (pre @ [v]) = {}" unfolding o(2) pre by auto
  ultimately show ?thesis
    unfolding tj_out_def popped_simps concat_append using o dist by (auto simp del: set_concat)
qed

lemma popped_inv:
  assumes inv: "tj_inv adj s" and call: "tj_call s = (v, ei) # rest" and ei: "\<not> ei < length (adj v)"
    and root: "tj_lowlink s v = ix s v"
    and st: "tj_stack s = pre @ v # post"
    and pre: "set (pre @ [v]) = {x \<in> set (tj_stack s). ix s v \<le> ix s x}"
    and post: "set post = {x \<in> set (tj_stack s). ix s x < ix s v}"
    and dist: "distinct (pre @ [v])"
  shows "tj_inv adj (popped (pre @ [v]) post rest s)" (is "tj_inv adj ?s'")
proof -
  note i = invD [OF inv]
  note component = root_component [OF inv call ei root]
  have proc: "processed adj ?s' x = processed adj s x" for x
    by (rule processed_rest [where adj = adj, OF i(1) call ei]) simp
  have sub: "x \<in> set (tj_stack s)" "ix s x < ix s v" if "x \<in> set post" for x using that post by auto
  have "tj_seen adj ?s'"
    unfolding tj_seen_def popped_simps proc
    using component(1) seen_processedD [OF i(2)] sub(1) unfolding post [symmetric] by blast
  moreover have "tj_bound adj ?s'"
  proof (rule boundI; unfold popped_simps proc)
    fix x y u assume x: "x \<in> set post" and y: "y \<in> set post" "y \<in> processed adj s x"
      and o: "owner ?s' u x"
    have "owner s u x"
      using o sub(2) [OF x] unfolding owner_def popped_simps call_rest(2) [OF i(1) call] by auto
    then show "tj_lowlink s u \<le> ix s y"
      using boundD [OF i(4) sub(1) [OF x] sub(1) [OF y(1)] y(2)] by simp
  qed
  moreover have "set (pre @ [v]) = scc_of adj v" using component(2) pre by simp
  note popped_out [OF i(1,6) this pre post dist]
  ultimately show ?thesis
    using popped_shape [OF i(1) call st pre post] popped_low [OF i(1,3) call post]
      popped_tree [OF i(1,5) call post] by (simp add: tj_inv_def)
qed

lemma close_root_inv:
  assumes inv: "tj_inv adj s" and call: "tj_call s = (v, ei) # rest" and ei: "\<not> ei < length (adj v)"
    and root: "Some (tj_lowlink s v) = tj_index s v"
  shows "\<exists>s'. map_option (tarjan_return v rest) (tarjan_close v s) = Some s' \<and> tj_inv adj s'"
proof -
  note i = invD [OF inv]
  have vs: "v \<in> set (tj_stack s)" by (rule frames_on_stack [OF i(1)]) (simp add: frames_def call)
  obtain pre post where sp: "tj_stack s = pre @ v # post" "v \<notin> set pre"
    "set (pre @ [v]) = {x \<in> set (tj_stack s). ix s v \<le> ix s x}"
    "set post = {x \<in> set (tj_stack s). ix s x < ix s v}" "distinct (pre @ [v])"
    by (rule split_at_root [OF i(1) vs])
  have ixv: "tj_lowlink s v = ix s v" using root by (metis ix_def option.sel)
  define s1 where "s1 = s\<lparr>tj_stack := post, tj_onStack := (\<lambda>x. tj_onStack s x \<and> x \<notin> set (pre @ [v])),
     tj_sccs := tj_sccs s @ [sort (pre @ [v])]\<rparr>"
  have "tarjan_close v s = Some s1"
    using root pop_until_append [OF sp(2), of post "tj_onStack s" "[]"] sp(1)
    by (simp add: tarjan_close_def s1_def)
  moreover have "tarjan_return v rest s1 = popped (pre @ [v]) post rest s"
  proof (cases rest)
    case (Cons p ps)
    have "fst p \<in> set (tj_stack s)"
      by (rule frames_on_stack [OF i(1)]) (simp add: frames_def call Cons)
    then have "tj_lowlink s (fst p) \<le> ix s (fst p)" by (rule lowD(1) [OF i(3)])
    also have "ix s (fst p) < ix s v" by (rule call_rest(3) [OF i(1) call]) (simp add: Cons)
    finally have "\<not> tj_lowlink s v < tj_lowlink s (fst p)" using ixv by simp
    then show ?thesis
      by (simp add: tarjan_return_def popped_def s1_def Cons case_prod_beta)
  qed (simp add: tarjan_return_def popped_def s1_def)
  ultimately show ?thesis
    using popped_inv [OF inv call ei ixv sp(1,3,4,5)] by simp
qed

subsubsection \<open>The node belongs to the component of a lower node\<close>

text \<open>There is then a parent frame \<open>p\<close>, and it takes over the low link.\<close>

lemma inner_parent:
  assumes inv: "tj_inv adj s" and call: "tj_call s = (v, ei) # rest"
    and inner: "Some (tj_lowlink s v) \<noteq> tj_index s v"
  obtains p e ps where "rest = (p, e) # ps" "tj_lowlink s v < ix s v"
    "tarjan_return v rest s = relink p (min (tj_lowlink s p) (tj_lowlink s v)) rest s"
proof -
  note i = invD [OF inv]
  have vs: "v \<in> set (tj_stack s)" by (rule frames_on_stack [OF i(1)]) (simp add: frames_def call)
  have "v \<in> dom (tj_index s)" using vs i(1) by (auto simp: tj_shape_def)
  then have "tj_lowlink s v \<noteq> ix s v" using inner by (auto simp: ix_def)
  then have lt: "tj_lowlink s v < ix s v" using lowD(1) [OF i(3) vs] by simp
  obtain w where w: "w \<in> set (tj_stack s)" "ix s w = tj_lowlink s v" using lowD(2) [OF i(3) vs] by blast
  obtain u where u: "u \<in> frames s" "ix s u \<le> ix s w" using treeD(2) [OF i(5) w(1)] by blast
  then have "u \<in> fst ` set rest" using w(2) lt call_rest(2) [OF i(1) call] by auto
  then obtain p e ps where "rest = (p, e) # ps" by (cases rest) auto
  moreover from this have "tarjan_return v rest s = relink p (min (tj_lowlink s p) (tj_lowlink s v)) rest s"
    by (simp add: tarjan_return_def relink_def min_def)
  ultimately show thesis using lt by (intro that)
qed

lemma inner_low:
  assumes inv: "tj_inv adj s" and call: "tj_call s = (v, ei) # (p, e) # ps"
    and lt: "tj_lowlink s v < ix s v"
  shows "tj_low adj (relink p (min (tj_lowlink s p) (tj_lowlink s v)) ((p, e) # ps) s)"
proof (rule relink_lowI)
  note i = invD [OF inv]
  note r = call_rest [OF i(1) call]
  have vs: "v \<in> set (tj_stack s)" by (rule frames_on_stack [OF i(1)]) (simp add: frames_def call)
  have "(p, v) \<in> (edge_rel adj)\<^sup>*"
    using treeD(1) [OF i(5) vs, of p] r(2) r(3) [of p] by (simp add: less_imp_le)
  then show "\<exists>u \<in> set (tj_stack s). ix s u = min (tj_lowlink s p) (tj_lowlink s v) \<and> (p, u) \<in> (edge_rel adj)\<^sup>*"
    if "min (tj_lowlink s p) (tj_lowlink s v) \<noteq> tj_lowlink s p"
    using lowD(2) [OF i(3) vs] that by (auto simp: min_def intro: rtrancl_trans split: if_splits)
  show "tj_lowlink s x < ix s x" if "x \<in> frames s" "x \<notin> fst ` set ((p, e) # ps)" for x
    using that r(2) lt by auto
qed (use invD(3) [OF inv] in simp_all)

lemma inner_bound:
  assumes inv: "tj_inv adj s" and call: "tj_call s = (v, ei) # (p, e) # ps" and ei: "\<not> ei < length (adj v)"
  shows "tj_bound adj (relink p (min (tj_lowlink s p) (tj_lowlink s v)) ((p, e) # ps) s)"
    (is "tj_bound adj ?s'")
proof (rule boundI; unfold relink_simps processed_rest [where adj = adj and s' = ?s', OF invD(1) [OF inv] call ei relink_simps(7)])
  note i = invD [OF inv]
  note r = call_rest [OF i(1) call]
  let ?rest = "(p, e) # ps"
  fix x y u assume x: "x \<in> set (tj_stack s)" and y: "y \<in> set (tj_stack s)" "y \<in> processed adj s x"
    and o: "owner ?s' u x"
  have top: "ix s u \<le> ix s p" if "u \<in> fst ` set ?rest" for u
    using that r(4) by (auto simp: less_imp_le)
  show "((tj_lowlink s)(p := min (tj_lowlink s p) (tj_lowlink s v))) u \<le> ix s y"
  proof (cases "ix s v \<le> ix s x")
    case True
    have "ix s p \<le> ix s x" using True r(3) [of p] by simp
    then have u: "ix s u = ix s p" "u \<in> fst ` set ?rest"
      using o top unfolding owner_def relink_simps by (auto intro: antisym)
    then have "u \<in> set (tj_stack s)" "p \<in> set (tj_stack s)" using frames_on_stack [OF i(1)] r(2) by auto
    then have "u = p" using stack_ix_inj [OF i(1)] u(1) by blast
    then show ?thesis using boundD [OF i(4) x y top_segment(2) [OF inv call ei x True]] by simp
  next
    case False
    then have "owner s u x" using o unfolding owner_def relink_simps r(2) by auto
    then show ?thesis using boundD [OF i(4) x y] by (auto intro: min.coboundedI1)
  qed
qed

lemma inner_tree:
  assumes inv: "tj_inv adj s" and call: "tj_call s = (v, ei) # (p, e) # ps"
  shows "tj_tree adj (relink p l ((p, e) # ps) s)"
proof (rule treeI; unfold relink_simps)
  note i = invD [OF inv]
  note r = call_rest [OF i(1) call]
  fix x assume x: "x \<in> set (tj_stack s)"
  show "(u, x) \<in> (edge_rel adj)\<^sup>*" if "u \<in> fst ` set ((p, e) # ps)" "ix s u \<le> ix s x" for u
    using treeD(1) [OF i(5) x, of u] r(2) that by blast
  obtain u where u: "u \<in> frames s" "ix s u \<le> ix s x" using treeD(2) [OF i(5) x] by blast
  then show "\<exists>u \<in> fst ` set ((p, e) # ps). ix s u \<le> ix s x"
    using r(2) r(3) [of p] by (cases "u = v") auto
qed

lemma close_inner_inv:
  assumes inv: "tj_inv adj s" and call: "tj_call s = (v, ei) # rest" and ei: "\<not> ei < length (adj v)"
    and inner: "Some (tj_lowlink s v) \<noteq> tj_index s v"
  shows "tj_inv adj (tarjan_return v rest s)"
proof -
  note i = invD [OF inv]
  note r = call_rest [OF i(1) call]
  obtain p e ps where p: "rest = (p, e) # ps" "tj_lowlink s v < ix s v"
    "tarjan_return v rest s = relink p (min (tj_lowlink s p) (tj_lowlink s v)) rest s"
    by (rule inner_parent [OF inv call inner])
  let ?s' = "relink p (min (tj_lowlink s p) (tj_lowlink s v)) rest s"
  have proc: "processed adj ?s' x = processed adj s x" for x
    by (rule processed_rest [where adj = adj, OF i(1) call ei]) simp
  have "tj_shape ?s'"
    using i(1) r(4) unfolding tj_shape_def sorted_wrt_ix_map r(2) relink_simps by simp
  moreover have "tj_seen adj ?s'" using i(2) unfolding tj_seen_def proc relink_simps .
  moreover have "tj_out adj ?s'" using i(6) unfolding tj_out_def relink_simps .
  ultimately show ?thesis
    using inner_low [OF inv call [unfolded p(1)] p(2)] inner_bound [OF inv call [unfolded p(1)] ei]
      inner_tree [OF inv call [unfolded p(1)]]
    unfolding p(3) tj_inv_def by (simp add: p(1))
qed

subsection \<open>Every round keeps the invariant\<close>

lemma tarjan_step_inv:
  assumes inv: "tj_inv adj s" and call: "tj_call s \<noteq> []"
  shows "\<exists>s'. tarjan_step adj s = Some s' \<and> tj_inv adj s' \<and> dom (tj_index s) \<subseteq> dom (tj_index s')"
proof -
  obtain v ei rest where c: "tj_call s = (v, ei) # rest" using call by (cases "tj_call s") auto
  consider "ei < length (adj v)" "tj_index s (adj v ! ei) = None"
    | i where "ei < length (adj v)" "tj_index s (adj v ! ei) = Some i"
    | "\<not> ei < length (adj v)" "Some (tj_lowlink s v) = tj_index s v"
    | "\<not> ei < length (adj v)" "Some (tj_lowlink s v) \<noteq> tj_index s v"
    by blast
  then show ?thesis
  proof cases
    case 1
    then show ?thesis
      using visit_next_inv [OF inv c 1] c by (auto simp: tarjan_step_def tarjan_edge_def tarjan_push_def)
  next
    case 2
    then show ?thesis
      using advance_inv [OF inv c 2] c tarjan_edge_seen [OF 2(2)] by (simp add: tarjan_step_def)
  next
    case 3
    then obtain s' where s': "map_option (tarjan_return v rest) (tarjan_close v s) = Some s'" "tj_inv adj s'"
      using close_root_inv [OF inv c 3] by blast
    then have "tj_index s' = tj_index s" by (auto simp: pop_until_fields tarjan_return_fields)
    then show ?thesis using s' 3 c unfolding tarjan_step_def by auto
  next
    case 4
    then show ?thesis
      using close_inner_inv [OF inv c 4] c
      by (simp add: tarjan_step_def tarjan_close_def tarjan_return_fields)
  qed
qed

lemma tarjan_loop_inv:
  assumes "tj_inv (dep_adj es) s"
  shows "\<exists>s'. tarjan_loop es s = Some s' \<and> tj_inv (dep_adj es) s' \<and> tj_call s' = []
    \<and> dom (tj_index s) \<subseteq> dom (tj_index s')"
  using assms
proof (induction es s rule: tarjan_loop.induct)
  case (1 es s)
  show ?case
  proof (cases "tj_call s = []")
    case True
    then show ?thesis using 1 by (simp add: tarjan_loop.simps)
  next
    case False
    then obtain s1 where s1: "tarjan_step (dep_adj es) s = Some s1" "tj_inv (dep_adj es) s1"
      "dom (tj_index s) \<subseteq> dom (tj_index s1)" using tarjan_step_inv [OF 1(2)] by blast
    obtain s' where "tarjan_loop es s1 = Some s'" "tj_inv (dep_adj es) s'" "tj_call s' = []"
      "dom (tj_index s1) \<subseteq> dom (tj_index s')"
      using 1(1) [OF False s1(1,2)] by blast
    then show ?thesis using s1 False by (auto simp: tarjan_loop.simps [of es s])
  qed
qed

text \<open>Between two searches no frame is open, so the stack is empty.\<close>

lemma no_frames_no_stack: "tj_inv adj s \<Longrightarrow> tj_call s = [] \<Longrightarrow> tj_stack s = []"
  using treeD(2) [OF invD(5), of adj s "hd (tj_stack s)"]
  by (cases "tj_stack s") (auto simp: frames_def)

lemma new_root_inv:
  assumes "tj_inv adj s" and "tj_call s = []" and "tj_index s root = None"
  shows "tj_inv adj ((tarjan_push root s)\<lparr>tj_call := [(root, 0)]\<rparr>)"
proof -
  have "tj_stack s = []" using assms by (simp add: no_frames_no_stack)
  then have "extends_to adj root [] s" using assms by (simp add: extends_to_def)
  then show ?thesis using visit_inv [of adj root "[]" s] assms(1) by (simp add: visit_def)
qed

lemma tarjan_roots_inv:
  assumes "tj_inv (dep_adj es) s" and "tj_call s = []"
  shows "\<exists>s'. tarjan_roots es ns s = Some s' \<and> tj_inv (dep_adj es) s' \<and> tj_call s' = []
    \<and> set ns \<union> dom (tj_index s) \<subseteq> dom (tj_index s')"
  using assms
proof (induction es ns s rule: tarjan_roots.induct)
  case (2 es root ns s)
  show ?case
  proof (cases "tj_index s root")
    case None
    define s0 where "s0 = (tarjan_push root s)\<lparr>tj_call := [(root, 0)]\<rparr>"
    have "tj_inv (dep_adj es) s0" unfolding s0_def using 2(3,4) None by (rule new_root_inv)
    then obtain s1 where s1: "tarjan_loop es s0 = Some s1" "tj_inv (dep_adj es) s1" "tj_call s1 = []"
      "dom (tj_index s0) \<subseteq> dom (tj_index s1)" using tarjan_loop_inv by blast
    have "insert root (dom (tj_index s)) \<subseteq> dom (tj_index s0)" by (auto simp: s0_def tarjan_push_def)
    moreover obtain s' where s': "tarjan_roots es ns s1 = Some s'" "tj_inv (dep_adj es) s'"
      "tj_call s' = []" "set ns \<union> dom (tj_index s1) \<subseteq> dom (tj_index s')"
      using 2(1) [OF None s1(1) [unfolded s0_def] s1(2,3)] by blast
    ultimately have "set (root # ns) \<union> dom (tj_index s) \<subseteq> dom (tj_index s')" using s1(4) by simp blast
    moreover have "tarjan_roots es (root # ns) s = Some s'" using s1(1) s'(1) None by (simp add: s0_def)
    ultimately show ?thesis using s'(2,3) by blast
  next
    case (Some i)
    then have "root \<in> dom (tj_index s)" by blast
    then show ?thesis using 2(2) [OF Some 2(3,4)] Some by simp blast
  qed
qed simp

lemma tarjan_init_inv: "tj_inv adj tarjan_init"
  by (simp add: tj_inv_def tj_shape_def tj_seen_def tj_low_def tj_bound_def tj_tree_def tj_out_def
      tarjan_init_def frames_def)

text \<open>Only nodes of the graph are visited.\<close>

lemma tarjan_step_visits:
  assumes "tarjan_step (dep_adj es) s = Some s'"
  shows "dom (tj_index s') \<subseteq> dom (tj_index s) \<union> set (dep_nodes es)"
proof (cases "tj_call s")
  case (Cons f rest)
  obtain v ei where f: "f = (v, ei)" by force
  show ?thesis
  proof (cases "ei < length (dep_adj es v)")
    case True
    have "dep_adj es v ! ei \<in> set (dep_nodes es)" using True dep_adj_nodes [of _ es v] by simp
    then show ?thesis using assms Cons f True
      by (auto simp: tarjan_step_def tarjan_edge_def tarjan_push_def split: option.splits if_splits)
  next
    case False
    then obtain s1 where "tarjan_close v s = Some s1" "s' = tarjan_return v rest s1"
      using assms Cons f by (auto simp: tarjan_step_def)
    then show ?thesis by (simp add: pop_until_fields tarjan_return_fields)
  qed
qed (use assms in \<open>simp add: tarjan_step_def\<close>)

lemma tarjan_loop_visits:
  "tarjan_loop es s = Some s' \<Longrightarrow> dom (tj_index s') \<subseteq> dom (tj_index s) \<union> set (dep_nodes es)"
proof (induction es s rule: tarjan_loop.induct)
  case (1 es s)
  show ?case
  proof (cases "tj_call s = []")
    case True
    then show ?thesis using 1(2) by (simp add: tarjan_loop.simps [of es s])
  next
    case False
    then obtain s1 where s1: "tarjan_step (dep_adj es) s = Some s1" "tarjan_loop es s1 = Some s'"
      using 1(2) by (auto simp: tarjan_loop.simps [of es s] split: option.splits)
    then show ?thesis using 1(1) [OF False s1] tarjan_step_visits [OF s1(1)] by blast
  qed
qed

lemma tarjan_roots_visits:
  "tarjan_roots es ns s = Some s' \<Longrightarrow> set ns \<subseteq> set (dep_nodes es)
     \<Longrightarrow> dom (tj_index s') \<subseteq> dom (tj_index s) \<union> set (dep_nodes es)"
proof (induction es ns s rule: tarjan_roots.induct)
  case (2 es root ns s)
  show ?case
  proof (cases "tj_index s root")
    case None
    then obtain s1 where s1: "tarjan_loop es ((tarjan_push root s)\<lparr>tj_call := [(root, 0)]\<rparr>) = Some s1"
      "tarjan_roots es ns s1 = Some s'" using 2(3) by (auto split: option.splits)
    then show ?thesis using 2(1) [OF None s1] 2(4) tarjan_loop_visits [OF s1(1)]
      by (auto simp: tarjan_push_def)
  next
    case (Some i)
    then show ?thesis using 2(2) [OF Some] 2(3,4) by auto
  qed
qed simp

section \<open>Correctness of the components\<close>

lemma stronglyConnected_run:
  "\<exists>s. tarjan_roots es (dep_nodes es) tarjan_init = Some s \<and> tj_out (dep_adj es) s
     \<and> tj_stack s = [] \<and> dom (tj_index s) = set (dep_nodes es)"
proof -
  have "tj_call tarjan_init = []" by (simp add: tarjan_init_def)
  then obtain s where s: "tarjan_roots es (dep_nodes es) tarjan_init = Some s" "tj_inv (dep_adj es) s"
    "tj_call s = []" "set (dep_nodes es) \<subseteq> dom (tj_index s)"
    using tarjan_roots_inv [OF tarjan_init_inv, of es "dep_nodes es"] by auto
  moreover have "dom (tj_index s) \<subseteq> set (dep_nodes es)"
    using tarjan_roots_visits [OF s(1)] by (simp add: tarjan_init_def)
  ultimately show ?thesis using invD(6) [OF s(2)] no_frames_no_stack [OF s(2,3)] by blast
qed

lemma stronglyConnected_total: "\<exists>sccs. stronglyConnected es = Some sccs"
  using stronglyConnected_run [of es] by (auto simp: stronglyConnected_def)

lemma scc_of_eq: "v \<in> scc_of adj u \<Longrightarrow> scc_of adj v = scc_of adj u"
  by (auto simp: scc_of_def intro: rtrancl_trans)

lemma stronglyConnected_components:
  assumes "stronglyConnected es = Some sccs"
  shows "distinct (concat sccs)" and "set (concat sccs) = set (dep_nodes es)"
    and "c \<in> set sccs \<Longrightarrow> sorted c" and "c \<in> set sccs \<Longrightarrow> distinct c"
    and "c \<in> set sccs \<Longrightarrow> v \<in> set c \<Longrightarrow> set c = scc_of (dep_adj es) v" and "[] \<notin> set sccs"
proof -
  obtain s where s: "tj_sccs s = sccs" "tj_out (dep_adj es) s" "tj_stack s = []"
    "dom (tj_index s) = set (dep_nodes es)"
    using stronglyConnected_run [of es] assms by (auto simp: stronglyConnected_def)
  show dist: "distinct (concat sccs)" and "set (concat sccs) = set (dep_nodes es)"
    and "c \<in> set sccs \<Longrightarrow> sorted c"
    using s by (simp_all add: tj_out_def)
  show "[] \<notin> set sccs" using s(1,2) by (auto simp: tj_out_def)
  show "distinct c" if "c \<in> set sccs" using dist that by (simp add: distinct_concat_iff)
  assume "c \<in> set sccs" and v: "v \<in> set c"
  then obtain u where "set c = scc_of (dep_adj es) u" using s(1,2) by (auto simp: tj_out_def)
  then show "set c = scc_of (dep_adj es) v" using v scc_of_eq by blast
qed

text \<open>The specification: mutual reachability along the given edges.\<close>

definition dep_rel :: "DirectedEdge list \<Rightarrow> (string \<times> string) set" where
  "dep_rel es = (\<lambda>e. (de_Src e, de_Dst e)) ` set es"

definition mutual :: "DirectedEdge list \<Rightarrow> string \<Rightarrow> string set" where
  "mutual es v = {y. (v, y) \<in> (dep_rel es)\<^sup>* \<and> (y, v) \<in> (dep_rel es)\<^sup>*}"

lemma edge_rel_dep_adj: "edge_rel (dep_adj es) = dep_rel es - Id"
  by (auto simp: edge_rel_def set_dep_adj dep_rel_def)

lemma scc_of_mutual: "scc_of (dep_adj es) v = mutual es v"
  by (simp add: scc_of_def mutual_def edge_rel_dep_adj rtrancl_r_diff_Id)

lemma mutual_refl [simp]: "v \<in> mutual es v"
  by (simp add: mutual_def)

lemma mutual_sym: "a \<in> mutual es b \<longleftrightarrow> b \<in> mutual es a"
  by (auto simp: mutual_def)

lemma mutual_trans: "b \<in> mutual es a \<Longrightarrow> c \<in> mutual es b \<Longrightarrow> c \<in> mutual es a"
  by (auto simp: mutual_def intro: rtrancl_trans)

lemma mutual_eq: "b \<in> mutual es a \<Longrightarrow> mutual es b = mutual es a"
  using mutual_trans mutual_sym by blast

lemma mutual_node: "b \<in> mutual es a \<Longrightarrow> a \<noteq> b \<Longrightarrow> a \<in> set (dep_nodes es)"
  by (auto simp: mutual_def set_dep_nodes dep_rel_def elim: converse_rtranclE)

lemmas stronglyConnected_classes = stronglyConnected_components [unfolded scc_of_mutual]

text \<open>
  C24. The iterative search of \<open>stronglyConnected\<close> returns for every edge list, and what it returns
  are exactly the strongly connected components of the graph: sorted, pairwise disjoint, each
  the set of nodes connected both ways with any of its members, one for every node.
\<close>

theorem tarjan_components_exact:
  "\<exists>sccs. stronglyConnected es = Some sccs \<and> distinct (concat sccs) \<and> list_all sorted sccs
     \<and> set (concat sccs) = de_Src ` set es \<union> de_Dst ` set es
     \<and> set ` set sccs = mutual es ` (de_Src ` set es \<union> de_Dst ` set es)"
proof -
  obtain sccs where s: "stronglyConnected es = Some sccs" using stronglyConnected_total by blast
  note k = stronglyConnected_classes [OF s, unfolded set_dep_nodes]
  have "set ` set sccs \<subseteq> mutual es ` set (concat sccs)"
  proof
    fix C assume "C \<in> set ` set sccs"
    then obtain c where c: "c \<in> set sccs" "C = set c" by blast
    then have "hd c \<in> set c" using k(6) by (metis hd_in_set)
    then show "C \<in> mutual es ` set (concat sccs)" using c k(5) [OF c(1)] by auto
  qed
  moreover have "mutual es ` set (concat sccs) \<subseteq> set ` set sccs" using k(5) by auto
  ultimately show ?thesis using s k by (auto simp: list_all_iff simp del: set_concat)
qed

text \<open>A run on a graph with a cycle of three nodes, a self-loop and a bridge.\<close>

lemma stronglyConnected_example:
  "stronglyConnected [\<lparr>de_Src = ''a'', de_Dst = ''b''\<rparr>, \<lparr>de_Src = ''b'', de_Dst = ''c''\<rparr>,
     \<lparr>de_Src = ''c'', de_Dst = ''a''\<rparr>, \<lparr>de_Src = ''c'', de_Dst = ''d''\<rparr>, \<lparr>de_Src = ''d'', de_Dst = ''d''\<rparr>]
   = Some [[''d''], [''a'', ''b'', ''c'']]"
  by code_simp

end
