(* ===== verification/Cycle_Gate.thy ===== *)
theory Cycle_Gate
  imports Cycle_Search
begin

text \<open>
  \<open>internal/application/diffgate/cyclegate.go\<close>: the gate that flags a change introducing a
  dependency cycle, on top of the component search. It fails exactly if a changed node is on a
  cycle of the after-state whose members were not connected both ways at base.
\<close>

section \<open>Data\<close>

definition DependencyKinds :: "string list" where
  "DependencyKinds = [''CALLS'', ''IMPORTS'']"

definition FailNewCycle :: string where
  "FailNewCycle = ''new_cycle''"

record CycleMember =
  cm_NodeID :: string
  cm_FilePath :: string
  cm_SymbolPath :: string

record CycleGroup =
  cg_Members :: "CycleMember list"

record CycleVerdict =
  cv_Pass :: bool
  cv_NewCycles :: "CycleGroup list"

definition CycleVerdict_Failures :: "CycleVerdict \<Rightarrow> string list" where
  "CycleVerdict_Failures v = (if cv_Pass v then [] else [FailNewCycle])"

definition CycleVerdict_ExitCode :: "CycleVerdict \<Rightarrow> int" where
  "CycleVerdict_ExitCode v = (if cv_Pass v then 0 else 1)"

section \<open>The gate\<close>

fun index_components :: "nat \<Rightarrow> string list list \<Rightarrow> (string \<rightharpoonup> nat) \<Rightarrow> (string \<rightharpoonup> nat)" where
  "index_components i [] idx = idx"
| "index_components i (scc # sccs) idx =
     index_components (Suc i) sccs
       (if length scc < 2 then idx else fold (\<lambda>x m. m(x \<mapsto> i)) scc idx)"

definition componentIndex :: "string list list \<Rightarrow> (string \<rightharpoonup> nat)" where
  "componentIndex sccs = index_components 0 sccs Map.empty"

text \<open>Called on components with at least two members only, so \<open>scc[0]\<close> exists.\<close>

fun containedInOneBaseSCC :: "string list \<Rightarrow> (string \<rightharpoonup> nat) \<Rightarrow> bool" where
  "containedInOneBaseSCC [] baseComp = False"
| "containedInOneBaseSCC (x # xs) baseComp =
     (case baseComp x of None \<Rightarrow> False
      | Some first \<Rightarrow> list_all (\<lambda>y. baseComp y = Some first) xs)"

definition touchesChanged :: "string list \<Rightarrow> string set \<Rightarrow> bool" where
  "touchesChanged scc changed \<longleftrightarrow> list_ex (\<lambda>x. x \<in> changed) scc"

definition cycle_members :: "string list \<Rightarrow> (string \<rightharpoonup> CycleMember) \<Rightarrow> CycleMember list" where
  "cycle_members scc info =
     sort_key (\<lambda>m. (cm_FilePath m, cm_NodeID m))
       (map (\<lambda>x. case info x of Some m \<Rightarrow> m
                 | None \<Rightarrow> \<lparr>cm_NodeID = x, cm_FilePath = [], cm_SymbolPath = []\<rparr>) scc)"

definition firstID :: "CycleGroup \<Rightarrow> string" where
  "firstID g = (case cg_Members g of [] \<Rightarrow> [] | m # _ \<Rightarrow> cm_NodeID m)"

text \<open>The guards of the loop over the components of the after-state.\<close>

definition net_new :: "(string \<rightharpoonup> nat) \<Rightarrow> string set \<Rightarrow> string list \<Rightarrow> bool" where
  "net_new baseComp changed scc \<longleftrightarrow>
     \<not> length scc < 2 \<and> \<not> containedInOneBaseSCC scc baseComp \<and> touchesChanged scc changed"

definition CycleGate_Evaluate :: "DirectedEdge list \<Rightarrow> DirectedEdge list \<Rightarrow> string list
    \<Rightarrow> (string \<rightharpoonup> CycleMember) \<Rightarrow> CycleVerdict option" where
  "CycleGate_Evaluate afterEdges baseEdges changedNodeIDs info =
     (case stronglyConnected baseEdges of None \<Rightarrow> None
      | Some baseSccs \<Rightarrow>
        (case stronglyConnected afterEdges of None \<Rightarrow> None
         | Some sccs \<Rightarrow>
             let groups = map (\<lambda>scc. \<lparr>cg_Members = cycle_members scc info\<rparr>)
                   (filter (net_new (componentIndex baseSccs) (set changedNodeIDs)) sccs)
             in Some \<lparr>cv_Pass = (groups = []), cv_NewCycles = sort_key firstID groups\<rparr>))"

lemma index_components_other:
  "(\<And>c. c \<in> set sccs \<Longrightarrow> x \<notin> set c) \<Longrightarrow> index_components i sccs idx x = idx x"
proof (induction i sccs idx rule: index_components.induct)
  case (2 i scc sccs idx)
  have "fold (\<lambda>x m. m(x \<mapsto> i)) ys m x = m x" if "x \<notin> set ys" for ys m
    using that by (induction ys arbitrary: m) auto
  then show ?case using 2 by auto
qed simp

lemma index_components_nth:
  assumes "distinct (concat sccs)" and "k < length sccs" and "x \<in> set (sccs ! k)"
  shows "index_components i sccs idx x = (if length (sccs ! k) < 2 then idx x else Some (i + k))"
  using assms
proof (induction i sccs idx arbitrary: k rule: index_components.induct)
  case (2 i scc sccs idx)
  have upd: "fold (\<lambda>x m. m(x \<mapsto> i)) ys m x = (if x \<in> set ys then Some i else m x)" for ys m
    by (induction ys arbitrary: m) auto
  show ?case
  proof (cases k)
    case 0
    then have "x \<in> set scc" "\<And>c. c \<in> set sccs \<Longrightarrow> x \<notin> set c" using 2(2,4) by auto
    then show ?thesis using 0 by (simp add: index_components_other upd)
  next
    case (Suc j)
    then have "x \<in> set (sccs ! j)" "j < length sccs" using 2(3,4) by auto
    moreover then have "x \<notin> set scc" using 2(2) by (auto dest: nth_mem)
    ultimately show ?thesis using 2(1) [of j] 2(2) Suc by (simp add: upd)
  qed
qed simp

lemma componentIndex_Some:
  assumes "distinct (concat sccs)"
  shows "componentIndex sccs x = Some k
    \<longleftrightarrow> k < length sccs \<and> x \<in> set (sccs ! k) \<and> 2 \<le> length (sccs ! k)"
proof
  assume ix: "componentIndex sccs x = Some k"
  then have "\<exists>c \<in> set sccs. x \<in> set c"
    using index_components_other [of sccs x 0 Map.empty] by (force simp: componentIndex_def)
  then obtain j where "j < length sccs" "x \<in> set (sccs ! j)" by (metis in_set_conv_nth)
  then show "k < length sccs \<and> x \<in> set (sccs ! k) \<and> 2 \<le> length (sccs ! k)"
    using index_components_nth [OF assms, of j x 0 Map.empty] ix
    by (auto simp: componentIndex_def not_less split: if_splits)
next
  assume "k < length sccs \<and> x \<in> set (sccs ! k) \<and> 2 \<le> length (sccs ! k)"
  then show "componentIndex sccs x = Some k"
    using index_components_nth [OF assms, of k x 0 Map.empty] by (simp add: componentIndex_def)
qed

lemma two_members: "2 \<le> length c \<Longrightarrow> distinct c \<Longrightarrow> x \<in> set c \<Longrightarrow> \<exists>y \<in> set c. y \<noteq> x"
  by (cases c rule: list.exhaust; cases "tl c") auto

text \<open>A component of at least two nodes is contained in a base component iff it was connected there.\<close>

lemma contained_iff:
  assumes base: "stronglyConnected es = Some sccs" and c: "2 \<le> length c" "distinct c"
  shows "containedInOneBaseSCC c (componentIndex sccs) \<longleftrightarrow> (\<forall>a \<in> set c. \<forall>b \<in> set c. b \<in> mutual es a)"
proof -
  note k = stronglyConnected_classes [OF base]
  obtain x xs where x: "c = x # xs" using c by (cases c) auto
  have "containedInOneBaseSCC c (componentIndex sccs)
      \<longleftrightarrow> (\<exists>k. \<forall>y \<in> set c. componentIndex sccs y = Some k)"
    unfolding x by (auto simp: list_all_iff split: option.splits)
  also have "\<dots> \<longleftrightarrow> (\<forall>a \<in> set c. \<forall>b \<in> set c. b \<in> mutual es a)"
  proof
    assume "\<exists>k. \<forall>y \<in> set c. componentIndex sccs y = Some k"
    then obtain i where "\<forall>y \<in> set c. i < length sccs \<and> y \<in> set (sccs ! i)"
      using componentIndex_Some [OF k(1)] by blast
    then show "\<forall>a \<in> set c. \<forall>b \<in> set c. b \<in> mutual es a" using k(5) nth_mem by metis
  next
    assume all: "\<forall>a \<in> set c. \<forall>b \<in> set c. b \<in> mutual es a"
    obtain y where y: "y \<in> set c" "y \<noteq> x" using two_members [OF c, of x] x by auto
    then have "x \<in> set (concat sccs)" using all mutual_node [of y es x] x k(2) by auto
    then obtain i where i: "i < length sccs" "x \<in> set (sccs ! i)" by (auto simp: in_set_conv_nth [of _ sccs])
    have sub: "set c \<subseteq> set (sccs ! i)" using k(5) [OF nth_mem i(2)] i(1) all x by auto
    have "2 \<le> card (set c)" using c by (simp add: distinct_card)
    also have "\<dots> \<le> length (sccs ! i)" using sub card_mono [OF _ sub] card_length le_trans by blast
    finally show "\<exists>k. \<forall>y \<in> set c. componentIndex sccs y = Some k"
      using sub i(1) componentIndex_Some [OF k(1)] by blast
  qed
  finally show ?thesis .
qed

section \<open>Correctness of the gate\<close>

text \<open>
  The cycles a change is to blame for: the class of a changed node in the after-state, if some
  two of its members were not connected both ways at base.
\<close>

definition new_cycles :: "DirectedEdge list \<Rightarrow> DirectedEdge list \<Rightarrow> string list \<Rightarrow> string set set" where
  "new_cycles after base changed =
     {C. \<exists>c \<in> set changed. C = mutual after c \<and> (\<exists>a \<in> C. \<exists>b \<in> C. b \<notin> mutual base a)}"

definition cycle_name :: "(string \<rightharpoonup> CycleMember) \<Rightarrow> string \<Rightarrow> CycleMember" where
  "cycle_name info x = (case info x of Some m \<Rightarrow> m
     | None \<Rightarrow> \<lparr>cm_NodeID = x, cm_FilePath = [], cm_SymbolPath = []\<rparr>)"

lemma set_cycle_members: "set (cycle_members scc info) = cycle_name info ` set scc"
  by (simp add: cycle_members_def cycle_name_def)

lemma distinct_concat_sets: "distinct (concat xss) \<Longrightarrow> [] \<notin> set xss \<Longrightarrow> distinct (map set xss)"
proof (induction xss)
  case (Cons xs xss)
  then have "xs \<noteq> []" "set xs \<inter> (\<Union>ys \<in> set xss. set ys) = {}" by auto
  then obtain x where "x \<in> set xs" "\<And>ys. ys \<in> set xss \<Longrightarrow> x \<notin> set ys"
    by (cases xs) auto
  then have "set xs \<notin> set ` set xss" by blast
  then show ?case using Cons by simp
qed simp

lemma net_new_classes:
  fixes changed :: "string list"
  assumes base: "stronglyConnected baseEdges = Some bs" and after: "stronglyConnected afterEdges = Some sccs"
  defines "F \<equiv> filter (net_new (componentIndex bs) (set changed)) sccs"
  shows "set ` set F = new_cycles afterEdges baseEdges changed" and "distinct (map set F)"
proof -
  note k = stronglyConnected_classes [OF after]
  have two: "2 \<le> length c" if "c \<in> set F" for c using that by (auto simp: F_def net_new_def)
  have nn: "net_new (componentIndex bs) (set changed) c
      \<longleftrightarrow> 2 \<le> length c \<and> (\<exists>a \<in> set c. \<exists>b \<in> set c. b \<notin> mutual baseEdges a) \<and> (\<exists>x \<in> set c. x \<in> set changed)"
    if "c \<in> set sccs" for c
    using contained_iff [OF base, of c] k(4) [OF that]
    by (auto simp: net_new_def touchesChanged_def list_ex_iff)
  show "set ` set F = new_cycles afterEdges baseEdges changed"
  proof (intro equalityI subsetI)
    fix C assume "C \<in> set ` set F"
    then obtain c where c: "c \<in> set sccs" "net_new (componentIndex bs) (set changed) c" "C = set c"
      by (auto simp: F_def)
    then show "C \<in> new_cycles afterEdges baseEdges changed"
      using nn [OF c(1)] k(5) [OF c(1)] unfolding new_cycles_def by blast
  next
    fix C assume "C \<in> new_cycles afterEdges baseEdges changed"
    then obtain x a b where x: "x \<in> set changed" "C = mutual afterEdges x" "a \<in> C" "b \<in> C"
      "b \<notin> mutual baseEdges a" by (auto simp: new_cycles_def)
    have "a \<noteq> b" using x(5) by auto
    then have "\<exists>y \<in> C. y \<noteq> x" using x(3,4) by metis
    then have "x \<in> set (concat sccs)" unfolding k(2) x(2) using mutual_node by blast
    then obtain c where c: "c \<in> set sccs" "x \<in> set c" by auto
    have C: "set c = C" using k(5) [OF c] x(2) by simp
    have "card {a, b} \<le> card (set c)" using x(3,4) C by (intro card_mono) auto
    then have "2 \<le> length c" using \<open>a \<noteq> b\<close> card_length [of c] by simp
    then show "C \<in> set ` set F" using nn [OF c(1)] c x C unfolding F_def by auto
  qed
  have "distinct (concat F)" using k(1) unfolding F_def by (induction sccs) auto
  then show "distinct (map set F)" by (rule distinct_concat_sets) (use two in force)
qed

lemma cycle_verdict:
  obtains F where
    "CycleGate_Evaluate after base changed info = Some \<lparr>cv_Pass = (F = []),
       cv_NewCycles = sort_key firstID (map (\<lambda>scc. \<lparr>cg_Members = cycle_members scc info\<rparr>) F)\<rparr>"
    "set ` set F = new_cycles after base changed" "distinct (map set F)"
proof -
  obtain bs sccs where s: "stronglyConnected base = Some bs" "stronglyConnected after = Some sccs"
    using stronglyConnected_total by blast
  show thesis
    by (rule that [OF _ net_new_classes [OF s]]) (simp add: CycleGate_Evaluate_def s Let_def)
qed

text \<open>
  C25. The gate always returns a verdict. It fails exactly if some changed node belongs to a cycle of
  the after-state whose members were not all connected both ways at base; it reports one group
  per such cycle, naming its members.
\<close>

theorem cycle_gate_exact:
  "\<exists>v. CycleGate_Evaluate after base changed info = Some v
     \<and> (CycleVerdict_ExitCode v = 0 \<longleftrightarrow> new_cycles after base changed = {})
     \<and> (\<lambda>g. set (cg_Members g)) ` set (cv_NewCycles v)
         = (\<lambda>C. cycle_name info ` C) ` new_cycles after base changed
     \<and> length (cv_NewCycles v) = card (new_cycles after base changed)"
proof -
  obtain F where F: "CycleGate_Evaluate after base changed info = Some \<lparr>cv_Pass = (F = []),
       cv_NewCycles = sort_key firstID (map (\<lambda>scc. \<lparr>cg_Members = cycle_members scc info\<rparr>) F)\<rparr>"
    "set ` set F = new_cycles after base changed" "distinct (map set F)"
    by (rule cycle_verdict)
  have "length F = card (set ` set F)" using distinct_card [OF F(3)] by simp
  then show ?thesis
    unfolding F(1) F(2) [symmetric]
    by (auto simp: CycleVerdict_ExitCode_def set_cycle_members image_image)
qed

text \<open>A change that only removes dependencies never fails the gate.\<close>

lemma removing_dependencies_passes:
  assumes "set after \<subseteq> set base" and "CycleGate_Evaluate after base changed info = Some v"
  shows "cv_Pass v"
proof -
  have "mutual after a \<subseteq> mutual base a" for a
    using rtrancl_mono [of "dep_rel after" "dep_rel base"] assms(1) unfolding mutual_def dep_rel_def by blast
  then have "new_cycles after base changed = {}"
    using mutual_trans mutual_sym unfolding new_cycles_def by blast
  moreover obtain F where "v = \<lparr>cv_Pass = (F = []),
       cv_NewCycles = sort_key firstID (map (\<lambda>scc. \<lparr>cg_Members = cycle_members scc info\<rparr>) F)\<rparr>"
      "set ` set F = new_cycles after base changed"
    using cycle_verdict [of after base changed info] assms(2) by (metis option.inject)
  ultimately show ?thesis by simp
qed

end
