(* ===== verification/Graph_Queries.thy ===== *)
theory Graph_Queries
  imports Promotion_Effect Diff_Gate Cycle_Gate
begin

text \<open>
  The read side of the promoted graph: the SQLite repositories behind the structural checks and the
  gates (\<open>deadcode_repo.go\<close>, \<open>contractdrift_repo.go\<close>, \<open>coverage_repo.go\<close>, \<open>exportedsymbol_repo.go\<close>,
  \<open>cycle_edges_repo.go\<close>, \<open>node_lookup_repo.go\<close>), each a query over the tables of \<open>Graph_Tables\<close>. A
  query may fail as a whole. Rows without an \<open>ORDER BY\<close> come in the order of the table.
\<close>

section \<open>Queries\<close>

definition scoped_rows ::
  "graph_tables \<Rightarrow> string \<Rightarrow> string \<Rightarrow> ((string \<times> string) \<times> node_rec) list" where
  "scoped_rows db repoID branch = filter (\<lambda>(k, row). nd_repo_id row = repoID \<and> snd k = branch) (gb_nodes db)"

definition rows_in_files ::
  "graph_tables \<Rightarrow> string \<Rightarrow> string \<Rightarrow> string list \<Rightarrow> ((string \<times> string) \<times> node_rec) list" where
  "rows_in_files db repoID branch filePaths =
     sort_key (\<lambda>(k, row). (nd_file_path row, fst k))
       (filter (\<lambda>(k, row). nd_file_path row \<in> set filePaths) (scoped_rows db repoID branch))"

definition coalesce_int :: "int option \<Rightarrow> int" where
  "coalesce_int v = (case v of None \<Rightarrow> 0 | Some i \<Rightarrow> i)"

definition coalesce_str :: "string option \<Rightarrow> string" where
  "coalesce_str v = (case v of None \<Rightarrow> [] | Some s \<Rightarrow> s)"

definition row_ref :: "(string \<times> string) \<times> node_rec \<Rightarrow> NodeRef" where
  "row_ref kr =
     \<lparr>nr_NodeID = fst (fst kr), nr_FilePath = nd_file_path (snd kr), nr_Kind = nd_kind (snd kr),
      nr_Name = nd_symbol_path (snd kr), nr_LineStart = coalesce_int (nd_line_start (snd kr)),
      nr_LineEnd = coalesce_int (nd_line_end (snd kr)), nr_ContentHash = nd_content_hash (snd kr)\<rparr>"

text \<open>The join with the \<open>CALLS\<close> edges into a node, on the branch of the node.\<close>

definition calls_into_node :: "graph_tables \<Rightarrow> string \<times> string \<Rightarrow> edge_rec list" where
  "calls_into_node db k =
     map snd (filter (\<lambda>(ek, e). er_dst_node_id e = fst k \<and> snd ek = snd k \<and> er_kind e = ''CALLS'') (gb_edges db))"

definition DeadNodesInFiles ::
  "err option \<Rightarrow> graph_tables \<Rightarrow> string \<Rightarrow> string \<Rightarrow> string list \<Rightarrow> NodeRef list result" where
  "DeadNodesInFiles fault db repoID branch filePaths =
     (if filePaths = [] then Inr []
      else case fault of
        Some e \<Rightarrow> Inl (Wrap ''sqlite.DeadCodeRepo.DeadNodesInFiles: %w'' [] e)
      | None \<Rightarrow> Inr (map row_ref (filter (\<lambda>kr. calls_into_node db (fst kr) = []) (rows_in_files db repoID branch filePaths))))"

text \<open>
  \<open>InterfaceMethodNames\<close>: the names after the dot of the methods whose symbol path matches
  \<open>interface.%\<close>, without a further dot. Positions count bytes here and characters in SQLite; the
  two agree on the ASCII identifiers the queries select.
\<close>

definition method_of_interface :: "string \<Rightarrow> string \<Rightarrow> string option" where
  "method_of_interface i m =
     (let name = drop (length i + 1) m
      in if sql_like (i @ ''.%'') m \<and> CHR ''.'' \<notin> set name then Some name else None)"

definition InterfaceMethodNames :: "err option \<Rightarrow> graph_tables \<Rightarrow> string \<Rightarrow> string \<Rightarrow> string list result" where
  "InterfaceMethodNames fault db repoID branch =
     (case fault of
        Some e \<Rightarrow> Inl (Wrap ''sqlite.DeadCodeRepo.InterfaceMethodNames: %w'' [] e)
      | None \<Rightarrow>
          let rows = map snd (scoped_rows db repoID branch);
              ifaces = filter (\<lambda>r. nd_kind r = ''interface'') rows;
              methods = filter (\<lambda>r. nd_kind r = ''method'') rows
          in Inr (filter (\<lambda>n. n \<noteq> []) (dedup (somes (concat (map (\<lambda>i. map (\<lambda>m.
                    method_of_interface (nd_symbol_path i) (nd_symbol_path m)) methods) ifaces))))))"

definition drifted_of :: "(string \<times> string) \<times> node_rec \<Rightarrow> DriftedNode option" where
  "drifted_of kr =
     (case (nd_prev_signature (snd kr), nd_signature (snd kr)) of
        (Some prev, Some sig) \<Rightarrow>
          if nd_kind (snd kr) \<in> {''function'', ''method'', ''interface''} \<and> prev \<noteq> sig
          then Some \<lparr>dn_NodeID = fst (fst kr), dn_FilePath = nd_file_path (snd kr), dn_Kind = nd_kind (snd kr),
                     dn_Name = nd_symbol_path (snd kr), dn_PrevSig = prev, dn_NewSig = sig,
                     dn_LineStart = coalesce_int (nd_line_start (snd kr)), dn_LineEnd = coalesce_int (nd_line_end (snd kr)),
                     dn_ContentHash = nd_content_hash (snd kr), dn_Exported = (coalesce_int (nd_exported (snd kr)) \<noteq> 0)\<rparr>
          else None
      | _ \<Rightarrow> None)"

definition DriftedNodesInFiles ::
  "err option \<Rightarrow> graph_tables \<Rightarrow> string \<Rightarrow> string \<Rightarrow> string list \<Rightarrow> DriftedNode list result" where
  "DriftedNodesInFiles fault db repoID branch filePaths =
     (if filePaths = [] then Inr []
      else case fault of
        Some e \<Rightarrow> Inl (Wrap ''sqlite.ContractDriftRepo.DriftedNodesInFiles: %w'' [] e)
      | None \<Rightarrow> Inr (somes (map drifted_of (rows_in_files db repoID branch filePaths))))"

record ExportedSymbol =
  es_NodeID :: string
  es_FilePath :: string
  es_SymbolKind :: string
  es_Name :: string

definition removable_kinds :: "string list" where
  "removable_kinds = [''function'', ''method'', ''interface'', ''struct'', ''type'', ''variable'', ''class'']"

definition ExportedSymbolsInFiles ::
  "err option \<Rightarrow> graph_tables \<Rightarrow> string \<Rightarrow> string \<Rightarrow> string list \<Rightarrow> ExportedSymbol list result" where
  "ExportedSymbolsInFiles fault db repoID branch filePaths =
     (if filePaths = [] then Inr []
      else case fault of
        Some e \<Rightarrow> Inl (Wrap ''sqlite.ExportedSymbolRepo.ExportedSymbolsInFiles: %w'' [] e)
      | None \<Rightarrow>
          Inr (map (\<lambda>(k, row). \<lparr>es_NodeID = fst k, es_FilePath = nd_file_path row, es_SymbolKind = nd_kind row,
                               es_Name = nd_symbol_path row\<rparr>)
            (filter (\<lambda>(k, row). nd_kind row \<in> set removable_kinds \<and> coalesce_int (nd_exported row) = 1)
               (rows_in_files db repoID branch filePaths))))"

definition CandidateCallersInFiles ::
  "err option \<Rightarrow> graph_tables \<Rightarrow> string \<Rightarrow> string \<Rightarrow> string list \<Rightarrow> NodeCallers list result" where
  "CandidateCallersInFiles fault db repoID branch filePaths =
     (if filePaths = [] then Inr []
      else case fault of
        Some e \<Rightarrow> Inl (Wrap ''sqlite.CoverageRepo.CandidateCallersInFiles: %w'' [] e)
      | None \<Rightarrow>
          Inr (map (\<lambda>kr.
            \<lparr>nc_Node = row_ref kr,
             nc_CallerFiles = dedup (filter (\<lambda>p. p \<noteq> []) (somes (map (\<lambda>e.
               map_option nd_file_path (map_of (gb_nodes db) (er_src_node_id e, snd (fst kr)))) (calls_into_node db (fst kr)))))\<rparr>)
            (rows_in_files db repoID branch filePaths)))"

definition InboundCallsEdges ::
  "err option \<Rightarrow> graph_tables \<Rightarrow> string \<Rightarrow> string \<Rightarrow> string list \<Rightarrow> (string \<Rightarrow> NodeRef list) result" where
  "InboundCallsEdges fault db repoID branch nodeIDs =
     (if nodeIDs = [] then Inr (\<lambda>_. [])
      else case fault of
        Some e \<Rightarrow> Inl (Wrap ''sqlite.CoverageRepo.InboundCallsEdges: %w'' [] e)
      | None \<Rightarrow>
          Inr (foldl (\<lambda>out (k, e). case map_of (gb_nodes db) (er_src_node_id e, snd k) of
                 None \<Rightarrow> out
               | Some row \<Rightarrow> out(er_dst_node_id e := out (er_dst_node_id e) @ [row_ref ((er_src_node_id e, snd k), row)]))
               (\<lambda>_. []) (filter (\<lambda>(k, e). er_repo_id e = repoID \<and> snd k = branch \<and> er_kind e = ''CALLS''
                                      \<and> er_dst_node_id e \<in> set nodeIDs) (gb_edges db))))"

record DependencyEdge =
  dp_SrcID :: string
  dp_DstID :: string
  dp_SrcFile :: string
  dp_DstFile :: string
  dp_SrcSymbol :: string
  dp_DstSymbol :: string

definition ascii_upper :: "char \<Rightarrow> char" where
  "ascii_upper c = (let n = of_char c :: nat in if 97 \<le> n \<and> n \<le> 122 then char_of (n - 32) else c)"

definition DependencyEdges ::
  "err option \<Rightarrow> graph_tables \<Rightarrow> string \<Rightarrow> string \<Rightarrow> string list \<Rightarrow> DependencyEdge list result" where
  "DependencyEdges fault db repoID branch kinds =
     (if kinds = [] then Inr []
      else case fault of
        Some e \<Rightarrow> Inl (Wrap ''sqlite.CycleEdgeRepo.DependencyEdges: %w'' [] e)
      | None \<Rightarrow>
          Inr (somes (map (\<lambda>(k, e).
            (case (map_of (gb_nodes db) (er_src_node_id e, snd k), map_of (gb_nodes db) (er_dst_node_id e, snd k)) of
               (Some sn, Some dn) \<Rightarrow>
                 Some \<lparr>dp_SrcID = er_src_node_id e, dp_DstID = er_dst_node_id e, dp_SrcFile = nd_file_path sn,
                       dp_DstFile = nd_file_path dn, dp_SrcSymbol = nd_symbol_path sn, dp_DstSymbol = nd_symbol_path dn\<rparr>
             | _ \<Rightarrow> None))
            (filter (\<lambda>(k, e). er_repo_id e = repoID \<and> snd k = branch \<and> er_kind e \<in> set (map (map ascii_upper) kinds))
               (gb_edges db)))))"

section \<open>Node lookups\<close>

definition LookupNodes ::
  "err option \<Rightarrow> graph_tables \<Rightarrow> string \<Rightarrow> string \<Rightarrow> string list \<Rightarrow> NodeMeta list result" where
  "LookupNodes fault db repoID branch nodeIDs =
     (if nodeIDs = [] then Inr []
      else case fault of
        Some e \<Rightarrow> Inl (Wrap ''node_lookup: query: %w'' [] e)
      | None \<Rightarrow>
          Inr (map (\<lambda>(k, row). \<lparr>nm_NodeID = fst k, nm_SymbolPath = nd_symbol_path row, nm_FilePath = nd_file_path row,
                               nm_Kind = nd_kind row, nm_LineStart = coalesce_int (nd_line_start row),
                               nm_LineEnd = coalesce_int (nd_line_end row), nm_Snippet = coalesce_str (nd_snippet row)\<rparr>)
            (filter (\<lambda>(k, row). fst k \<in> set nodeIDs) (scoped_rows db repoID branch))))"

definition NodeContentHash :: "err option \<Rightarrow> graph_tables \<Rightarrow> string \<Rightarrow> string \<Rightarrow> string \<Rightarrow> string result" where
  "NodeContentHash fault db repoID branch nodeID =
     (if nodeID = [] then Inr []
      else case fault of
        Some e \<Rightarrow> Inl (Wrap ''node_lookup: node content hash: %w'' [] e)
      | None \<Rightarrow>
          Inr (case filter (\<lambda>(k, row). fst k = nodeID) (scoped_rows db repoID branch) of
                 [] \<Rightarrow> [] | (k, row) # _ \<Rightarrow> nd_content_hash row))"

definition NodesByContentHash ::
  "err option \<Rightarrow> graph_tables \<Rightarrow> string \<Rightarrow> string \<Rightarrow> string \<Rightarrow> string list \<Rightarrow> NodeRef list result" where
  "NodesByContentHash fault db repoID branch hash excludeKinds =
     (if hash = [] then Inr []
      else case fault of
        Some e \<Rightarrow> Inl (Wrap ''node_lookup: nodes_by_content_hash query: %w'' [] e)
      | None \<Rightarrow>
          Inr (map row_ref (filter (\<lambda>(k, row). nd_content_hash row = hash \<and> nd_kind row \<notin> set excludeKinds)
                 (scoped_rows db repoID branch))))"

definition NodesInFile :: "err option \<Rightarrow> graph_tables \<Rightarrow> string \<Rightarrow> string \<Rightarrow> string \<Rightarrow> string list result" where
  "NodesInFile fault db repoID branch filePath =
     (if filePath = [] then Inr []
      else case fault of
        Some e \<Rightarrow> Inl (Wrap ''node_lookup: nodes_in_file query: %w'' [] e)
      | None \<Rightarrow> Inr (map (\<lambda>(k, row). fst k) (filter (\<lambda>(k, row). nd_file_path row = filePath) (scoped_rows db repoID branch))))"

definition NodeLookupRepo :: "err option \<Rightarrow> graph_tables \<Rightarrow> NodeLookup" where
  "NodeLookupRepo fault db =
     \<lparr>nl_LookupNodes = LookupNodes fault db, nl_NodesInFile = NodesInFile fault db,
      nl_NodeContentHash = Some (NodeContentHash fault db)\<rparr>"


section \<open>What the queries see after a promotion\<close>

lemma set_rows_in_files:
  "(k, row) \<in> set (rows_in_files db r b fs)
     \<longleftrightarrow> (k, row) \<in> set (gb_nodes db) \<and> nd_repo_id row = r \<and> snd k = b \<and> nd_file_path row \<in> set fs"
  by (auto simp: rows_in_files_def scoped_rows_def)

text \<open>The rows of the batch's files after a promotion are the ones it wrote.\<close>

definition batch_paths_of :: "PromotionBatch \<Rightarrow> string list" where
  "batch_paths_of b = map pmf_Path (pb_Files b)"

definition written_row :: "PromotionBatch \<Rightarrow> graph_tables \<Rightarrow> string \<Rightarrow> Node \<Rightarrow> node_rec" where
  "written_row b db x n =
     node_columns b (case map_of (gb_nodes db) (x, pb_Branch b) of None \<Rightarrow> [] | Some r \<Rightarrow> [(n_ID n, nd_signature r)]) n"

lemma written_row_sel:
  "nd_kind (written_row b db x n) = n_Kind n" "nd_signature (written_row b db x n) = n_Signature n"
  "nd_prev_signature (written_row b db x n) = Some old
     \<longleftrightarrow> (\<exists>row. map_of (gb_nodes db) (x, pb_Branch b) = Some row \<and> nd_signature row = Some old)"
proof -
  show "nd_prev_signature (written_row b db x n) = Some old
     \<longleftrightarrow> (\<exists>row. map_of (gb_nodes db) (x, pb_Branch b) = Some row \<and> nd_signature row = Some old)"
  proof (cases "map_of (gb_nodes db) (x, pb_Branch b)")
    case (Some row)
    then show ?thesis by (cases "nd_signature row") (simp_all add: written_row_def node_columns_def)
  qed (simp add: written_row_def node_columns_def)
qed (simp_all add: written_row_def node_columns_def nodeSignature_def)

lemma rows_after_promotion:
  assumes ok: "tables_ok db" and ids: "ids_in_place b (gb_nodes db)"
    and run: "PromotionStore_Promote fault s db b = (db', None, pruned)"
  shows "((x, c), row) \<in> set (rows_in_files db' (pb_RepoID b) (pb_Branch b) (batch_paths_of b))
    \<longleftrightarrow> c = pb_Branch b \<and> (\<exists>n. find (\<lambda>n. n_ID n = x) (batch_nodes (pb_Files b)) = Some n \<and> row = written_row b db x n)"
    (is "?in \<longleftrightarrow> ?written")
proof -
  have "tables_ok db'" using integrity.promotion_keeps [OF ok, of fault s b] run by simp
  then have wf: "gm_wf (gb_nodes db')" by (rule tables_okD)
  have row: "((x, c), row) \<in> set (gb_nodes db') \<longleftrightarrow> promoted_row b (pb_Files b) (gb_nodes db) (x, c) = Some row"
    using gm_get_iff [OF wf] promote_rows [OF ok ids run] by simp
  show ?thesis
  proof (cases "c = pb_Branch b")
    case True
    have eq: "(\<lambda>n. (n_ID n, pb_Branch b) = (x, c)) = (\<lambda>n. n_ID n = x)" using True by auto
    show ?thesis
    proof (cases "find (\<lambda>n. n_ID n = x) (batch_nodes (pb_Files b))")
      case None
      then show ?thesis using row True
        by (auto simp: set_rows_in_files promoted_row_def in_file_def batch_paths_of_def split: option.splits if_splits)
    next
      case (Some n)
      have "n_Path n \<in> set (batch_paths_of b)"
        using find_batch_path(2) [OF _ Some] ids by (auto simp: ids_in_place_def batch_paths_of_def)
      then show ?thesis using row True Some
        by (auto simp: set_rows_in_files promoted_row_def written_row_def node_columns_def)
    qed
  qed (simp add: set_rows_in_files)
qed

text \<open>
  What a batch holds against a symbol being dead: a declared edge into it, or an unresolved call
  that refers to it by name.
\<close>

definition batch_calls :: "PromotionBatch \<Rightarrow> string \<Rightarrow> bool" where
  "batch_calls b x \<longleftrightarrow> (\<exists>f \<in> set (pb_Files b).
     (\<exists>e \<in> set (somes (pmf_Edges f)). e_Tgt e = x)
     \<or> (\<exists>uc \<in> set (pmf_UnresolvedCalls f). \<exists>n \<in> set (batch_nodes (pb_Files b)). n_ID n = x \<and> names_callee uc (n_Name n)))"

lemma call_edge_ends: "buildCallEdge uc t = Some e \<Longrightarrow> e_Tgt e = t \<and> e_Src e = uc_CallerID uc"
  by (auto simp: buildCallEdge_def NewEdge_def blank_edge_def WithConfidence_def WithSourceLine_def split: sum.splits if_splits)

lemma entering_edge_new:
  assumes ok: "tables_ok db" and ids: "ids_in_place b (gb_nodes db)"
    and run: "PromotionStore_Promote fault s db b = (db', None, pruned)"
    and f: "f \<in> set (pb_Files b)" and n: "n \<in> set (somes (pmf_Nodes f))"
    and e: "map_of (gb_edges db') (ek, pb_Branch b) = Some e" "er_dst_node_id e = n_ID n"
  shows "written_edge b (gb_nodes db') ek e"
proof (cases "surviving_edge b db ek")
  case None
  then show ?thesis using promote_edges [OF ok run, of ek] e(1) by simp
next
  case (Some e')
  then have "e' = e" using promote_edges [OF ok run, of ek] e(1) by simp
  then have old: "map_of (gb_edges db) (ek, pb_Branch b) = Some e" and clear: "\<not> touched_by b (pmf_Path f) db e"
    using Some f by (auto simp: surviving_edge_def split: option.splits if_splits)
  have "has_node db (n_ID n, pb_Branch b)"
    using tables_okD(5) [OF ok map_of_SomeD [OF old]] e(2) by (simp add: edge_rooted_def)
  then obtain row where row: "map_of (gb_nodes db) (n_ID n, pb_Branch b) = Some row" by (auto simp: has_node_def)
  have "case map_of (gb_nodes db) (n_ID n, pb_Branch b) of None \<Rightarrow> True
      | Some row \<Rightarrow> in_file (pmf_Path f) (pb_Branch b) (pb_RepoID b) (n_ID n, pb_Branch b) row"
    using ids f n unfolding ids_in_place_def by blast
  then have "n_ID n \<in> set (file_node_ids (pmf_Path f) (pb_Branch b) (pb_RepoID b) db)"
    using in_file_node_ids [OF tables_okD(1) [OF ok] map_of_SomeD [OF row]] row by simp
  then show ?thesis using clear e(2) by (simp add: touched_by_def)
qed

lemma entering_edge_named:
  assumes ok: "tables_ok db" and ids: "ids_in_place b (gb_nodes db)"
    and run: "PromotionStore_Promote fault s db b = (db', None, pruned)"
    and n: "n \<in> set (batch_nodes (pb_Files b))"
    and w: "written_edge b (gb_nodes db') ek e" "er_dst_node_id e = n_ID n"
  shows "batch_calls b (n_ID n)"
proof -
  have wf: "gm_wf (gb_nodes db')" using tables_okD(1) integrity.promotion_keeps [OF ok, of fault s b] run by simp
  have named: "\<exists>m \<in> set (batch_nodes (pb_Files b)). n_ID m = n_ID n \<and> names_callee uc (n_Name m)"
    if t: "call_target b (gb_nodes db') uc (n_ID n)" for uc
  proof -
    have "\<exists>m \<in> set (batch_nodes (pb_Files b)). n_ID m = n_ID n \<and> n_Name m = nd_symbol_path row"
      if "((n_ID n, pb_Branch b), row) \<in> set (gb_nodes db')" for row
    proof -
      have "promoted_row b (pb_Files b) (gb_nodes db) (n_ID n, pb_Branch b) = Some row"
        using that gm_get_iff [OF wf] promote_rows [OF ok ids run] by simp
      moreover have "find (\<lambda>m. (n_ID m, pb_Branch b) = (n_ID n, pb_Branch b)) (batch_nodes (pb_Files b)) \<noteq> None"
        using n by (auto simp: find_None_iff)
      ultimately obtain m where "find (\<lambda>m. n_ID m = n_ID n) (batch_nodes (pb_Files b)) = Some m" "nd_symbol_path row = n_Name m"
        by (auto simp: promoted_row_def node_columns_def)
      then show ?thesis using find_SomeD by fastforce
    qed
    then show ?thesis using t unfolding call_target_def by metis
  qed
  show ?thesis using w named call_edge_ends unfolding written_edge_def batch_calls_def by (fastforce simp: batch_edge_row_def)
qed

lemma dead_after_promotion:
  assumes ok: "tables_ok db" and ids: "ids_in_place b (gb_nodes db)"
    and run: "PromotionStore_Promote fault s db b = (db', None, pruned)" and n: "n \<in> set (batch_nodes (pb_Files b))"
  shows "\<exists>refs. DeadNodesInFiles None db' (pb_RepoID b) (pb_Branch b) (batch_paths_of b) = Inr refs
    \<and> (n_ID n \<in> nr_NodeID ` set refs \<longleftrightarrow> calls_into_node db' (n_ID n, pb_Branch b) = [])"
proof -
  let ?rows = "rows_in_files db' (pb_RepoID b) (pb_Branch b) (batch_paths_of b)"
  have "find (\<lambda>m. n_ID m = n_ID n) (batch_nodes (pb_Files b)) \<noteq> None" using n by (auto simp: find_None_iff)
  then obtain row where row: "((n_ID n, pb_Branch b), row) \<in> set ?rows"
    using rows_after_promotion [OF ok ids run] by blast
  have br: "c = pb_Branch b" if "((n_ID n, c), r) \<in> set ?rows" for c r using that rows_after_promotion [OF ok ids run] by blast
  have "batch_paths_of b \<noteq> []" using n by (auto simp: batch_paths_of_def batch_nodes_def)
  moreover have "n_ID n \<in> nr_NodeID ` set (map row_ref (filter (\<lambda>kr. calls_into_node db' (fst kr) = []) ?rows))
      \<longleftrightarrow> calls_into_node db' (n_ID n, pb_Branch b) = []"
    using row br by (force simp: row_ref_def)
  ultimately show ?thesis by (simp add: DeadNodesInFiles_def)
qed

lemma drifted_of_iff:
  "(\<exists>d. drifted_of kr = Some d \<and> dn_NodeID d = x \<and> dn_PrevSig d = old \<and> dn_NewSig d = sig)
    \<longleftrightarrow> fst (fst kr) = x \<and> nd_kind (snd kr) \<in> {''function'', ''method'', ''interface''}
      \<and> nd_prev_signature (snd kr) = Some old \<and> nd_signature (snd kr) = Some sig \<and> old \<noteq> sig"
  by (auto simp: drifted_of_def split: option.splits)

lemma drifted_list:
  assumes "DriftedNodesInFiles None db r b fs = Inr ds"
  shows "ds = somes (map drifted_of (rows_in_files db r b fs))"
proof -
  have "fs = [] \<Longrightarrow> rows_in_files db r b fs = []" by (simp add: rows_in_files_def)
  then show ?thesis using assms by (cases "fs = []") (simp_all add: DriftedNodesInFiles_def)
qed

lemma drifted_rows:
  assumes "DriftedNodesInFiles None db r b fs = Inr ds"
  shows "(\<exists>d \<in> set ds. dn_NodeID d = x \<and> dn_PrevSig d = old \<and> dn_NewSig d = sig)
    \<longleftrightarrow> (\<exists>c row. ((x, c), row) \<in> set (rows_in_files db r b fs) \<and> nd_kind row \<in> {''function'', ''method'', ''interface''}
          \<and> nd_prev_signature row = Some old \<and> nd_signature row = Some sig \<and> old \<noteq> sig)"
proof -
  have "(\<exists>d \<in> set ds. dn_NodeID d = x \<and> dn_PrevSig d = old \<and> dn_NewSig d = sig)
    \<longleftrightarrow> (\<exists>kr \<in> set (rows_in_files db r b fs). \<exists>d. drifted_of kr = Some d \<and> dn_NodeID d = x \<and> dn_PrevSig d = old \<and> dn_NewSig d = sig)"
    unfolding drifted_list [OF assms] by (rule bex_somes_map)
  then show ?thesis unfolding drifted_of_iff by force
qed

section \<open>Properties\<close>

text \<open>
  C17. After a promotion the drift query over the promoted files reports exactly the symbols that
  both have a signature now and had one before, with a different text: the check sees the changes
  of this promotion and nothing older.
\<close>

theorem drift_exact_after_promotion:
  assumes "tables_ok db" and "ids_in_place b (gb_nodes db)"
    and "PromotionStore_Promote fault s db b = (db', None, pruned)"
    and "DriftedNodesInFiles None db' (pb_RepoID b) (pb_Branch b) (batch_paths_of b) = Inr ds"
  shows "(\<exists>d \<in> set ds. dn_NodeID d = x \<and> dn_PrevSig d = old \<and> dn_NewSig d = sig)
    \<longleftrightarrow> (\<exists>n row. find (\<lambda>n. n_ID n = x) (batch_nodes (pb_Files b)) = Some n
          \<and> n_Kind n \<in> {''function'', ''method'', ''interface''} \<and> n_Signature n = Some sig
          \<and> map_of (gb_nodes db) (x, pb_Branch b) = Some row \<and> nd_signature row = Some old \<and> old \<noteq> sig)"
proof -
  let ?rows = "rows_in_files db' (pb_RepoID b) (pb_Branch b) (batch_paths_of b)"
  have "(\<exists>d \<in> set ds. dn_NodeID d = x \<and> dn_PrevSig d = old \<and> dn_NewSig d = sig)
    \<longleftrightarrow> (\<exists>c row. ((x, c), row) \<in> set ?rows \<and> nd_kind row \<in> {''function'', ''method'', ''interface''}
          \<and> nd_prev_signature row = Some old \<and> nd_signature row = Some sig \<and> old \<noteq> sig)"
    using drifted_rows [OF assms(4)] .
  also have "\<dots> \<longleftrightarrow> (\<exists>n. find (\<lambda>n. n_ID n = x) (batch_nodes (pb_Files b)) = Some n
          \<and> nd_kind (written_row b db x n) \<in> {''function'', ''method'', ''interface''}
          \<and> nd_prev_signature (written_row b db x n) = Some old \<and> nd_signature (written_row b db x n) = Some sig \<and> old \<noteq> sig)"
    unfolding rows_after_promotion [OF assms(1-3)] by blast
  also have "\<dots> \<longleftrightarrow> (\<exists>n row. find (\<lambda>n. n_ID n = x) (batch_nodes (pb_Files b)) = Some n
          \<and> n_Kind n \<in> {''function'', ''method'', ''interface''} \<and> n_Signature n = Some sig
          \<and> map_of (gb_nodes db) (x, pb_Branch b) = Some row \<and> nd_signature row = Some old \<and> old \<noteq> sig)"
    unfolding written_row_sel by blast
  finally show ?thesis .
qed

theorem drift_exact_after_promotion_witness:
  "\<exists>db' pruned ds. PromotionStore_Promote (\<lambda>_. None) sample_store sample_tables sample_batch = (db', None, pruned)
    \<and> DriftedNodesInFiles None db' ''r'' ''m'' [''b.go''] = Inr ds
    \<and> (\<exists>d \<in> set ds. dn_NodeID d = ''b'' \<and> dn_PrevSig d = ''func()'' \<and> dn_NewSig d = ''func(int)'')"
proof -
  obtain db' pruned where p: "PromotionStore_Promote (\<lambda>_. None) sample_store sample_tables sample_batch = (db', None, pruned)"
    using sample_promotes .
  have ids: "ids_in_place sample_batch (gb_nodes sample_tables)" by code_simp
  have sc: "pb_RepoID sample_batch = ''r''" "pb_Branch sample_batch = ''m''" "batch_paths_of sample_batch = [''b.go'']"
    by (simp_all add: sample_batch_def batch_paths_of_def)
  obtain ds where ds: "DriftedNodesInFiles None db' ''r'' ''m'' [''b.go''] = Inr ds" by (simp add: DriftedNodesInFiles_def)
  have "find (\<lambda>n. n_ID n = ''b'') (batch_nodes (pb_Files sample_batch)) = Some sample_node"
    "n_Kind sample_node = ''function''" "n_Signature sample_node = Some ''func(int)''"
    "map_of (gb_nodes sample_tables) (''b'', ''m'') = Some (sample_row ''B'' ''b.go'')"
    "nd_signature (sample_row ''B'' ''b.go'') = Some ''func()''"
    by code_simp+
  then have "\<exists>d \<in> set ds. dn_NodeID d = ''b'' \<and> dn_PrevSig d = ''func()'' \<and> dn_NewSig d = ''func(int)''"
    using drift_exact_after_promotion [OF sample_tables_ok ids p, unfolded sc, OF ds, of "''b''" "''func()''" "''func(int)''"]
    by simp
  then show ?thesis using p ds by blast
qed

text \<open>
  C18. After a promotion the dead-code query reports a symbol of a promoted file exactly if no call
  that this batch wrote enters it, whatever calls unchanged files made to it before. So a symbol
  that the batch neither points a declared edge at nor refers to by name in an unresolved call is
  reported as dead: promoting only the callee's file makes a live symbol look dead.
\<close>

theorem promotion_makes_called_symbols_dead:
  assumes ok: "tables_ok db" and ids: "ids_in_place b (gb_nodes db)"
    and run: "PromotionStore_Promote fault s db b = (db', None, pruned)"
    and n: "n \<in> set (batch_nodes (pb_Files b))"
  shows "\<exists>refs. DeadNodesInFiles None db' (pb_RepoID b) (pb_Branch b) (batch_paths_of b) = Inr refs
    \<and> (n_ID n \<in> nr_NodeID ` set refs \<longleftrightarrow>
         (\<forall>ek e. map_of (gb_edges db') (ek, pb_Branch b) = Some e \<and> written_edge b (gb_nodes db') ek e
            \<longrightarrow> \<not> (er_dst_node_id e = n_ID n \<and> er_kind e = ''CALLS'')))
    \<and> (\<not> batch_calls b (n_ID n) \<longrightarrow> n_ID n \<in> nr_NodeID ` set refs)"
proof -
  obtain f where f: "f \<in> set (pb_Files b)" "n \<in> set (somes (pmf_Nodes f))" using n by (auto simp: batch_nodes_def)
  have wf: "gm_wf (gb_edges db')" using tables_okD(2) integrity.promotion_keeps [OF ok, of fault s b] run by simp
  have calls: "calls_into_node db' (n_ID n, pb_Branch b) = [] \<longleftrightarrow>
      (\<forall>ek e. map_of (gb_edges db') (ek, pb_Branch b) = Some e \<longrightarrow> \<not> (er_dst_node_id e = n_ID n \<and> er_kind e = ''CALLS''))"
    by (force simp: calls_into_node_def filter_empty_conv gm_get_iff [OF wf])
  note new = entering_edge_new [OF ok ids run f]
  have "calls_into_node db' (n_ID n, pb_Branch b) = []" if "\<not> batch_calls b (n_ID n)"
    using that entering_edge_named [OF ok ids run n new] unfolding calls by blast
  then show ?thesis using dead_after_promotion [OF ok ids run n] new unfolding calls by blast
qed

theorem promotion_makes_called_symbols_dead_witness:
  "\<exists>db' pruned refs. PromotionStore_Promote (\<lambda>_. None) sample_store sample_tables calling_batch = (db', None, pruned)
    \<and> calls_into_node sample_tables (''b'', ''m'') \<noteq> []
    \<and> DeadNodesInFiles None db' ''r'' ''m'' [''b.go''] = Inr refs \<and> ''b'' \<in> nr_NodeID ` set refs"
proof -
  obtain db' pruned where p: "PromotionStore_Promote (\<lambda>_. None) sample_store sample_tables calling_batch = (db', None, pruned)"
    using calling_promotes .
  have ids: "ids_in_place calling_batch (gb_nodes sample_tables)" by code_simp
  have sc: "pb_RepoID calling_batch = ''r''" "pb_Branch calling_batch = ''m''" "batch_paths_of calling_batch = [''b.go'']"
    by (simp_all add: calling_batch_def sample_batch_def batch_paths_of_def)
  have b: "sample_node \<in> set (batch_nodes (pb_Files calling_batch))" "n_ID sample_node = ''b''"
    by (simp_all add: batch_nodes_def calling_batch_def sample_node_def)
  have quiet: "\<not> batch_calls calling_batch ''b''" by code_simp
  have "calls_into_node sample_tables (''b'', ''m'') \<noteq> []" by code_simp
  then show ?thesis
    using promotion_makes_called_symbols_dead [OF sample_tables_ok ids p b(1)] quiet p unfolding sc b(2) by blast
qed

end
