(* ===== verification/Blanket_Gates.thy ===== *)
theory Blanket_Gates
  imports Graph_Queries
begin

text \<open>
  The gates that judge a change as a whole: breaking changes of the public surface
  (\<open>apigate.go\<close>), net-new exact clones (\<open>clonegate.go\<close>), changed symbols without a test
  (\<open>coveragegate.go\<close>) and net-new secrets and vulnerable dependencies (\<open>securitygate.go\<close>). The
  scanners, the manifest parsers and the reader of a git ref are ports.
\<close>

section \<open>Breaking changes of the public surface\<close>

definition FailBreakingAPIChange :: string where "FailBreakingAPIChange = ''breaking_api_change''"
definition FailRemovedAPISymbol :: string where "FailRemovedAPISymbol = ''removed_api_symbol''"

record APIChange =
  ac_NodeID :: string
  ac_FilePath :: string
  ac_SymbolPath :: string
  ac_Kind :: string
  ac_PrevSig :: string
  ac_NewSig :: string

record APIRemoval =
  rv_NodeID :: string
  rv_FilePath :: string
  rv_SymbolPath :: string
  rv_Kind :: string

record APIVerdict =
  av_Pass :: bool
  av_BreakingChanges :: "APIChange list"
  av_RemovedSymbols :: "APIRemoval list"

definition APIVerdict_Failures :: "APIVerdict \<Rightarrow> string list" where
  "APIVerdict_Failures v =
     (if av_Pass v then []
      else (if av_BreakingChanges v \<noteq> [] then [FailBreakingAPIChange] else [])
           @ (if av_RemovedSymbols v \<noteq> [] then [FailRemovedAPISymbol] else []))"

definition APIVerdict_ExitCode :: "APIVerdict \<Rightarrow> int" where
  "APIVerdict_ExitCode v = (if av_Pass v then 0 else 1)"

definition symbolIdentity :: "string \<Rightarrow> string \<Rightarrow> string" where
  "symbolIdentity filePath name = path_Dir filePath @ [CHR 0x00] @ name"

definition APIGate_Evaluate :: "DriftedNode list \<Rightarrow> ExportedSymbol list \<Rightarrow> ExportedSymbol list \<Rightarrow> APIVerdict" where
  "APIGate_Evaluate drifted baseExported candidateExported =
     (let breaking = sort_key (\<lambda>c. (ac_FilePath c, ac_NodeID c))
            (map (\<lambda>d. \<lparr>ac_NodeID = dn_NodeID d, ac_FilePath = dn_FilePath d, ac_SymbolPath = dn_Name d, ac_Kind = dn_Kind d,
                       ac_PrevSig = dn_PrevSig d, ac_NewSig = dn_NewSig d\<rparr>) (filter dn_Exported drifted));
          candKeys = map (\<lambda>s. symbolIdentity (es_FilePath s) (es_Name s)) candidateExported;
          removed = sort_key (\<lambda>c. (rv_FilePath c, rv_NodeID c))
            (map (\<lambda>s. \<lparr>rv_NodeID = es_NodeID s, rv_FilePath = es_FilePath s, rv_SymbolPath = es_Name s, rv_Kind = es_SymbolKind s\<rparr>)
              (filter (\<lambda>s. symbolIdentity (es_FilePath s) (es_Name s) \<notin> set candKeys) baseExported))
      in \<lparr>av_Pass = (breaking = [] \<and> removed = []), av_BreakingChanges = breaking, av_RemovedSymbols = removed\<rparr>)"

section \<open>Net-new clones\<close>

definition FailClonesUnchecked :: string where "FailClonesUnchecked = ''clones_unchecked''"

definition ExcludedKinds :: "string list" where
  "ExcludedKinds = [''package'', ''chunk'', ''file'', ''module'', ''field'', ''import'']"

record CloneMember =
  cl_NodeID :: string
  cl_FilePath :: string
  cl_SymbolPath :: string

record CloneGroup =
  cn_ContentHash :: string
  cn_Members :: "CloneMember list"

record CloneVerdict =
  co_Pass :: bool
  co_Checked :: bool
  co_NewClones :: "CloneGroup list"

definition CloneVerdict_Failures :: "CloneVerdict \<Rightarrow> string list" where
  "CloneVerdict_Failures v =
     (if co_Pass v then [] else if \<not> co_Checked v then [FailClonesUnchecked] else [''new_clone''])"

definition CloneVerdict_ExitCode :: "CloneVerdict \<Rightarrow> int" where
  "CloneVerdict_ExitCode v = (if co_Pass v then 0 else 1)"

text \<open>The eligible nodes of the overlay, grouped by content hash in the order they are met.\<close>

definition eligible_hash :: "Node \<Rightarrow> string option" where
  "eligible_hash n =
     (case n_ContentHash n of
        None \<Rightarrow> None
      | Some h \<Rightarrow> if n_Kind n \<in> set ExcludedKinds \<or> h = [] then None else Some h)"

definition overlay_nodes :: "Ephemeral \<Rightarrow> Node list" where
  "overlay_nodes eph = concat (map (\<lambda>f. somes (sf_Nodes f)) (overlay_files eph))"

definition overlay_by_hash :: "Ephemeral \<Rightarrow> string \<Rightarrow> CloneMember list" where
  "overlay_by_hash eph h =
     map (\<lambda>n. \<lparr>cl_NodeID = n_ID n, cl_FilePath = n_Path n, cl_SymbolPath = n_Name n\<rparr>)
       (filter (\<lambda>n. eligible_hash n = Some h) (overlay_nodes eph))"

definition overlay_hashes :: "Ephemeral \<Rightarrow> string list" where
  "overlay_hashes eph = dedup (somes (map eligible_hash (overlay_nodes eph)))"

text \<open>The members of a hash after the change, by node identity; a later one replaces an earlier one.\<close>

definition after_members :: "Ephemeral \<Rightarrow> string \<Rightarrow> NodeRef list \<Rightarrow> (string, CloneMember) gomap" where
  "after_members eph h baseNodes =
     foldl (\<lambda>m b. if nr_FilePath b \<in> set (ep_ChangedFiles eph) then m
                  else gm_put (nr_NodeID b) \<lparr>cl_NodeID = nr_NodeID b, cl_FilePath = nr_FilePath b, cl_SymbolPath = nr_Name b\<rparr> m)
       (foldl (\<lambda>m c. gm_put (cl_NodeID c) c m) [] (overlay_by_hash eph h)) baseNodes"

definition sortedMembers :: "(string, CloneMember) gomap \<Rightarrow> CloneMember list" where
  "sortedMembers m = sort_key (\<lambda>c. (cl_FilePath c, cl_NodeID c)) (map snd m)"

definition clone_group ::
  "Ephemeral \<Rightarrow> (string \<Rightarrow> string \<Rightarrow> string \<Rightarrow> string list \<Rightarrow> NodeRef list result) \<Rightarrow> string \<Rightarrow> CloneGroup option result" where
  "clone_group eph lookup h =
     (case lookup (ep_RepoID eph) (ep_Branch eph) h ExcludedKinds of
        Inl e \<Rightarrow> Inl (Wrap ''clonegate: base lookup for %q: %w'' [h] e)
      | Inr baseNodes \<Rightarrow>
          let members = after_members eph h baseNodes
          in Inr (if length members \<ge> 2 \<and> length baseNodes < 2
                  then Some \<lparr>cn_ContentHash = h, cn_Members = sortedMembers members\<rparr> else None))"

definition CloneGate_Evaluate :: "Ephemeral \<Rightarrow> CloneVerdict result" where
  "CloneGate_Evaluate eph =
     (case bg_NodesByContentHash (ep_Base eph) of
        None \<Rightarrow> Inr \<lparr>co_Pass = False, co_Checked = False, co_NewClones = []\<rparr>
      | Some lookup \<Rightarrow>
          bind_r (map_r (clone_group eph lookup) (overlay_hashes eph)) (\<lambda>gs.
            let groups = sort_key cn_ContentHash (somes gs)
            in Inr \<lparr>co_Pass = (groups = []), co_Checked = True, co_NewClones = groups\<rparr>))"

section \<open>Changed symbols without a test\<close>

definition FailUntestedChanged :: string where "FailUntestedChanged = ''untested_changed_symbol''"

record UntestedSymbol =
  us_NodeID :: string
  us_Message :: string

record CoverageVerdict =
  cw_Pass :: bool
  cw_UntestedChanged :: "UntestedSymbol list"

definition CoverageVerdict_Failures :: "CoverageVerdict \<Rightarrow> string list" where
  "CoverageVerdict_Failures v = (if cw_Pass v then [] else [FailUntestedChanged])"

definition CoverageVerdict_ExitCode :: "CoverageVerdict \<Rightarrow> int" where
  "CoverageVerdict_ExitCode v = (if cw_Pass v then 0 else 1)"

definition CoverageGate_Evaluate :: "string list \<Rightarrow> Finding option list \<Rightarrow> CoverageVerdict" where
  "CoverageGate_Evaluate changedNodeIDs untested =
     (let out = sort_key us_NodeID (somes (map (\<lambda>f.
            (case f_NodeID f of
               None \<Rightarrow> None
             | Some x \<Rightarrow> if x \<in> set changedNodeIDs then Some \<lparr>us_NodeID = x, us_Message = f_Message f\<rparr> else None)) (somes untested)))
      in \<lparr>cw_Pass = (out = []), cw_UntestedChanged = out\<rparr>)"

section \<open>Net-new security findings\<close>

definition FailNewSecretLeak :: string where "FailNewSecretLeak = ''new_secret_leak''"
definition FailNewVulnDep :: string where "FailNewVulnDep = ''new_vulnerable_dependency''"
definition FailVulnUnchecked :: string where "FailVulnUnchecked = ''vuln_unchecked''"

record Dependency =
  dq_Ecosystem :: string
  dq_Name :: string
  dq_Version :: string

record SecurityFinding =
  sx_Rule :: string
  sx_FindingID :: string
  sx_Message :: string

record SecurityInput =
  si_RepoID :: string
  si_Branch :: string
  si_BaseRef :: string
  si_CandRef :: string
  si_AddedLines :: "(string, Line list) gomap"
  si_ReadAtRef :: "string \<Rightarrow> string \<Rightarrow> (string \<times> bool) result"

record SecurityVerdict =
  se_Pass :: bool
  se_NewSecretLeaks :: "SecurityFinding list"
  se_NewVulnDeps :: "SecurityFinding list"
  se_VulnApplicable :: bool
  se_VulnChecked :: bool

definition SecurityVerdict_Failures :: "SecurityVerdict \<Rightarrow> string list" where
  "SecurityVerdict_Failures v =
     (if se_Pass v then []
      else (if se_NewSecretLeaks v \<noteq> [] then [FailNewSecretLeak] else [])
           @ (if se_VulnApplicable v \<and> \<not> se_VulnChecked v then [FailVulnUnchecked] else [])
           @ (if se_VulnApplicable v \<and> se_VulnChecked v \<and> se_NewVulnDeps v \<noteq> [] then [FailNewVulnDep] else []))"

definition SecurityVerdict_ExitCode :: "SecurityVerdict \<Rightarrow> int" where
  "SecurityVerdict_ExitCode v = (if se_Pass v then 0 else 1)"

record SecurityGate =
  sg_scanSecrets :: "Input \<Rightarrow> Finding list result"
  sg_scanDeps :: "string \<Rightarrow> string \<Rightarrow> string \<Rightarrow> Dependency list \<Rightarrow> Finding list result"
  sg_readers :: "(string, string \<Rightarrow> Dependency list result) gomap"
  sg_vulnEnabled :: bool

definition toSecurityFinding :: "Finding \<Rightarrow> SecurityFinding" where
  "toSecurityFinding f = \<lparr>sx_Rule = f_Rule f, sx_FindingID = f_FindingID f, sx_Message = f_Message f\<rparr>"

definition sortFindings :: "SecurityFinding list \<Rightarrow> SecurityFinding list" where
  "sortFindings fs = sort_key sx_FindingID fs"

definition scanRef ::
  "SecurityGate \<Rightarrow> SecurityInput \<Rightarrow> string \<Rightarrow> string \<Rightarrow> (string \<Rightarrow> Dependency list result) \<Rightarrow> Finding list result" where
  "scanRef g inp path ref reader =
     bind_r (si_ReadAtRef inp path ref) (\<lambda>(content, present).
       if \<not> present \<or> content = [] then Inr []
       else bind_r (reader content) (sg_scanDeps g (si_RepoID inp) (si_Branch inp) path))"

definition diffManifest ::
  "SecurityGate \<Rightarrow> SecurityInput \<Rightarrow> string \<Rightarrow> (string \<Rightarrow> Dependency list result) \<Rightarrow> (Finding list \<times> Finding list) result" where
  "diffManifest g inp path reader =
     bind_r (scanRef g inp path (si_BaseRef inp) reader) (\<lambda>base.
     bind_r (scanRef g inp path (si_CandRef inp) reader) (\<lambda>cand. Inr (base, cand)))"

text \<open>The loop over the manifests; an error ends it with the dimension unchecked.\<close>

definition new_in_manifest ::
  "SecurityGate \<Rightarrow> SecurityInput \<Rightarrow> string \<times> (string \<Rightarrow> Dependency list result) \<Rightarrow> SecurityFinding list result" where
  "new_in_manifest g inp pr =
     bind_r (diffManifest g inp (fst pr) (snd pr)) (\<lambda>(baseF, candF).
       Inr (map toSecurityFinding (filter (\<lambda>f. f_FindingID f \<notin> f_FindingID ` set baseF) candF)))"

definition SecurityGate_Evaluate :: "SecurityGate \<Rightarrow> SecurityInput \<Rightarrow> SecurityVerdict result" where
  "SecurityGate_Evaluate g inp =
     (case sg_scanSecrets g \<lparr>in_RepoID = si_RepoID inp, in_Branch = si_Branch inp, in_GitSHA = [], in_FilePaths = [],
                             in_AddedLines = si_AddedLines inp\<rparr> of
        Inl e \<Rightarrow> Inl (Wrap ''security-gate: secrets scan: %w'' [] e)
      | Inr secrets \<Rightarrow>
          let leaks = sortFindings (map toSecurityFinding secrets);
              vuln = (if sg_vulnEnabled g then map_r (new_in_manifest g inp) (sg_readers g) else Inr []);
              checked = (sg_vulnEnabled g \<and> is_ok vuln);
              newVulns = sortFindings (case vuln of Inl _ \<Rightarrow> [] | Inr vs \<Rightarrow> concat vs)
          in Inr \<lparr>se_Pass = (leaks = [] \<and> (\<not> sg_vulnEnabled g \<or> (checked \<and> newVulns = []))),
                  se_NewSecretLeaks = leaks, se_NewVulnDeps = newVulns, se_VulnApplicable = sg_vulnEnabled g,
                  se_VulnChecked = checked\<rparr>)"


section \<open>The clone gate over the tables\<close>

definition eligible_rows :: "graph_tables \<Rightarrow> Ephemeral \<Rightarrow> string \<Rightarrow> ((string \<times> string) \<times> node_rec) list" where
  "eligible_rows db eph h =
     filter (\<lambda>(k, row). nd_content_hash row = h \<and> nd_kind row \<notin> set ExcludedKinds) (scoped_rows db (ep_RepoID eph) (ep_Branch eph))"

text \<open>The eligible nodes with a hash after the change: those of the overlay and those of untouched files.\<close>

definition after_ids :: "graph_tables \<Rightarrow> Ephemeral \<Rightarrow> string \<Rightarrow> string set" where
  "after_ids db eph h =
     {n_ID n |n. n \<in> set (overlay_nodes eph) \<and> eligible_hash n = Some h}
     \<union> {fst k |k row. (k, row) \<in> set (eligible_rows db eph h) \<and> nd_file_path row \<notin> set (ep_ChangedFiles eph)}"

lemma foldl_gm_put:
  "gm_wf m \<Longrightarrow> gm_wf (foldl (\<lambda>m c. gm_put (f c) (g c) m) m cs)
     \<and> fst ` set (foldl (\<lambda>m c. gm_put (f c) (g c) m) m cs) = fst ` set m \<union> f ` set cs"
  by (induction cs arbitrary: m) (auto simp: gomap_simps)

lemma foldl_gm_put_unless:
  "gm_wf m \<Longrightarrow> gm_wf (foldl (\<lambda>m c. if Q c then m else gm_put (f c) (g c) m) m cs)
     \<and> fst ` set (foldl (\<lambda>m c. if Q c then m else gm_put (f c) (g c) m) m cs) = fst ` set m \<union> f ` {c \<in> set cs. \<not> Q c}"
  by (induction cs arbitrary: m) (auto simp: gomap_simps)

lemma after_members_keys:
  "gm_wf (after_members eph h (map row_ref (eligible_rows db eph h)))"
  "fst ` set (after_members eph h (map row_ref (eligible_rows db eph h))) = after_ids db eph h"
proof -
  let ?m = "foldl (\<lambda>m c. gm_put (cl_NodeID c) c m) [] (overlay_by_hash eph h)"
  have m: "gm_wf ?m" "fst ` set ?m = cl_NodeID ` set (overlay_by_hash eph h)"
    using foldl_gm_put [of "[]" cl_NodeID "\<lambda>c. c" "overlay_by_hash eph h"] by auto
  note res = foldl_gm_put_unless [OF m(1), of "\<lambda>b. nr_FilePath b \<in> set (ep_ChangedFiles eph)" nr_NodeID
      "\<lambda>b. \<lparr>cl_NodeID = nr_NodeID b, cl_FilePath = nr_FilePath b, cl_SymbolPath = nr_Name b\<rparr>"
      "map row_ref (eligible_rows db eph h)"]
  show "gm_wf (after_members eph h (map row_ref (eligible_rows db eph h)))"
    using res by (simp add: after_members_def)
  have "nr_NodeID ` {c \<in> set (map row_ref (eligible_rows db eph h)). nr_FilePath c \<notin> set (ep_ChangedFiles eph)}
      = {fst k |k row. (k, row) \<in> set (eligible_rows db eph h) \<and> nd_file_path row \<notin> set (ep_ChangedFiles eph)}"
    by (force simp: row_ref_def)
  moreover have "cl_NodeID ` set (overlay_by_hash eph h) = {n_ID n |n. n \<in> set (overlay_nodes eph) \<and> eligible_hash n = Some h}"
    by (force simp: overlay_by_hash_def)
  ultimately show "fst ` set (after_members eph h (map row_ref (eligible_rows db eph h))) = after_ids db eph h"
    using res m(2) by (simp add: after_members_def after_ids_def)
qed

lemma gm_length_card: "gm_wf m \<Longrightarrow> length m = card (fst ` set m)"
  by (metis distinct_card gm_wf_def length_map list.set_map)

definition sql_group :: "graph_tables \<Rightarrow> Ephemeral \<Rightarrow> string \<Rightarrow> CloneGroup option" where
  "sql_group db eph h =
     (if card (after_ids db eph h) \<ge> 2 \<and> length (eligible_rows db eph h) < 2
      then Some \<lparr>cn_ContentHash = h, cn_Members = sortedMembers (after_members eph h (map row_ref (eligible_rows db eph h)))\<rparr>
      else None)"

lemma clone_group_sql:
  assumes "h \<noteq> []"
  shows "clone_group eph (NodesByContentHash None db) h = Inr (sql_group db eph h)"
proof -
  have "NodesByContentHash None db (ep_RepoID eph) (ep_Branch eph) h ExcludedKinds = Inr (map row_ref (eligible_rows db eph h))"
    using assms by (simp add: NodesByContentHash_def eligible_rows_def)
  then show ?thesis
    using gm_length_card [OF after_members_keys(1), of eph h db] after_members_keys(2) [of eph h db]
    by (simp add: clone_group_def Let_def sql_group_def)
qed

text \<open>A hash without a member in the overlay cannot be a net-new group.\<close>

lemma new_group_in_overlay:
  assumes "card (after_ids db eph h) \<ge> 2" and "length (eligible_rows db eph h) < 2"
  shows "h \<in> set (overlay_hashes eph)"
proof (rule ccontr)
  assume "h \<notin> set (overlay_hashes eph)"
  then have "{n_ID n |n. n \<in> set (overlay_nodes eph) \<and> eligible_hash n = Some h} = {}"
    by (auto simp: overlay_hashes_def) (metis image_eqI)
  then have "after_ids db eph h \<subseteq> set (map (\<lambda>(k, row). fst k) (eligible_rows db eph h))"
    by (force simp: after_ids_def)
  then have "card (after_ids db eph h) \<le> length (eligible_rows db eph h)"
    by (metis (no_types, lifting) card_length card_mono dual_order.trans finite_set length_map)
  then show False using assms by simp
qed

section \<open>The public surface after a promotion\<close>

lemma symbolIdentity_eq:
  assumes "CHR 0x00 \<notin> set name" and "CHR 0x00 \<notin> set name'"
  shows "symbolIdentity p name = symbolIdentity p' name' \<longleftrightarrow> path_Dir p = path_Dir p' \<and> name = name'"
proof
  assume "symbolIdentity p name = symbolIdentity p' name'"
  then have "rev name @ CHR 0x00 # rev (path_Dir p) = rev name' @ CHR 0x00 # rev (path_Dir p')"
    by (simp add: symbolIdentity_def) (metis append.assoc append_Cons append_Nil rev_append rev_eq_Cons_iff rev_rev_ident)
  then show "path_Dir p = path_Dir p' \<and> name = name'"
    using split_at_first_unique [of "rev name" "CHR 0x00" "rev (path_Dir p)" "rev name'" "rev (path_Dir p')"] assms by auto
qed (simp add: symbolIdentity_def)

lemma APIGate_passes:
  "av_Pass (APIGate_Evaluate drifted base cand) \<longleftrightarrow>
     (\<forall>d \<in> set drifted. \<not> dn_Exported d)
     \<and> (\<forall>s \<in> set base. \<exists>t \<in> set cand. symbolIdentity (es_FilePath s) (es_Name s) = symbolIdentity (es_FilePath t) (es_Name t))"
  by (auto simp: APIGate_Evaluate_def Let_def sort_key_eq_Nil_iff filter_empty_conv)

text \<open>The nodes of a batch that reach the graph: the first of each identity.\<close>

definition effective :: "PromotionBatch \<Rightarrow> Node \<Rightarrow> bool" where
  "effective b n \<longleftrightarrow> find (\<lambda>m. n_ID m = n_ID n) (batch_nodes (pb_Files b)) = Some n"

lemma bex_rows_after:
  assumes "tables_ok db" and "ids_in_place b (gb_nodes db)"
    and "PromotionStore_Promote fault s db b = (db', None, pruned)"
  shows "(\<exists>kr \<in> set (rows_in_files db' (pb_RepoID b) (pb_Branch b) (batch_paths_of b)). Q kr)
    \<longleftrightarrow> (\<exists>n. effective b n \<and> Q ((n_ID n, pb_Branch b), written_row b db (n_ID n) n))"
proof
  assume "\<exists>kr \<in> set (rows_in_files db' (pb_RepoID b) (pb_Branch b) (batch_paths_of b)). Q kr"
  then obtain x c row where kr: "((x, c), row) \<in> set (rows_in_files db' (pb_RepoID b) (pb_Branch b) (batch_paths_of b))" "Q ((x, c), row)"
    by (metis surj_pair)
  then obtain n where n: "c = pb_Branch b" "find (\<lambda>n. n_ID n = x) (batch_nodes (pb_Files b)) = Some n" "row = written_row b db x n"
    using rows_after_promotion [OF assms] by blast
  have "n_ID n = x" using find_SomeD(2) [OF n(2)] .
  then show "\<exists>n. effective b n \<and> Q ((n_ID n, pb_Branch b), written_row b db (n_ID n) n)"
    using kr(2) n by (auto simp: effective_def)
next
  assume "\<exists>n. effective b n \<and> Q ((n_ID n, pb_Branch b), written_row b db (n_ID n) n)"
  then obtain n where n: "effective b n" "Q ((n_ID n, pb_Branch b), written_row b db (n_ID n) n)" by blast
  then have "((n_ID n, pb_Branch b), written_row b db (n_ID n) n)
      \<in> set (rows_in_files db' (pb_RepoID b) (pb_Branch b) (batch_paths_of b))"
    using rows_after_promotion [OF assms] by (simp add: effective_def)
  then show "\<exists>kr \<in> set (rows_in_files db' (pb_RepoID b) (pb_Branch b) (batch_paths_of b)). Q kr" using n(2) by blast
qed

lemma written_row_surface:
  "nd_file_path (written_row b db x n) = n_Path n" "nd_symbol_path (written_row b db x n) = n_Name n"
  "coalesce_int (nd_exported (written_row b db x n)) \<noteq> 0 \<longleftrightarrow> n_Exported n = Some True"
  "coalesce_int (nd_exported (written_row b db x n)) = 1 \<longleftrightarrow> n_Exported n = Some True"
  by (auto simp: written_row_def node_columns_def nodeExported_def coalesce_int_def split: option.splits)

lemma drifted_of_exported:
  "(\<exists>d. drifted_of kr = Some d \<and> dn_Exported d)
    \<longleftrightarrow> nd_kind (snd kr) \<in> {''function'', ''method'', ''interface''} \<and> coalesce_int (nd_exported (snd kr)) \<noteq> 0
      \<and> (\<exists>old sig. nd_prev_signature (snd kr) = Some old \<and> nd_signature (snd kr) = Some sig \<and> old \<noteq> sig)"
  by (auto simp: drifted_of_def split: option.splits)

lemma drifted_exported:
  assumes prem: "tables_ok db" "ids_in_place b (gb_nodes db)"
    "PromotionStore_Promote fault s db b = (db', None, pruned)"
    and ds: "DriftedNodesInFiles None db' (pb_RepoID b) (pb_Branch b) (batch_paths_of b) = Inr ds"
  shows "(\<exists>d \<in> set ds. dn_Exported d) \<longleftrightarrow> (\<exists>n row old sig. effective b n
    \<and> n_Kind n \<in> {''function'', ''method'', ''interface''} \<and> n_Exported n = Some True \<and> n_Signature n = Some sig
    \<and> map_of (gb_nodes db) (n_ID n, pb_Branch b) = Some row \<and> nd_signature row = Some old \<and> old \<noteq> sig)"
proof -
  have "(\<exists>d \<in> set ds. dn_Exported d)
      \<longleftrightarrow> (\<exists>kr \<in> set (rows_in_files db' (pb_RepoID b) (pb_Branch b) (batch_paths_of b)). \<exists>d. drifted_of kr = Some d \<and> dn_Exported d)"
    unfolding drifted_list [OF ds] by (rule bex_somes_map)
  also have "\<dots> \<longleftrightarrow> (\<exists>n row old sig. effective b n
    \<and> n_Kind n \<in> {''function'', ''method'', ''interface''} \<and> n_Exported n = Some True \<and> n_Signature n = Some sig
    \<and> map_of (gb_nodes db) (n_ID n, pb_Branch b) = Some row \<and> nd_signature row = Some old \<and> old \<noteq> sig)"
    unfolding bex_rows_after [OF prem] drifted_of_exported snd_conv written_row_sel written_row_surface by blast
  finally show ?thesis .
qed

lemma exported_list:
  assumes "ExportedSymbolsInFiles None db r b fs = Inr ex"
  shows "(\<exists>t \<in> set ex. Q (es_FilePath t) (es_Name t))
    \<longleftrightarrow> (\<exists>kr \<in> set (rows_in_files db r b fs). nd_kind (snd kr) \<in> set removable_kinds \<and> coalesce_int (nd_exported (snd kr)) = 1
          \<and> Q (nd_file_path (snd kr)) (nd_symbol_path (snd kr)))"
proof -
  have "fs = [] \<Longrightarrow> rows_in_files db r b fs = []" by (simp add: rows_in_files_def)
  then show ?thesis using assms
    by (cases "fs = []") (auto simp: ExportedSymbolsInFiles_def, force+)
qed

lemma exported_after_promotion:
  assumes prem: "tables_ok db" "ids_in_place b (gb_nodes db)"
    "PromotionStore_Promote fault s db b = (db', None, pruned)"
    and ex: "ExportedSymbolsInFiles None db' (pb_RepoID b) (pb_Branch b) (batch_paths_of b) = Inr ex"
  shows "(\<exists>t \<in> set ex. Q (es_FilePath t) (es_Name t))
    \<longleftrightarrow> (\<exists>n. effective b n \<and> n_Kind n \<in> set removable_kinds \<and> n_Exported n = Some True \<and> Q (n_Path n) (n_Name n))"
  unfolding exported_list [OF ex] bex_rows_after [OF prem] snd_conv written_row_sel written_row_surface by blast

section \<open>Properties\<close>

text \<open>
  C8. Over the tables of the graph the clone gate fails exactly if some content hash, of all
  hashes, has at least two eligible nodes after the change and fewer than two before it: looking
  only at the hashes of the overlay misses none.
\<close>

theorem clone_gate_exact:
  assumes base: "bg_NodesByContentHash (ep_Base eph) = Some (NodesByContentHash None db)"
  shows "\<exists>v. CloneGate_Evaluate eph = Inr v \<and> co_Checked v
    \<and> (co_Pass v \<longleftrightarrow> \<not> (\<exists>h. h \<noteq> [] \<and> card (after_ids db eph h) \<ge> 2 \<and> length (eligible_rows db eph h) < 2))"
proof -
  have ne: "[] \<notin> set (overlay_hashes eph)"
    by (auto simp: overlay_hashes_def eligible_hash_def split: option.splits if_splits)
  let ?gs = "map (sql_group db eph) (overlay_hashes eph)"
  have "clone_group eph (NodesByContentHash None db) h = Inr (sql_group db eph h)" if "h \<in> set (overlay_hashes eph)" for h
    using that ne by (intro clone_group_sql) blast
  then have "map_r (clone_group eph (NodesByContentHash None db)) (overlay_hashes eph) = Inr ?gs" by (rule map_r_eq)
  then have ev: "CloneGate_Evaluate eph = Inr \<lparr>co_Pass = (somes (map (sql_group db eph) (overlay_hashes eph)) = []), co_Checked = True,
      co_NewClones = sort_key cn_ContentHash (somes (map (sql_group db eph) (overlay_hashes eph)))\<rparr>"
    by (simp add: CloneGate_Evaluate_def base bind_r_def Let_def sort_key_eq_Nil_iff)
  have "somes ?gs = [] \<longleftrightarrow> (\<forall>h \<in> set (overlay_hashes eph). sql_group db eph h = None)"
    by (rule somes_map_Nil)
  also have "\<dots> \<longleftrightarrow> \<not> (\<exists>h. h \<noteq> [] \<and> card (after_ids db eph h) \<ge> 2 \<and> length (eligible_rows db eph h) < 2)"
    using ne new_group_in_overlay [of db eph] by (auto simp: sql_group_def)
  finally show ?thesis using ev by simp
qed


text \<open>The dependency findings of a manifest that are new, by identity.\<close>

lemma new_in_manifest_clean:
  "new_in_manifest g inp (path, reader) = Inr [] \<longleftrightarrow>
     (\<exists>base cand. scanRef g inp path (si_BaseRef inp) reader = Inr base \<and> scanRef g inp path (si_CandRef inp) reader = Inr cand
       \<and> f_FindingID ` set cand \<subseteq> f_FindingID ` set base)"
  by (auto simp: new_in_manifest_def diffManifest_def bind_r_Inr filter_empty_conv image_subset_iff)

lemma map_r_all_empty:
  "(\<exists>ys. map_r f xs = Inr ys \<and> concat ys = []) \<longleftrightarrow> (\<forall>x \<in> set xs. f x = Inr [])"
proof
  assume "\<exists>ys. map_r f xs = Inr ys \<and> concat ys = []"
  then obtain ys where "list_all2 (\<lambda>x y. f x = Inr y) xs ys" "\<forall>y \<in> set ys. y = []" by (auto simp: map_r_Inr_iff)
  then show "\<forall>x \<in> set xs. f x = Inr []" by (induction rule: list_all2_induct) auto
next
  assume "\<forall>x \<in> set xs. f x = Inr []"
  then have "map_r f xs = Inr (map (\<lambda>_. []) xs)" by (intro map_r_eq) blast
  then show "\<exists>ys. map_r f xs = Inr ys \<and> concat ys = []" by auto
qed

lemma sortFindings_Nil [simp]: "sortFindings fs = [] \<longleftrightarrow> fs = []"
  by (simp add: sortFindings_def sort_key_eq_Nil_iff)

text \<open>
  C9. The security gate passes exactly if the scan of the added lines finds no secret and, when a
  vulnerability source is configured, every manifest was read and scanned at both refs and every
  finding of the candidate has its identity at base. A manifest that cannot be scanned fails it,
  and a failing verdict names at least one failure.
\<close>

theorem security_gate_exact:
  assumes "SecurityGate_Evaluate g inp = Inr v"
  shows "(se_Pass v \<longleftrightarrow>
      sg_scanSecrets g \<lparr>in_RepoID = si_RepoID inp, in_Branch = si_Branch inp, in_GitSHA = [], in_FilePaths = [],
        in_AddedLines = si_AddedLines inp\<rparr> = Inr []
      \<and> (sg_vulnEnabled g \<longrightarrow> (\<forall>(path, reader) \<in> set (sg_readers g). \<exists>base cand.
            scanRef g inp path (si_BaseRef inp) reader = Inr base \<and> scanRef g inp path (si_CandRef inp) reader = Inr cand
            \<and> f_FindingID ` set cand \<subseteq> f_FindingID ` set base)))
    \<and> (se_Pass v \<longleftrightarrow> SecurityVerdict_Failures v = []) \<and> (se_Pass v \<longleftrightarrow> SecurityVerdict_ExitCode v = 0)"
proof -
  let ?inp = "\<lparr>in_RepoID = si_RepoID inp, in_Branch = si_Branch inp, in_GitSHA = [], in_FilePaths = [], in_AddedLines = si_AddedLines inp\<rparr>"
  obtain secrets where sec: "sg_scanSecrets g ?inp = Inr secrets"
    using assms by (auto simp: SecurityGate_Evaluate_def split: sum.splits)
  have clean: "(\<forall>(path, reader) \<in> set (sg_readers g). \<exists>base cand.
        scanRef g inp path (si_BaseRef inp) reader = Inr base \<and> scanRef g inp path (si_CandRef inp) reader = Inr cand
        \<and> f_FindingID ` set cand \<subseteq> f_FindingID ` set base)
      \<longleftrightarrow> (\<exists>ys. map_r (new_in_manifest g inp) (sg_readers g) = Inr ys \<and> concat ys = [])"
    unfolding map_r_all_empty by (rule ball_cong) (auto simp: new_in_manifest_clean)
  have v: "se_Pass v \<longleftrightarrow> secrets = [] \<and> (sg_vulnEnabled g \<longrightarrow> se_VulnChecked v \<and> se_NewVulnDeps v = [])"
    "se_NewSecretLeaks v = [] \<longleftrightarrow> secrets = []" "se_VulnApplicable v = sg_vulnEnabled g"
    "sg_vulnEnabled g \<Longrightarrow> se_VulnChecked v \<and> se_NewVulnDeps v = []
      \<longleftrightarrow> (\<exists>ys. map_r (new_in_manifest g inp) (sg_readers g) = Inr ys \<and> concat ys = [])"
    using assms by (auto simp: SecurityGate_Evaluate_def sec Let_def is_ok_iff)
  have "SecurityVerdict_Failures v = [] \<longleftrightarrow> se_Pass v"
    using v(1,2,3) by (auto simp: SecurityVerdict_Failures_def)
  then show ?thesis
    unfolding clean using v sec by (auto simp: SecurityVerdict_ExitCode_def)
qed

text \<open>
  C7. Over a graph whose candidate is promoted onto the base, the API gate passes exactly if no
  exported function, method or interface that reaches the graph had another signature at base, and
  every exported symbol of the changed files at base is still exported by some node of the
  candidate under the same name in the same directory: moving a symbol between the files of one
  package breaks nothing.
\<close>

theorem api_gate_exact:
  assumes prem: "tables_ok db" "ids_in_place b (gb_nodes db)"
    "PromotionStore_Promote fault s db b = (db', None, pruned)"
    and ds: "DriftedNodesInFiles None db' (pb_RepoID b) (pb_Branch b) (batch_paths_of b) = Inr ds"
    and cand: "ExportedSymbolsInFiles None db' (pb_RepoID b) (pb_Branch b) (batch_paths_of b) = Inr cand"
    and base: "ExportedSymbolsInFiles None db (pb_RepoID b) (pb_Branch b) (batch_paths_of b) = Inr base"
    and nul: "\<forall>n. effective b n \<longrightarrow> CHR 0x00 \<notin> set (n_Name n)"
      "\<forall>kr \<in> set (rows_in_files db (pb_RepoID b) (pb_Branch b) (batch_paths_of b)). CHR 0x00 \<notin> set (nd_symbol_path (snd kr))"
  shows "av_Pass (APIGate_Evaluate ds base cand) \<longleftrightarrow>
      \<not> (\<exists>n row old sig. effective b n \<and> n_Kind n \<in> {''function'', ''method'', ''interface''} \<and> n_Exported n = Some True
          \<and> n_Signature n = Some sig \<and> map_of (gb_nodes db) (n_ID n, pb_Branch b) = Some row
          \<and> nd_signature row = Some old \<and> old \<noteq> sig)
      \<and> \<not> (\<exists>kr \<in> set (rows_in_files db (pb_RepoID b) (pb_Branch b) (batch_paths_of b)).
          nd_kind (snd kr) \<in> set removable_kinds \<and> coalesce_int (nd_exported (snd kr)) = 1
          \<and> \<not> (\<exists>n. effective b n \<and> n_Kind n \<in> set removable_kinds \<and> n_Exported n = Some True
                \<and> path_Dir (nd_file_path (snd kr)) = path_Dir (n_Path n) \<and> nd_symbol_path (snd kr) = n_Name n))"
proof -
  let ?kept = "\<lambda>p x. \<exists>n. effective b n \<and> n_Kind n \<in> set removable_kinds \<and> n_Exported n = Some True
                \<and> symbolIdentity p x = symbolIdentity (n_Path n) (n_Name n)"
  have kept: "(\<exists>t \<in> set cand. symbolIdentity p x = symbolIdentity (es_FilePath t) (es_Name t)) \<longleftrightarrow> ?kept p x" for p x
    by (rule exported_after_promotion [OF prem cand])
  have same: "?kept (nd_file_path (snd kr)) (nd_symbol_path (snd kr)) \<longleftrightarrow>
      (\<exists>n. effective b n \<and> n_Kind n \<in> set removable_kinds \<and> n_Exported n = Some True
         \<and> path_Dir (nd_file_path (snd kr)) = path_Dir (n_Path n) \<and> nd_symbol_path (snd kr) = n_Name n)"
    if "kr \<in> set (rows_in_files db (pb_RepoID b) (pb_Branch b) (batch_paths_of b))" for kr
    using that nul symbolIdentity_eq by meson
  have "(\<exists>s \<in> set base. \<not> ?kept (es_FilePath s) (es_Name s)) \<longleftrightarrow>
      (\<exists>kr \<in> set (rows_in_files db (pb_RepoID b) (pb_Branch b) (batch_paths_of b)).
          nd_kind (snd kr) \<in> set removable_kinds \<and> coalesce_int (nd_exported (snd kr)) = 1
          \<and> \<not> ?kept (nd_file_path (snd kr)) (nd_symbol_path (snd kr)))"
    by (rule exported_list [OF base])
  then have removed: "(\<exists>s \<in> set base. \<not> ?kept (es_FilePath s) (es_Name s)) \<longleftrightarrow>
      (\<exists>kr \<in> set (rows_in_files db (pb_RepoID b) (pb_Branch b) (batch_paths_of b)).
          nd_kind (snd kr) \<in> set removable_kinds \<and> coalesce_int (nd_exported (snd kr)) = 1
          \<and> \<not> (\<exists>n. effective b n \<and> n_Kind n \<in> set removable_kinds \<and> n_Exported n = Some True
                \<and> path_Dir (nd_file_path (snd kr)) = path_Dir (n_Path n) \<and> nd_symbol_path (snd kr) = n_Name n))"
    using same by (simp cong: bex_cong)
  have "av_Pass (APIGate_Evaluate ds base cand) \<longleftrightarrow>
      \<not> (\<exists>d \<in> set ds. dn_Exported d) \<and> \<not> (\<exists>s \<in> set base. \<not> ?kept (es_FilePath s) (es_Name s))"
    unfolding APIGate_passes kept by blast
  then show ?thesis unfolding drifted_exported [OF prem ds] removed .
qed

theorem api_gate_exact_witness:
  "\<exists>db' pruned ds base cand. PromotionStore_Promote (\<lambda>_. None) sample_store sample_tables sample_batch = (db', None, pruned)
    \<and> DriftedNodesInFiles None db' ''r'' ''m'' [''b.go''] = Inr ds
    \<and> ExportedSymbolsInFiles None sample_tables ''r'' ''m'' [''b.go''] = Inr base
    \<and> ExportedSymbolsInFiles None db' ''r'' ''m'' [''b.go''] = Inr cand
    \<and> \<not> av_Pass (APIGate_Evaluate ds base cand)"
proof -
  obtain db' pruned where p: "PromotionStore_Promote (\<lambda>_. None) sample_store sample_tables sample_batch = (db', None, pruned)"
    using sample_promotes .
  have ids: "ids_in_place sample_batch (gb_nodes sample_tables)" by code_simp
  have sc: "pb_RepoID sample_batch = ''r''" "pb_Branch sample_batch = ''m''" "batch_paths_of sample_batch = [''b.go'']"
    by (simp_all add: sample_batch_def batch_paths_of_def)
  obtain ds cand base where q: "DriftedNodesInFiles None db' ''r'' ''m'' [''b.go''] = Inr ds"
    "ExportedSymbolsInFiles None db' ''r'' ''m'' [''b.go''] = Inr cand"
    "ExportedSymbolsInFiles None sample_tables ''r'' ''m'' [''b.go''] = Inr base"
    by (simp add: DriftedNodesInFiles_def ExportedSymbolsInFiles_def)
  have eff: "effective sample_batch n \<longleftrightarrow> n = sample_node" for n
    by (auto simp: effective_def sample_batch_def batch_nodes_def sample_node_def)
  have nul: "\<forall>n. effective sample_batch n \<longrightarrow> CHR 0x00 \<notin> set (n_Name n)"
    by (simp add: eff sample_node_def)
  have nul': "\<forall>kr \<in> set (rows_in_files sample_tables ''r'' ''m'' [''b.go'']). CHR 0x00 \<notin> set (nd_symbol_path (snd kr))"
    by code_simp
  have chg: "n_Kind sample_node = ''function''" "n_Exported sample_node = Some True" "n_Signature sample_node = Some ''func(int)''"
    "map_of (gb_nodes sample_tables) (n_ID sample_node, ''m'') = Some (sample_row ''B'' ''b.go'')"
    "nd_signature (sample_row ''B'' ''b.go'') = Some ''func()''"
    by code_simp+
  have "\<not> av_Pass (APIGate_Evaluate ds base cand)"
    using api_gate_exact [OF sample_tables_ok ids p, unfolded sc, OF q(1,2,3) nul nul'] chg eff by auto
  then show ?thesis using p q by blast
qed

text \<open>
  A changed symbol fails the coverage gate exactly if an untested finding is anchored on it.
\<close>

lemma coverage_gate_exact:
  "cw_Pass (CoverageGate_Evaluate changed untested) \<longleftrightarrow>
     \<not> (\<exists>f x. Some f \<in> set untested \<and> f_NodeID f = Some x \<and> x \<in> set changed)"
  "cw_Pass (CoverageGate_Evaluate changed untested) \<longleftrightarrow> CoverageVerdict_Failures (CoverageGate_Evaluate changed untested) = []"
  by (auto simp: CoverageGate_Evaluate_def CoverageVerdict_Failures_def Let_def sort_key_eq_Nil_iff somes_map_Nil split: option.splits if_splits)

text \<open>A candidate file with two functions of one body, and a manifest whose dependency becomes vulnerable.\<close>

definition cloned_file :: File where
  "cloned_file = empty_file\<lparr>sf_Nodes := [Some (sample_node\<lparr>n_ID := ''x'', n_ContentHash := Some ''h''\<rparr>),
                                        Some (sample_node\<lparr>n_ID := ''y'', n_ContentHash := Some ''h''\<rparr>)]\<rparr>"

definition cloned_candidate :: Ephemeral where
  "cloned_candidate = \<lparr>ep_Base = sql_base [] dead_lookup (Some (NodesByContentHash None sample_tables)),
     ep_Overlay = fst (Stage NewArea ''r'' ''m'' ''n.go'' cloned_file []), ep_RepoID = ''r'', ep_Branch = ''m'',
     ep_ChangedFiles = [''n.go'']\<rparr>"

theorem clone_gate_exact_witness:
  "\<exists>v h. CloneGate_Evaluate cloned_candidate = Inr v \<and> \<not> co_Pass v \<and> card (after_ids sample_tables cloned_candidate h) \<ge> 2
    \<and> length (eligible_rows sample_tables cloned_candidate h) < 2"
proof -
  have base: "bg_NodesByContentHash (ep_Base cloned_candidate) = Some (NodesByContentHash None sample_tables)"
    by (simp add: cloned_candidate_def sql_base_def)
  have "map_sum id co_Pass (CloneGate_Evaluate cloned_candidate) = Inr False" by code_simp
  then show ?thesis using clone_gate_exact [OF base] by auto
qed

definition pinning_gate :: SecurityGate where
  "pinning_gate = \<lparr>sg_scanSecrets = (\<lambda>_. Inr []),
     sg_scanDeps = (\<lambda>_ _ _ deps. Inr (if \<exists>d \<in> set deps. dq_Version d = ''v2'' then [dead_finding_of None] else [])),
     sg_readers = [(''go.mod'', \<lambda>content. Inr [\<lparr>dq_Ecosystem = ''Go'', dq_Name = ''p'', dq_Version = content\<rparr>])],
     sg_vulnEnabled = True\<rparr>"

definition pinning_input :: SecurityInput where
  "pinning_input = \<lparr>si_RepoID = ''r'', si_Branch = ''m'', si_BaseRef = ''v1'', si_CandRef = ''v2'', si_AddedLines = [],
     si_ReadAtRef = (\<lambda>_ ref. Inr (ref, True))\<rparr>"

theorem security_gate_exact_witness:
  "\<exists>v. SecurityGate_Evaluate pinning_gate pinning_input = Inr v \<and> \<not> se_Pass v \<and> SecurityVerdict_Failures v \<noteq> []"
proof -
  have "map_sum id se_Pass (SecurityGate_Evaluate pinning_gate pinning_input) = Inr False" by code_simp
  then obtain v where "SecurityGate_Evaluate pinning_gate pinning_input = Inr v" "\<not> se_Pass v"
    by (auto simp: map_sum_def split: sum.splits)
  then show ?thesis using security_gate_exact by blast
qed

end
