(* ===== verification/Union_Find.thy ===== *)
theory Union_Find
  imports Prelude
begin

text \<open>
  The disjoint sets of \<open>application/duplicates/duplicates.go\<close>: a map of parents with path
  compression, whose \<open>find\<close> also inserts. The recursion of \<open>find\<close> follows the parents, so it is a
  \<open>partial_function\<close> and that it returns is a theorem. The locale \<open>disjoint_sets\<close> is what the
  clustering relies on; the sets that a sequence of unions makes are the connected components.
\<close>

section \<open>Operations\<close>

type_synonym 'a unionFind = "'a \<rightharpoonup> 'a"

definition newUnionFind :: "'a unionFind" where
  "newUnionFind = Map.empty"

partial_function (option) uf_find :: "'a unionFind \<Rightarrow> 'a \<Rightarrow> ('a unionFind \<times> 'a) option" where
  "uf_find u x =
     (case u x of
        None \<Rightarrow> Some (u(x \<mapsto> x), x)
      | Some p \<Rightarrow> if p \<noteq> x then Option.bind (uf_find u p) (\<lambda>(u', r). Some (u'(x \<mapsto> r), r)) else Some (u, p))"

definition uf_union :: "'a unionFind \<Rightarrow> 'a \<Rightarrow> 'a \<Rightarrow> 'a unionFind option" where
  "uf_union u a b =
     Option.bind (uf_find u a) (\<lambda>(u1, ra).
     Option.bind (uf_find u1 b) (\<lambda>(u2, rb).
       Some (if ra \<noteq> rb then u2(ra \<mapsto> rb) else u2)))"

declare uf_find.simps [code]

section \<open>Roots\<close>

text \<open>An element that was never inserted is its own root.\<close>

inductive root_of :: "'a unionFind \<Rightarrow> 'a \<Rightarrow> 'a \<Rightarrow> bool" for u where
  fresh: "u x = None \<Longrightarrow> root_of u x x"
| top: "u x = Some x \<Longrightarrow> root_of u x x"
| up: "u x = Some p \<Longrightarrow> p \<noteq> x \<Longrightarrow> root_of u p r \<Longrightarrow> root_of u x r"

inductive_cases root_ofE: "root_of u x r"

lemma root_of_unique: "root_of u x r \<Longrightarrow> root_of u x s \<Longrightarrow> r = s"
  by (induction rule: root_of.induct) (auto elim: root_ofE)

lemma root_of_root: "root_of u x r \<Longrightarrow> root_of u r r"
  by (induction rule: root_of.induct) (auto intro: root_of.intros)

lemma root_parent: "root_of u r r \<longleftrightarrow> u r = None \<or> u r = Some r"
proof
  assume "root_of u r r"
  then have "x = r \<Longrightarrow> u r = None \<or> u r = Some r" if "root_of u x r" for x
    using that by (induction rule: root_of.induct) (auto elim: root_ofE)
  then show "u r = None \<or> u r = Some r" using \<open>root_of u r r\<close> by blast
qed (auto intro: root_of.intros)

text \<open>Pointing an element straight at its root changes no root.\<close>

lemma compress_root:
  assumes r: "root_of u x r"
  shows "root_of (u(x \<mapsto> r)) y s \<longleftrightarrow> root_of u y s"
proof -
  define v where "v = u(x \<mapsto> r)"
  have v: "v x = Some r" "\<And>z. z \<noteq> x \<Longrightarrow> v z = u z" by (simp_all add: v_def)
  have rr: "root_of v r r"
    using root_of_root [OF r] v by (cases "r = x") (auto simp: root_parent)
  have x: "root_of v x r" using rr v(1) by (cases "r = x") (auto intro: root_of.intros)
  have to: "root_of u y s \<Longrightarrow> root_of v y s" for y s
  proof (induction rule: root_of.induct)
    case (up z p t)
    have "root_of u z t" using root_of.up up(1-3) .
    then have "z = x \<Longrightarrow> t = r" using root_of_unique [OF _ r] by simp
    then show ?case using up x v(2) by (cases "z = x") (auto intro: root_of.up)
  qed (metis r root_of.fresh root_of.top root_of_unique v(2) x)+
  have from_v: "root_of v y s \<Longrightarrow> root_of u y s" for y s
  proof (induction rule: root_of.induct)
    case (up z p t)
    have "z = x \<Longrightarrow> t = r" using up v(1) root_of_root [OF r] root_of_unique by auto
    then show ?case using up r v(2) by (cases "z = x") (auto intro: root_of.up)
  qed (metis option.inject option.distinct(1) r root_of.fresh root_of.top v)+
  show ?thesis using to from_v unfolding v_def by blast
qed

text \<open>Linking one root below another moves exactly the elements of the first.\<close>

lemma link_root:
  assumes a: "root_of u ra ra" and b: "root_of u rb rb" and ne: "ra \<noteq> rb" and y: "root_of u y s"
  shows "root_of (u(ra \<mapsto> rb)) y (if s = ra then rb else s)"
proof -
  define v where "v = u(ra \<mapsto> rb)"
  have v: "v ra = Some rb" "\<And>z. z \<noteq> ra \<Longrightarrow> v z = u z" by (simp_all add: v_def)
  have "root_of v rb rb" using b ne v by (auto simp: root_parent)
  then have ra: "root_of v ra rb" using ne v(1) by (auto intro: root_of.intros)
  have "root_of v y (if s = ra then rb else s)" using y
  proof (induction rule: root_of.induct)
    case (fresh z)
    then show ?case using ra v(2) by (cases "z = ra") (auto intro: root_of.fresh)
  next
    case (top z)
    then show ?case using ra v(2) by (cases "z = ra") (auto intro: root_of.top)
  next
    case (up z p t)
    have "z \<noteq> ra" using up a by (auto simp: root_parent)
    then show ?case using up v(2) by (auto intro: root_of.up)
  qed
  then show ?thesis by (simp add: v_def)
qed

section \<open>The promise of the operations\<close>

definition uf_wf :: "'a unionFind \<Rightarrow> bool" where
  "uf_wf u \<longleftrightarrow> (\<forall>x. \<exists>r. root_of u x r)"

definition rootOf :: "'a unionFind \<Rightarrow> 'a \<Rightarrow> 'a" where
  "rootOf u x = (THE r. root_of u x r)"

lemma rootOf_eq: "root_of u x r \<Longrightarrow> rootOf u x = r"
  unfolding rootOf_def by (blast intro: the_equality root_of_unique)

lemma rootOf_root: "uf_wf u \<Longrightarrow> root_of u x (rootOf u x)"
  using rootOf_eq unfolding uf_wf_def by metis

lemma uf_find_root:
  "root_of u x r \<Longrightarrow> \<exists>u'. uf_find u x = Some (u', r) \<and> root_of u' = root_of u"
proof (induction rule: root_of.induct)
  case (fresh x)
  have "root_of (u(x \<mapsto> x)) = root_of u"
    using compress_root [of u x x] root_of.fresh [of u x] fresh by blast
  then show ?case using fresh by (simp add: uf_find.simps)
next
  case (top x)
  then show ?case by (simp add: uf_find.simps)
next
  case (up x p r)
  then obtain u' where u': "uf_find u p = Some (u', r)" "root_of u' = root_of u" by blast
  have "root_of u x r" using up by (auto intro: root_of.up)
  then have "root_of (u'(x \<mapsto> r)) = root_of u"
    using compress_root [of u' x r] u'(2) by (simp add: fun_eq_iff)
  then show ?case using up(1,2) u'(1) by (subst uf_find.simps) simp
qed

lemma uf_find_correct:
  assumes "uf_wf u"
  shows "\<exists>u'. uf_find u x = Some (u', rootOf u x) \<and> uf_wf u' \<and> rootOf u' = rootOf u"
  using uf_find_root [OF rootOf_root [OF assms, of x]] assms by (auto simp: uf_wf_def rootOf_def fun_eq_iff)

lemma uf_union_correct:
  assumes "uf_wf u"
  shows "\<exists>u'. uf_union u a b = Some u' \<and> uf_wf u'
    \<and> (\<forall>y. rootOf u' y = (if rootOf u y = rootOf u a then rootOf u b else rootOf u y))"
proof -
  obtain u1 where u1: "uf_find u a = Some (u1, rootOf u a)" "uf_wf u1" "rootOf u1 = rootOf u"
    using uf_find_correct [OF assms] by blast
  obtain u2 where u2: "uf_find u1 b = Some (u2, rootOf u b)" "uf_wf u2" "rootOf u2 = rootOf u"
    using uf_find_correct [OF u1(2)] u1(3) by metis
  let ?ra = "rootOf u a" and ?rb = "rootOf u b"
  show ?thesis
  proof (cases "?ra = ?rb")
    case True
    then show ?thesis using u1 u2 by (auto simp: uf_union_def)
  next
    case False
    have roots: "root_of u2 ?ra ?ra" "root_of u2 ?rb ?rb"
      using root_of_root [OF rootOf_root [OF u2(2)]] u2(3) by metis+
    have link: "root_of (u2(?ra \<mapsto> ?rb)) y (if rootOf u y = ?ra then ?rb else rootOf u y)" for y
      using link_root [OF roots False rootOf_root [OF u2(2), of y]] unfolding u2(3) .
    have "uf_wf (u2(?ra \<mapsto> ?rb))" unfolding uf_wf_def using link by blast
    moreover have "\<forall>y. rootOf (u2(?ra \<mapsto> ?rb)) y = (if rootOf u y = ?ra then ?rb else rootOf u y)"
      using rootOf_eq [OF link] by blast
    ultimately show ?thesis using False u1 u2 by (simp add: uf_union_def)
  qed
qed

section \<open>Components\<close>

text \<open>A sequence of unions, one per pair.\<close>

fun union_all :: "('u \<Rightarrow> 'a \<Rightarrow> 'a \<Rightarrow> 'u option) \<Rightarrow> ('a \<times> 'a) list \<Rightarrow> 'u \<Rightarrow> 'u option" where
  "union_all unite [] u = Some u"
| "union_all unite ((a, b) # es) u = Option.bind (unite u a b) (union_all unite es)"

definition undirected :: "('a \<times> 'a) list \<Rightarrow> ('a \<times> 'a) set" where
  "undirected es = set es \<union> (set es)\<inverse>"

abbreviation connected_by :: "('a \<times> 'a) list \<Rightarrow> ('a \<times> 'a) set" where
  "connected_by es \<equiv> (undirected es)\<^sup>*"

lemma connected_sym: "(x, y) \<in> connected_by es \<Longrightarrow> (y, x) \<in> connected_by es"
  by (rule symD [OF sym_rtrancl]) (auto simp: undirected_def sym_Un_converse)

lemma connected_Cons:
  "(x, y) \<in> connected_by ((a, b) # es) \<longleftrightarrow>
     (x, y) \<in> connected_by es \<or> (x, a) \<in> connected_by es \<and> (b, y) \<in> connected_by es
     \<or> (x, b) \<in> connected_by es \<and> (a, y) \<in> connected_by es"
proof -
  have "undirected ((a, b) # es) = insert (a, b) (insert (b, a) (undirected es))"
    by (auto simp: undirected_def)
  then show ?thesis using connected_sym [of _ _ es]
    by (auto simp: rtrancl_insert) (meson rtrancl_trans)+
qed

locale disjoint_sets =
  fixes find :: "'u \<Rightarrow> 'a \<Rightarrow> ('u \<times> 'a) option"
    and unite :: "'u \<Rightarrow> 'a \<Rightarrow> 'a \<Rightarrow> 'u option"
    and root :: "'u \<Rightarrow> 'a \<Rightarrow> 'a"
    and wf :: "'u \<Rightarrow> bool"
    and new :: 'u
  assumes wf_new: "wf new" and root_new: "root new x = x"
    and find: "wf u \<Longrightarrow> \<exists>u'. find u x = Some (u', root u x) \<and> wf u' \<and> root u' = root u"
    and unite: "wf u \<Longrightarrow> \<exists>u'. unite u a b = Some u' \<and> wf u'
      \<and> (\<forall>y. root u' y = (if root u y = root u a then root u b else root u y))"
begin

lemma find_find: "wf u \<Longrightarrow> \<exists>u' u''. find u x = Some (u', root u x) \<and> find u' x = Some (u'', root u x) \<and> wf u'' \<and> root u'' = root u"
  using find by metis

lemma union_all_step:
  assumes "wf u" and "\<And>x y. root u x = root u y \<longleftrightarrow> (x, y) \<in> connected_by es0"
  shows "\<exists>u'. union_all unite es u = Some u' \<and> wf u'
    \<and> (\<forall>x y. root u' x = root u' y \<longleftrightarrow> (x, y) \<in> connected_by (rev es @ es0))"
  using assms
proof (induction es arbitrary: u es0)
  case (Cons e es)
  obtain a b where e: "e = (a, b)" by (cases e)
  obtain u1 where u1: "unite u a b = Some u1" "wf u1"
    "\<And>y. root u1 y = (if root u y = root u a then root u b else root u y)"
    using unite [OF Cons.prems(1), of a b] by blast
  have "root u1 x = root u1 y \<longleftrightarrow> (x, y) \<in> connected_by ((a, b) # es0)" for x y
    unfolding u1(3) connected_Cons Cons.prems(2) [symmetric] by auto
  from Cons.IH [OF u1(2) this] show ?case using u1(1) e by simp
qed auto

theorem union_all_components:
  "\<exists>u. union_all unite es new = Some u \<and> wf u \<and> (\<forall>x y. root u x = root u y \<longleftrightarrow> (x, y) \<in> connected_by es)"
proof -
  have "undirected (rev es) = undirected es" by (simp add: undirected_def)
  moreover have "root new x = root new y \<longleftrightarrow> (x, y) \<in> connected_by []" for x y
    by (simp add: root_new undirected_def)
  ultimately show ?thesis using union_all_step [OF wf_new, of "[]" es] by simp
qed

end

interpretation uf: disjoint_sets uf_find uf_union rootOf uf_wf newUnionFind
proof unfold_locales
  have new: "root_of newUnionFind x x" for x :: 'a by (simp add: newUnionFind_def root_of.fresh)
  show "uf_wf (newUnionFind :: 'a unionFind)" unfolding uf_wf_def using new by blast
  show "rootOf newUnionFind x = x" for x :: 'a using new by (rule rootOf_eq)
qed (rule uf_find_correct uf_union_correct, assumption)+

end
