(* ===== verification/Duplicates.thy ===== *)
theory Duplicates
  imports Blanket_Gates Union_Find
begin

text \<open>
  Duplicate code (\<open>application/duplicates/duplicates.go\<close>, \<open>clusters.go\<close>) over the store of
  \<open>infrastructure/sqlite/clone_repo.go\<close>: exact and structural groups by hash, near duplicates as the
  connected components of the similarity edges, and the clusters that combine the tiers.

  A score is a \<open>float32\<close>, kept as its bit pattern and only compared, through an order-preserving
  reading as an integer (its value times $2^{149}$); SQLite stores a NaN as NULL, so none is read
  back. \<open>sort.Slice\<close> is a stable sort here; no theorem depends on the order of equal keys.
\<close>

section \<open>Scores\<close>

definition f32_key :: "32 word \<Rightarrow> int" where
  "f32_key w =
     (let e = nat (uint w div 2 ^ 23 mod 2 ^ 8); m = uint w mod 2 ^ 23;
          v = (if e = 0 then m else (2 ^ 23 + m) * 2 ^ (e - 1))
      in if uint w \<ge> 2 ^ 31 then - v else v)"

definition f32_nan :: "32 word \<Rightarrow> bool" where
  "f32_nan w \<longleftrightarrow> uint w mod 2 ^ 31 > 0xFF * 2 ^ 23"

section \<open>Data\<close>

record ClonedNode =
  cd_ContentHash :: string
  cd_StructuralHash :: string
  cd_RepoID :: string
  cd_NodeID :: string
  cd_SymbolPath :: string
  cd_FilePath :: string
  cd_Kind :: string
  cd_LineStart :: int
  cd_LineEnd :: int

record CloneMember =
  dm_NodeID :: string
  dm_RepoID :: string
  dm_SymbolPath :: string
  dm_FilePath :: string
  dm_Kind :: string
  dm_LineStart :: int
  dm_LineEnd :: int
  dm_ContentHash :: string

record CloneGroup =
  dq_ContentHash :: string
  dq_Size :: nat
  dq_Members :: "CloneMember list"

record CloneQuery =
  cq_RepoID :: string
  cq_Branch :: string
  cq_PathPrefix :: string

record SimilarEdge =
  sm_Src :: CloneMember
  sm_Dst :: CloneMember
  sm_Score :: "32 word"

record NearCluster =
  nc_Size :: nat
  nc_MinScore :: "32 word"
  nc_MaxScore :: "32 word"
  nc_Members :: "CloneMember list"

record CloneStore =
  cs_ClonedNodes :: "CloneQuery \<Rightarrow> string list \<Rightarrow> ClonedNode list result"
  cs_StructuralNodes :: "CloneQuery \<Rightarrow> string list \<Rightarrow> ClonedNode list result"

type_synonym NearStore = "string \<Rightarrow> string \<Rightarrow> 32 word \<Rightarrow> string list \<Rightarrow> SimilarEdge list result"

section \<open>The store\<close>

definition clone_scope :: "graph_tables \<Rightarrow> CloneQuery \<Rightarrow> string list \<Rightarrow> ((string \<times> string) \<times> node_rec) list" where
  "clone_scope db q excludeKinds =
     filter (\<lambda>(k, row). snd k = cq_Branch q \<and> (cq_RepoID q = [] \<or> nd_repo_id row = cq_RepoID q)
       \<and> (cq_PathPrefix q = [] \<or> sql_like (cq_PathPrefix q @ ''%'') (nd_file_path row))
       \<and> nd_kind row \<notin> set excludeKinds) (gb_nodes db)"

definition cloned_node :: "string \<Rightarrow> (string \<times> string) \<times> node_rec \<Rightarrow> ClonedNode" where
  "cloned_node sh kr =
     \<lparr>cd_ContentHash = nd_content_hash (snd kr), cd_StructuralHash = sh, cd_RepoID = nd_repo_id (snd kr),
      cd_NodeID = fst (fst kr), cd_SymbolPath = nd_symbol_path (snd kr), cd_FilePath = nd_file_path (snd kr),
      cd_Kind = nd_kind (snd kr), cd_LineStart = coalesce_int (nd_line_start (snd kr)),
      cd_LineEnd = coalesce_int (nd_line_end (snd kr))\<rparr>"

definition ClonedNodes :: "err option \<Rightarrow> graph_tables \<Rightarrow> CloneQuery \<Rightarrow> string list \<Rightarrow> ClonedNode list result" where
  "ClonedNodes fault db q excludeKinds =
     (case fault of
        Some e \<Rightarrow> Inl (Wrap ''clone_repo: query: %w'' [] e)
      | None \<Rightarrow>
          let rows = filter (\<lambda>(k, row). nd_content_hash row \<noteq> []) (clone_scope db q excludeKinds)
          in Inr (map (cloned_node [])
               (filter (\<lambda>(k, row). length (filter (\<lambda>(k', row'). nd_content_hash row' = nd_content_hash row) rows) \<ge> 2) rows)))"

definition StructuralNodes :: "err option \<Rightarrow> graph_tables \<Rightarrow> CloneQuery \<Rightarrow> string list \<Rightarrow> ClonedNode list result" where
  "StructuralNodes fault db q excludeKinds =
     (case fault of
        Some e \<Rightarrow> Inl (Wrap ''clone_repo: structural query: %w'' [] e)
      | None \<Rightarrow>
          let rows = filter (\<lambda>(k, row). nd_structural_hash row \<noteq> None) (clone_scope db q excludeKinds)
          in Inr (map (\<lambda>kr. cloned_node (coalesce_str (nd_structural_hash (snd kr))) kr)
               (filter (\<lambda>(k, row). length (filter (\<lambda>(k', row'). nd_structural_hash row' = nd_structural_hash row) rows) \<ge> 2) rows)))"

definition row_member :: "(string \<times> string) \<times> node_rec \<Rightarrow> CloneMember" where
  "row_member kr =
     \<lparr>dm_NodeID = fst (fst kr), dm_RepoID = nd_repo_id (snd kr), dm_SymbolPath = nd_symbol_path (snd kr),
      dm_FilePath = nd_file_path (snd kr), dm_Kind = nd_kind (snd kr), dm_LineStart = coalesce_int (nd_line_start (snd kr)),
      dm_LineEnd = coalesce_int (nd_line_end (snd kr)), dm_ContentHash = []\<rparr>"

text \<open>The joined rows of an edge: its ends on the branch of the edge, if both are present and not excluded.\<close>

definition similar_edge ::
  "graph_tables \<Rightarrow> 32 word \<Rightarrow> string list \<Rightarrow> (string \<times> string) \<times> edge_rec \<Rightarrow> SimilarEdge option" where
  "similar_edge db minScore excludeKinds ke =
     (let b = snd (fst ke); e = snd ke
      in case (map_of (gb_nodes db) (er_src_node_id e, b), map_of (gb_nodes db) (er_dst_node_id e, b), ex_score e) of
           (Some s, Some d, Some score) \<Rightarrow>
             if f32_key score \<ge> f32_key minScore \<and> nd_kind s \<notin> set excludeKinds \<and> nd_kind d \<notin> set excludeKinds
             then Some \<lparr>sm_Src = row_member ((er_src_node_id e, b), s), sm_Dst = row_member ((er_dst_node_id e, b), d),
                        sm_Score = score\<rparr>
             else None
         | _ \<Rightarrow> None)"

definition SimilarEdges :: "err option \<Rightarrow> graph_tables \<Rightarrow> NearStore" where
  "SimilarEdges fault db repoID branch minScore excludeKinds =
     (case fault of
        Some e \<Rightarrow> Inl (Wrap ''clone_repo: similar edges query: %w'' [] e)
      | None \<Rightarrow>
          Inr (somes (map (similar_edge db minScore excludeKinds)
            (filter (\<lambda>(k, e). er_repo_id e = repoID \<and> snd k = branch \<and> er_kind e = ''SIMILAR_TO'') (gb_edges db)))))"

definition CloneRepo :: "err option \<Rightarrow> graph_tables \<Rightarrow> CloneStore" where
  "CloneRepo fault db = \<lparr>cs_ClonedNodes = ClonedNodes fault db, cs_StructuralNodes = StructuralNodes fault db\<rparr>"

section \<open>Thresholds\<close>

definition DefaultNearThreshold :: "32 word" where "DefaultNearThreshold = 0x3F2E147B"

definition calibratedNearThreshold :: "(string \<times> 32 word) list" where
  "calibratedNearThreshold =
     [(''model2vec(potion-code-16M)'', 0x3F2E147B), (''nomic-embed-text'', 0x3F59999A), (''veska-static-v2'', 0x3F333333)]"

definition NearThresholdFor :: "string \<Rightarrow> 32 word" where
  "NearThresholdFor modelID =
     (case map_of calibratedNearThreshold modelID of
        Some v \<Rightarrow> v
      | None \<Rightarrow>
          let base = takeWhile (\<lambda>c. c \<noteq> CHR '':'') modelID
          in if CHR '':'' \<in> set modelID \<and> base \<noteq> []
             then (case map_of calibratedNearThreshold base of Some v \<Rightarrow> v | None \<Rightarrow> DefaultNearThreshold)
             else DefaultNearThreshold)"

section \<open>Groups by hash\<close>

definition member_of :: "ClonedNode \<Rightarrow> CloneMember" where
  "member_of r =
     \<lparr>dm_NodeID = cd_NodeID r, dm_RepoID = cd_RepoID r, dm_SymbolPath = cd_SymbolPath r, dm_FilePath = cd_FilePath r,
      dm_Kind = cd_Kind r, dm_LineStart = cd_LineStart r, dm_LineEnd = cd_LineEnd r, dm_ContentHash = cd_ContentHash r\<rparr>"

definition by_location :: "CloneMember list \<Rightarrow> CloneMember list" where
  "by_location = sort_key (\<lambda>m. (dm_FilePath m, dm_LineStart m))"

definition hash_step ::
  "(ClonedNode \<Rightarrow> string) \<Rightarrow> (string \<rightharpoonup> CloneMember list) \<times> string list \<Rightarrow> ClonedNode
    \<Rightarrow> (string \<rightharpoonup> CloneMember list) \<times> string list" where
  "hash_step keyOf s r =
     (case s of (byHash, order) \<Rightarrow>
        let k = keyOf r
        in case byHash k of
             None \<Rightarrow> (byHash(k \<mapsto> [member_of r]), order @ [k])
           | Some ms \<Rightarrow> (byHash(k \<mapsto> ms @ [member_of r]), order))"

definition hash_group :: "(string \<rightharpoonup> CloneMember list) \<Rightarrow> string \<Rightarrow> CloneGroup option" where
  "hash_group byHash h =
     (let members = (case byHash h of None \<Rightarrow> [] | Some ms \<Rightarrow> ms)
      in if length members < 2 then None
         else Some \<lparr>dq_ContentHash = h, dq_Size = length members, dq_Members = by_location members\<rparr>)"

definition groupByHash :: "ClonedNode list \<Rightarrow> (ClonedNode \<Rightarrow> string) \<Rightarrow> CloneGroup list" where
  "groupByHash rows keyOf =
     (case foldl (hash_step keyOf) (Map.empty, []) rows of
        (byHash, order) \<Rightarrow>
          sort_key (\<lambda>g. (- int (dq_Size g), dq_ContentHash g)) (somes (map (hash_group byHash) order)))"

section \<open>Clusters of similar nodes\<close>

record component_acc =
  cp_ids :: "string list"
  cp_minScore :: "32 word"
  cp_maxScore :: "32 word"

definition put_ends :: "(string \<rightharpoonup> CloneMember) \<Rightarrow> SimilarEdge \<Rightarrow> (string \<rightharpoonup> CloneMember)" where
  "put_ends members e = members(dm_NodeID (sm_Src e) \<mapsto> sm_Src e, dm_NodeID (sm_Dst e) \<mapsto> sm_Dst e)"

fun cluster_loop :: "SimilarEdge list \<Rightarrow> (string \<rightharpoonup> CloneMember) \<Rightarrow> string unionFind \<Rightarrow> ((string \<rightharpoonup> CloneMember) \<times> string unionFind) option" where
  "cluster_loop [] members u = Some (members, u)"
| "cluster_loop (e # es) members u =
     Option.bind (uf_union u (dm_NodeID (sm_Src e)) (dm_NodeID (sm_Dst e)))
       (cluster_loop es (put_ends members e))"

definition widen :: "32 word \<Rightarrow> component_acc \<Rightarrow> component_acc" where
  "widen score c =
     c\<lparr>cp_minScore := (if f32_key score < f32_key (cp_minScore c) then score else cp_minScore c),
       cp_maxScore := (if f32_key score > f32_key (cp_maxScore c) then score else cp_maxScore c)\<rparr>"

definition note_id :: "string \<Rightarrow> string set \<times> component_acc \<Rightarrow> string set \<times> component_acc" where
  "note_id x s = (case s of (seen, c) \<Rightarrow> if x \<in> seen then (seen, c) else (insert x seen, c\<lparr>cp_ids := cp_ids c @ [x]\<rparr>))"

definition put_edge ::
  "string \<Rightarrow> component_acc \<Rightarrow> SimilarEdge \<Rightarrow> (string, component_acc) gomap \<Rightarrow> string set
    \<Rightarrow> (string, component_acc) gomap \<times> string set" where
  "put_edge root c e byRoot seen =
     (case note_id (dm_NodeID (sm_Dst e)) (note_id (dm_NodeID (sm_Src e)) (seen, widen (sm_Score e) c)) of
        (seen', c') \<Rightarrow> (gm_put root c' byRoot, seen'))"

fun aggregate_loop ::
  "SimilarEdge list \<Rightarrow> string unionFind \<Rightarrow> (string, component_acc) gomap \<Rightarrow> string set \<Rightarrow> (string, component_acc) gomap option" where
  "aggregate_loop [] u byRoot seen = Some byRoot"
| "aggregate_loop (e # es) u byRoot seen =
     Option.bind (uf_find u (dm_NodeID (sm_Src e))) (\<lambda>(u1, r).
       case map_of byRoot r of
         Some c \<Rightarrow> (case put_edge r c e byRoot seen of (byRoot', seen') \<Rightarrow> aggregate_loop es u1 byRoot' seen')
       | None \<Rightarrow>
           Option.bind (uf_find u1 (dm_NodeID (sm_Src e))) (\<lambda>(u2, r2).
             case put_edge r2 \<lparr>cp_ids = [], cp_minScore = sm_Score e, cp_maxScore = sm_Score e\<rparr> e byRoot seen of
               (byRoot', seen') \<Rightarrow> aggregate_loop es u2 byRoot' seen'))"

definition aggregateComponents :: "string unionFind \<Rightarrow> SimilarEdge list \<Rightarrow> (string, component_acc) gomap option" where
  "aggregateComponents u edges = aggregate_loop edges u [] {}"

definition zero_member :: CloneMember where
  "zero_member = \<lparr>dm_NodeID = [], dm_RepoID = [], dm_SymbolPath = [], dm_FilePath = [], dm_Kind = [],
     dm_LineStart = 0, dm_LineEnd = 0, dm_ContentHash = []\<rparr>"

definition near_cluster :: "(string \<rightharpoonup> CloneMember) \<Rightarrow> component_acc \<Rightarrow> NearCluster" where
  "near_cluster members c =
     (let cm = by_location (map (\<lambda>x. case members x of Some m \<Rightarrow> m | None \<Rightarrow> zero_member) (cp_ids c))
      in \<lparr>nc_Size = length cm, nc_MinScore = cp_minScore c, nc_MaxScore = cp_maxScore c, nc_Members = cm\<rparr>)"

text \<open>The id of the first member; every component has one.\<close>

definition first_id :: "CloneMember list \<Rightarrow> string" where
  "first_id ms = (case ms of [] \<Rightarrow> [] | m # _ \<Rightarrow> dm_NodeID m)"

definition buildClusters :: "(string, component_acc) gomap \<Rightarrow> (string \<rightharpoonup> CloneMember) \<Rightarrow> NearCluster list" where
  "buildClusters byRoot members =
     sort_key (\<lambda>c. (- int (nc_Size c), - f32_key (nc_MinScore c), first_id (nc_Members c)))
       (map (\<lambda>(r, c). near_cluster members c) byRoot)"

definition clusterEdges :: "SimilarEdge list \<Rightarrow> NearCluster list option" where
  "clusterEdges edges =
     Option.bind (cluster_loop edges Map.empty newUnionFind) (\<lambda>(members, u).
     Option.bind (aggregateComponents u edges) (\<lambda>byRoot.
       Some (buildClusters byRoot members)))"

section \<open>The finder\<close>

record Finder =
  fn_clones :: CloneStore
  fn_near :: NearStore
  fn_embedderID :: string

definition ErrMissingDependency_duplicates :: err where
  "ErrMissingDependency_duplicates = Errs ''duplicates: missing required dependency''"

definition NewFinder :: "CloneStore option \<Rightarrow> NearStore option \<Rightarrow> string \<Rightarrow> Finder result" where
  "NewFinder clones near embedderID =
     (case clones of
        None \<Rightarrow> Inl (Wrap ''duplicates.NewFinder: clone store is nil: %w'' [] ErrMissingDependency_duplicates)
      | Some c \<Rightarrow>
          (case near of
             None \<Rightarrow> Inl (Wrap ''duplicates.NewFinder: near store is nil: %w'' [] ErrMissingDependency_duplicates)
           | Some n \<Rightarrow> Inr \<lparr>fn_clones = c, fn_near = n, fn_embedderID = embedderID\<rparr>))"

definition ExactClones :: "Finder \<Rightarrow> string \<Rightarrow> string \<Rightarrow> CloneGroup list result" where
  "ExactClones f repoID branch =
     (case cs_ClonedNodes (fn_clones f) \<lparr>cq_RepoID = repoID, cq_Branch = branch, cq_PathPrefix = []\<rparr> ExcludedKinds of
        Inl e \<Rightarrow> Inl (Wrap ''duplicates.ExactClones: %w'' [] e)
      | Inr rows \<Rightarrow> Inr (groupByHash rows cd_ContentHash))"

definition StructuralClones :: "Finder \<Rightarrow> string \<Rightarrow> string \<Rightarrow> CloneGroup list result" where
  "StructuralClones f repoID branch =
     (case cs_StructuralNodes (fn_clones f) \<lparr>cq_RepoID = repoID, cq_Branch = branch, cq_PathPrefix = []\<rparr> ExcludedKinds of
        Inl e \<Rightarrow> Inl (Wrap ''duplicates.StructuralClones: %w'' [] e)
      | Inr rows \<Rightarrow> Inr (groupByHash rows cd_StructuralHash))"

text \<open>The outer option is the recursion of \<open>find\<close>: \<open>None\<close> would be a call that never returns.\<close>

definition NearDuplicates :: "Finder \<Rightarrow> string \<Rightarrow> string \<Rightarrow> 32 word \<Rightarrow> NearCluster list result option" where
  "NearDuplicates f repoID branch minScore =
     (let minScore = (if \<not> f32_nan minScore \<and> f32_key minScore \<le> 0 then NearThresholdFor (fn_embedderID f) else minScore)
      in case fn_near f repoID branch minScore ExcludedKinds of
           Inl e \<Rightarrow> Some (Inl (Wrap ''duplicates.NearDuplicates: %w'' [] e))
         | Inr edges \<Rightarrow> map_option Inr (clusterEdges edges))"

section \<open>Tiers\<close>

definition TierExact :: string where "TierExact = ''exact''"
definition TierStructural :: string where "TierStructural = ''structural''"
definition TierNear :: string where "TierNear = ''near''"

definition tierRank :: "string \<Rightarrow> nat" where
  "tierRank t = (case map_of [(TierExact, 0), (TierStructural, 1), (TierNear, 2)] t of None \<Rightarrow> 0 | Some i \<Rightarrow> i)"

record Cluster =
  cc_Tier :: string
  cc_Members :: "CloneMember list"
  cc_Size :: nat
  cc_Score :: "32 word"
  cc_CrossRepo :: bool

record ClusterOptions =
  oc_RepoID :: string
  oc_Branch :: string
  oc_AllRepos :: bool
  oc_PathPrefix :: string
  oc_Tiers :: "string list"
  oc_MinScore :: "32 word"

definition tierFilter :: "string list \<Rightarrow> string \<Rightarrow> bool" where
  "tierFilter tiers t = (if tiers = [] then t \<in> {TierExact, TierStructural, TierNear} else t \<in> set tiers)"

definition uniformContentHash :: "CloneMember list \<Rightarrow> bool" where
  "uniformContentHash members =
     (case members of [] \<Rightarrow> False | m # ms \<Rightarrow> list_all (\<lambda>x. dm_ContentHash x = dm_ContentHash m) ms)"

definition spansRepos :: "CloneMember list \<Rightarrow> bool" where
  "spansRepos members = (case members of [] \<Rightarrow> False | m # ms \<Rightarrow> list_ex (\<lambda>x. dm_RepoID x \<noteq> dm_RepoID m) ms)"

definition hash_cluster :: "CloneGroup \<Rightarrow> Cluster" where
  "hash_cluster g =
     \<lparr>cc_Tier = (if uniformContentHash (dq_Members g) then TierExact else TierStructural), cc_Members = dq_Members g,
      cc_Size = dq_Size g, cc_Score = 0, cc_CrossRepo = spansRepos (dq_Members g)\<rparr>"

definition near_tier :: "string set \<Rightarrow> NearCluster \<Rightarrow> Cluster option" where
  "near_tier claimed nc =
     (let kept = filter (\<lambda>m. dm_NodeID m \<notin> claimed) (nc_Members nc)
      in if length kept < 2 then None
         else Some \<lparr>cc_Tier = TierNear, cc_Members = kept, cc_Size = length kept, cc_Score = nc_MinScore nc,
                    cc_CrossRepo = spansRepos kept\<rparr>)"

definition rank_clusters :: "Cluster list \<Rightarrow> Cluster list" where
  "rank_clusters = sort_key (\<lambda>c. (tierRank (cc_Tier c), - int (cc_Size c), first_id (cc_Members c)))"

definition Clusters :: "Finder \<Rightarrow> ClusterOptions \<Rightarrow> Cluster list result option" where
  "Clusters f opts =
     (let want = tierFilter (oc_Tiers opts);
          q = \<lparr>cq_RepoID = (if oc_AllRepos opts then [] else oc_RepoID opts), cq_Branch = oc_Branch opts,
               cq_PathPrefix = oc_PathPrefix opts\<rparr>
      in case cs_StructuralNodes (fn_clones f) q ExcludedKinds of
           Inl e \<Rightarrow> Some (Inl (Wrap ''duplicates.Clusters: %w'' [] e))
         | Inr rows \<Rightarrow>
             let groups = groupByHash rows cd_StructuralHash;
                 claimed = dm_NodeID ` set (concat (map dq_Members groups));
                 out = filter (\<lambda>c. want (cc_Tier c)) (map hash_cluster groups)
             in if want TierNear \<and> \<not> oc_AllRepos opts
                then (case NearDuplicates f (oc_RepoID opts) (oc_Branch opts) (oc_MinScore opts) of
                        None \<Rightarrow> None
                      | Some (Inl e) \<Rightarrow> Some (Inl (Wrap ''duplicates.Clusters: %w'' [] e))
                      | Some (Inr nears) \<Rightarrow> Some (Inr (rank_clusters (out @ somes (map (near_tier claimed) nears)))))
                else Some (Inr (rank_clusters out)))"

section \<open>Groups by hash are the hashes met twice\<close>

lemma dedup_from_snoc:
  "dedup_from seen (xs @ [x]) = (if x \<in> set xs \<union> set seen then dedup_from seen xs else dedup_from seen xs @ [x])"
  by (induction seen xs rule: dedup_from.induct) auto

lemma dedup_snoc: "dedup (xs @ [x]) = (if x \<in> set xs then dedup xs else dedup xs @ [x])"
  by (simp add: dedup_def dedup_from_snoc)

lemma hash_steps:
  "foldl (hash_step keyOf) (Map.empty, []) rows =
    (\<lambda>h. let ms = map member_of (filter (\<lambda>r. keyOf r = h) rows) in if ms = [] then None else Some ms,
     dedup (map keyOf rows))"
proof (induction rows rule: rev_induct)
  case (snoc r rows)
  have d: "dedup (map keyOf (rows @ [r])) = (if keyOf r \<in> keyOf ` set rows then dedup (map keyOf rows) else dedup (map keyOf rows) @ [keyOf r])"
    by (simp add: dedup_snoc)
  have "filter (\<lambda>x. keyOf x = keyOf r) rows = [] \<longleftrightarrow> keyOf r \<notin> keyOf ` set rows"
    by (auto simp: filter_empty_conv image_iff)
  then show ?case using snoc d by (auto simp: hash_step_def Let_def fun_eq_iff)
qed (simp add: dedup_def)


definition rows_with :: "(ClonedNode \<Rightarrow> string) \<Rightarrow> ClonedNode list \<Rightarrow> string \<Rightarrow> ClonedNode list" where
  "rows_with keyOf rows h = filter (\<lambda>r. keyOf r = h) rows"

lemma somes_if: "somes (map (\<lambda>x. if P x then Some (f x) else None) xs) = map f (filter P xs)"
  by (induction xs) auto

lemma groupByHash_eq:
  "groupByHash rows keyOf = sort_key (\<lambda>g. (- int (dq_Size g), dq_ContentHash g))
     (map (\<lambda>h. \<lparr>dq_ContentHash = h, dq_Size = length (rows_with keyOf rows h),
                 dq_Members = by_location (map member_of (rows_with keyOf rows h))\<rparr>)
       (filter (\<lambda>h. length (rows_with keyOf rows h) \<ge> 2) (dedup (map keyOf rows))))"
proof -
  define bh where "bh = (\<lambda>h. let ms = map member_of (rows_with keyOf rows h) in if ms = [] then None else Some ms)"
  have "hash_group bh = (\<lambda>h. if length (rows_with keyOf rows h) \<ge> 2
         then Some \<lparr>dq_ContentHash = h, dq_Size = length (rows_with keyOf rows h),
                    dq_Members = by_location (map member_of (rows_with keyOf rows h))\<rparr> else None)"
    by (simp add: hash_group_def Let_def bh_def fun_eq_iff)
  moreover have "foldl (hash_step keyOf) (Map.empty, []) rows = (bh, dedup (map keyOf rows))"
    by (simp only: hash_steps bh_def rows_with_def)
  ultimately show ?thesis by (simp add: groupByHash_def somes_if)
qed

lemma set_by_location [simp]: "set (by_location ms) = set ms" "length (by_location ms) = length ms"
  by (simp_all add: by_location_def)

lemma mset_concat_map: "mset (concat (map f xs)) = (\<Sum>x \<in># mset xs. mset (f x))"
  by (induction xs) auto

lemma distinct_concat_sort_key:
  "distinct (concat (map f (sort_key k xs))) \<longleftrightarrow> distinct (concat (map f xs))"
  by (rule mset_eq_imp_distinct_iff) (simp add: mset_concat_map)

lemma distinct_by_location: "distinct (map f (by_location ms)) \<longleftrightarrow> distinct (map f ms)"
  using distinct_concat_sort_key [of "\<lambda>m. [f m]"] by (simp add: by_location_def concat_map_singleton)

lemma distinct_concat_keys:
  assumes "distinct hs" and "\<And>h. h \<in> set hs \<Longrightarrow> distinct (g h)"
    and "\<And>h h' x. h \<in> set hs \<Longrightarrow> h' \<in> set hs \<Longrightarrow> x \<in> set (g h) \<Longrightarrow> x \<in> set (g h') \<Longrightarrow> h = h'"
  shows "distinct (concat (map g hs))"
  using assms
proof (induction hs)
  case (Cons h hs)
  have "set (g h) \<inter> set (g h') = {}" if h': "h' \<in> set hs" for h'
  proof (rule ccontr)
    assume "set (g h) \<inter> set (g h') \<noteq> {}"
    then obtain x where "x \<in> set (g h)" "x \<in> set (g h')" by blast
    then have "h = h'" using h' Cons.prems(3) [of h h' x] by simp
    then show False using h' Cons.prems(1) by simp
  qed
  moreover have "distinct (concat (map g hs))" using Cons by simp
  ultimately show ?case using Cons.prems(2) by auto
qed simp

lemma distinct_map_eq: "distinct (map f rows) \<Longrightarrow> r \<in> set rows \<Longrightarrow> r' \<in> set rows \<Longrightarrow> f r = f r' \<Longrightarrow> r = r'"
  by (metis distinct_map inj_onD)

text \<open>A node is in one group at most.\<close>

lemma groupByHash_distinct:
  assumes "distinct (map cd_NodeID rows)"
  shows "distinct (concat (map (\<lambda>g. map dm_NodeID (dq_Members g)) (groupByHash rows keyOf)))"
proof -
  have id: "dm_NodeID (member_of r) = cd_NodeID r" for r by (simp add: member_of_def)
  let ?g = "\<lambda>h. map dm_NodeID (by_location (map member_of (rows_with keyOf rows h)))"
  have "distinct (?g h)" for h
    using assms by (simp add: distinct_by_location o_def id rows_with_def distinct_map_filter)
  moreover have "h = h'" if x: "x \<in> set (?g h)" "x \<in> set (?g h')" for h h' x
  proof -
    obtain r r' where "r \<in> set rows" "keyOf r = h" "r' \<in> set rows" "keyOf r' = h'" "cd_NodeID r = cd_NodeID r'"
      using x by (auto simp: rows_with_def id)
    then show ?thesis using distinct_map_eq [OF assms, of r r'] by simp
  qed
  ultimately have "distinct (concat (map ?g hs))" if "distinct hs" for hs
    using distinct_concat_keys [OF that, of ?g] by blast
  then show ?thesis by (simp add: groupByHash_eq distinct_concat_sort_key o_def)
qed

lemma groupByHash_in:
  "g \<in> set (groupByHash rows keyOf) \<longleftrightarrow>
     (\<exists>h. length (rows_with keyOf rows h) \<ge> 2 \<and> g = \<lparr>dq_ContentHash = h, dq_Size = length (rows_with keyOf rows h),
        dq_Members = by_location (map member_of (rows_with keyOf rows h))\<rparr>)"
proof -
  have "length (rows_with keyOf rows h) \<ge> 2 \<Longrightarrow> h \<in> keyOf ` set rows" for h
    by (cases "rows_with keyOf rows h") (auto simp: rows_with_def filter_eq_Cons_iff)
  then show ?thesis by (auto simp: groupByHash_eq)
qed

section \<open>Clusters are the connected components\<close>

definition edge_ends :: "SimilarEdge \<Rightarrow> string \<times> string" where
  "edge_ends e = (dm_NodeID (sm_Src e), dm_NodeID (sm_Dst e))"

definition ends_of :: "SimilarEdge list \<Rightarrow> string set" where
  "ends_of es = fst ` edge_ends ` set es \<union> snd ` edge_ends ` set es"

lemma ends_of_simps [simp]:
  "ends_of [] = {}" "ends_of (es @ [e]) = ends_of es \<union> {dm_NodeID (sm_Src e), dm_NodeID (sm_Dst e)}"
  by (auto simp: ends_of_def edge_ends_def)

lemma cluster_loop_eq:
  "cluster_loop es members u = map_option (Pair (foldl put_ends members es)) (union_all uf_union (map edge_ends es) u)"
proof (induction es arbitrary: members u)
  case (Cons e es)
  then show ?case by (cases "uf_union u (dm_NodeID (sm_Src e)) (dm_NodeID (sm_Dst e))") (simp_all add: edge_ends_def)
qed simp

lemma put_ends_dom: "dom (put_ends m e) = insert (dm_NodeID (sm_Src e)) (insert (dm_NodeID (sm_Dst e)) (dom m))"
  by (auto simp: put_ends_def)

lemma put_ends_id: "put_ends m e x = Some c \<Longrightarrow> m x = Some c \<or> dm_NodeID c = x"
  by (auto simp: put_ends_def split: if_splits)

lemma members_dom: "dom (foldl put_ends Map.empty es) = ends_of es"
  by (induction es rule: rev_induct) (auto simp: put_ends_dom)

lemma members_id: "foldl put_ends Map.empty es x = Some m \<Longrightarrow> dm_NodeID m = x"
  by (induction es rule: rev_induct) (auto dest: put_ends_id)

text \<open>The aggregation once the roots are known.\<close>

definition agg_step ::
  "(string \<Rightarrow> string) \<Rightarrow> (string, component_acc) gomap \<times> string set \<Rightarrow> SimilarEdge \<Rightarrow> (string, component_acc) gomap \<times> string set" where
  "agg_step \<rho> s e =
     (let r = \<rho> (dm_NodeID (sm_Src e));
          c = (case map_of (fst s) r of Some c \<Rightarrow> c | None \<Rightarrow> \<lparr>cp_ids = [], cp_minScore = sm_Score e, cp_maxScore = sm_Score e\<rparr>)
      in put_edge r c e (fst s) (snd s))"

lemma aggregate_loop_eq:
  assumes "uf_wf u"
  shows "aggregate_loop es u byRoot seen = Some (fst (foldl (agg_step (rootOf u)) (byRoot, seen) es))"
  using assms
proof (induction es arbitrary: u byRoot seen)
  case (Cons e es)
  obtain u1 u2 where f: "uf_find u (dm_NodeID (sm_Src e)) = Some (u1, rootOf u (dm_NodeID (sm_Src e)))"
    "uf_find u1 (dm_NodeID (sm_Src e)) = Some (u2, rootOf u (dm_NodeID (sm_Src e)))" "uf_wf u2" "rootOf u2 = rootOf u"
    using uf.find_find [OF Cons.prems] by blast
  have u1: "uf_wf u1" "rootOf u1 = rootOf u" using uf.find [OF Cons.prems, of "dm_NodeID (sm_Src e)"] f(1) by auto
  show ?case using f u1 Cons.IH [OF u1(1)] Cons.IH [OF f(3)]
    by (auto simp: agg_step_def Let_def split: option.splits prod.splits)
qed simp

definition component_ok :: "(string \<Rightarrow> string) \<Rightarrow> SimilarEdge list \<Rightarrow> string \<Rightarrow> component_acc \<Rightarrow> bool" where
  "component_ok \<rho> es r c \<longleftrightarrow> distinct (cp_ids c) \<and> set (cp_ids c) = {x \<in> ends_of es. \<rho> x = r}
     \<and> (\<exists>e \<in> set es. \<rho> (dm_NodeID (sm_Src e)) = r \<and> sm_Score e = cp_minScore c)
     \<and> (\<exists>e \<in> set es. \<rho> (dm_NodeID (sm_Src e)) = r \<and> sm_Score e = cp_maxScore c)
     \<and> (\<forall>e \<in> set es. \<rho> (dm_NodeID (sm_Src e)) = r \<longrightarrow>
          f32_key (cp_minScore c) \<le> f32_key (sm_Score e) \<and> f32_key (sm_Score e) \<le> f32_key (cp_maxScore c))"


lemma note_ids:
  "note_id y (note_id x (seen, c)) = (seen', c') \<Longrightarrow> distinct (cp_ids c) \<Longrightarrow> set (cp_ids c) \<subseteq> seen \<Longrightarrow>
     seen' = insert x (insert y seen) \<and> distinct (cp_ids c') \<and> set (cp_ids c') = set (cp_ids c) \<union> ({x, y} - seen)
     \<and> cp_minScore c' = cp_minScore c \<and> cp_maxScore c' = cp_maxScore c"
  by (auto simp: note_id_def split: if_splits)

lemma component_ok_other:
  assumes "component_ok \<rho> es r' c" and "\<rho> (dm_NodeID (sm_Src e)) \<noteq> r'" and "\<rho> (dm_NodeID (sm_Dst e)) \<noteq> r'"
  shows "component_ok \<rho> (es @ [e]) r' c"
proof -
  have "{x \<in> ends_of (es @ [e]). \<rho> x = r'} = {x \<in> ends_of es. \<rho> x = r'}" using assms(2,3) by auto
  then show ?thesis using assms(1,2) unfolding component_ok_def set_append by auto
qed

lemma component_ok_widen:
  assumes c: "c = (case old of Some c \<Rightarrow> c | None \<Rightarrow> \<lparr>cp_ids = [], cp_minScore = sm_Score e, cp_maxScore = sm_Score e\<rparr>)"
    and old: "\<And>c. old = Some c \<Longrightarrow> component_ok \<rho> es r c"
    and none: "old = None \<Longrightarrow> r \<notin> \<rho> ` ends_of es"
    and r: "\<rho> (dm_NodeID (sm_Src e)) = r" "\<rho> (dm_NodeID (sm_Dst e)) = r"
    and n: "note_id (dm_NodeID (sm_Dst e)) (note_id (dm_NodeID (sm_Src e)) (ends_of es, widen (sm_Score e) c)) = (seen', c')"
  shows "seen' = ends_of (es @ [e]) \<and> component_ok \<rho> (es @ [e]) r c'"
proof -
  have ids: "distinct (cp_ids c)" "set (cp_ids c) = {x \<in> ends_of es. \<rho> x = r}"
    using c old none by (auto simp: component_ok_def split: option.splits)
  have w: "cp_ids (widen (sm_Score e) c) = cp_ids c" by (simp add: widen_def)
  have res: "seen' = ends_of (es @ [e])" "distinct (cp_ids c')"
    "set (cp_ids c') = set (cp_ids c) \<union> ({dm_NodeID (sm_Src e), dm_NodeID (sm_Dst e)} - ends_of es)"
    "cp_minScore c' = cp_minScore (widen (sm_Score e) c)" "cp_maxScore c' = cp_maxScore (widen (sm_Score e) c)"
    using note_ids [OF n, unfolded w] ids by auto
  have set: "set (cp_ids c') = {x \<in> ends_of (es @ [e]). \<rho> x = r}" using res(3) ids(2) r by auto
  have src: "old = None \<Longrightarrow> e' \<in> set es \<Longrightarrow> \<rho> (dm_NodeID (sm_Src e')) \<noteq> r" for e'
    using none by (force simp: ends_of_def edge_ends_def)
  show ?thesis
  proof (cases old)
    case None
    then show ?thesis using res(1,2,4,5) set src r c unfolding component_ok_def by (auto simp: widen_def)
  next
    case (Some d)
    then have "component_ok \<rho> es r c" using old c by simp
    then show ?thesis using res(1,2,4,5) set r unfolding component_ok_def by (auto simp: widen_def)
  qed
qed

lemma agg_invariant:
  assumes "\<And>e. e \<in> set es \<Longrightarrow> \<rho> (dm_NodeID (sm_Src e)) = \<rho> (dm_NodeID (sm_Dst e))"
    and "foldl (agg_step \<rho>) ([], {}) es = (byRoot, seen)"
  shows "gm_wf byRoot \<and> seen = ends_of es \<and> dom (map_of byRoot) = \<rho> ` ends_of es
    \<and> (\<forall>r c. map_of byRoot r = Some c \<longrightarrow> component_ok \<rho> es r c)"
  using assms
proof (induction es arbitrary: byRoot seen rule: rev_induct)
  case (snoc e es)
  obtain byRoot0 seen0 where st: "foldl (agg_step \<rho>) ([], {}) es = (byRoot0, seen0)" by fastforce
  have IH: "gm_wf byRoot0 \<and> seen0 = ends_of es \<and> dom (map_of byRoot0) = \<rho> ` ends_of es
    \<and> (\<forall>r c. map_of byRoot0 r = Some c \<longrightarrow> component_ok \<rho> es r c)"
    by (rule snoc.IH [OF _ st]) (use snoc.prems(1) in simp)
  define r where "r = \<rho> (dm_NodeID (sm_Src e))"
  have r: "\<rho> (dm_NodeID (sm_Src e)) = r" "\<rho> (dm_NodeID (sm_Dst e)) = r"
    using snoc.prems(1) [of e] by (simp_all add: r_def)
  define c where "c = (case map_of byRoot0 r of Some c \<Rightarrow> c | None \<Rightarrow> \<lparr>cp_ids = [], cp_minScore = sm_Score e, cp_maxScore = sm_Score e\<rparr>)"
  have last: "agg_step \<rho> (byRoot0, seen0) e = (byRoot, seen)" using snoc.prems(2) st by simp
  obtain c' where c': "note_id (dm_NodeID (sm_Dst e)) (note_id (dm_NodeID (sm_Src e)) (seen0, widen (sm_Score e) c)) = (seen, c')"
    "byRoot = gm_put r c' byRoot0"
    using last by (auto simp: agg_step_def Let_def put_edge_def r_def c_def split: prod.splits)
  have w: "seen = ends_of (es @ [e]) \<and> component_ok \<rho> (es @ [e]) r c'"
  proof (rule component_ok_widen [OF c_def _ _ r])
    show "map_of byRoot0 r = Some d \<Longrightarrow> component_ok \<rho> es r d" for d using IH by blast
    show "map_of byRoot0 r = None \<Longrightarrow> r \<notin> \<rho> ` ends_of es" using IH by (metis domIff)
    show "note_id (dm_NodeID (sm_Dst e)) (note_id (dm_NodeID (sm_Src e)) (ends_of es, widen (sm_Score e) c)) = (seen, c')"
      using c'(1) IH by simp
  qed
  have "component_ok \<rho> (es @ [e]) r' d" if "map_of byRoot r' = Some d" for r' d
    using that w IH component_ok_other [of \<rho> es r' d e] r unfolding c'(2) by (cases "r' = r") (auto simp: gomap_simps)
  moreover have "gm_wf byRoot" "dom (map_of byRoot) = \<rho> ` ends_of (es @ [e])"
    using IH r unfolding c'(2) by (auto simp: gomap_simps)
  ultimately show ?case using w by blast
qed (simp add: gm_wf_def)


text \<open>The component of a node in the graph of the edges.\<close>

definition component_of :: "SimilarEdge list \<Rightarrow> string \<Rightarrow> string set" where
  "component_of es x = {y. (x, y) \<in> connected_by (map edge_ends es)}"

lemma connected_ends:
  assumes "(x, y) \<in> connected_by (map edge_ends es)" and "x \<in> ends_of es"
  shows "y \<in> ends_of es"
  using assms by (induction rule: rtrancl_induct) (auto simp: undirected_def ends_of_def image_iff edge_ends_def)

lemma edge_connected: "e \<in> set es \<Longrightarrow> (dm_NodeID (sm_Src e), dm_NodeID (sm_Dst e)) \<in> connected_by (map edge_ends es)"
  by (rule r_into_rtrancl) (force simp: undirected_def edge_ends_def)

definition cluster_ids :: "NearCluster \<Rightarrow> string list" where
  "cluster_ids nc = map dm_NodeID (nc_Members nc)"

lemma near_cluster_ids:
  assumes "set (cp_ids c) \<subseteq> dom members" and "\<And>x m. members x = Some m \<Longrightarrow> dm_NodeID m = x"
  shows "mset (cluster_ids (near_cluster members c)) = mset (cp_ids c)"
proof -
  have "map (\<lambda>x. dm_NodeID (case members x of Some m \<Rightarrow> m | None \<Rightarrow> zero_member)) (cp_ids c) = cp_ids c"
    using assms by (intro map_idI) (auto split: option.splits)
  then have "mset (map dm_NodeID (map (\<lambda>x. case members x of Some m \<Rightarrow> m | None \<Rightarrow> zero_member) (cp_ids c))) = mset (cp_ids c)"
    by (simp add: o_def)
  moreover have "mset (map f (by_location ms)) = mset (map f ms)" for f :: "CloneMember \<Rightarrow> string" and ms
    by (simp only: mset_map by_location_def mset_sort)
  ultimately show ?thesis
    by (simp only: cluster_ids_def near_cluster_def Let_def NearCluster.simps)
qed

text \<open>What one cluster is: a component with the range of its scores.\<close>

definition cluster_spec :: "SimilarEdge list \<Rightarrow> NearCluster \<Rightarrow> bool" where
  "cluster_spec es nc \<longleftrightarrow> (\<exists>x \<in> ends_of es. set (cluster_ids nc) = component_of es x)
     \<and> distinct (cluster_ids nc) \<and> nc_Size nc = length (nc_Members nc)
     \<and> (\<exists>e \<in> set es. dm_NodeID (sm_Src e) \<in> set (cluster_ids nc) \<and> sm_Score e = nc_MinScore nc)
     \<and> (\<exists>e \<in> set es. dm_NodeID (sm_Src e) \<in> set (cluster_ids nc) \<and> sm_Score e = nc_MaxScore nc)
     \<and> (\<forall>e \<in> set es. dm_NodeID (sm_Src e) \<in> set (cluster_ids nc) \<longrightarrow>
          f32_key (nc_MinScore nc) \<le> f32_key (sm_Score e) \<and> f32_key (sm_Score e) \<le> f32_key (nc_MaxScore nc))"

lemma roots_component:
  assumes \<rho>: "\<And>x y. \<rho> x = \<rho> y \<longleftrightarrow> (x, y) \<in> connected_by (map edge_ends es)" and x: "x \<in> ends_of es"
  shows "{y \<in> ends_of es. \<rho> y = \<rho> x} = component_of es x"
proof -
  have "\<rho> y = \<rho> x \<longleftrightarrow> (x, y) \<in> connected_by (map edge_ends es)" for y using \<rho> [of x y] by metis
  then show ?thesis using connected_ends [OF _ x] by (auto simp: component_of_def)
qed

lemma near_cluster_set:
  assumes "component_ok \<rho> es r c"
  shows "set (cluster_ids (near_cluster (foldl put_ends Map.empty es) c)) = {y \<in> ends_of es. \<rho> y = r}"
    "distinct (cluster_ids (near_cluster (foldl put_ends Map.empty es) c))"
proof -
  have "mset (cluster_ids (near_cluster (foldl put_ends Map.empty es) c)) = mset (cp_ids c)"
    by (rule near_cluster_ids) (use assms members_id in \<open>auto simp: members_dom component_ok_def\<close>)
  from mset_eq_setD [OF this] mset_eq_imp_distinct_iff [OF this]
  show "set (cluster_ids (near_cluster (foldl put_ends Map.empty es) c)) = {y \<in> ends_of es. \<rho> y = r}"
    "distinct (cluster_ids (near_cluster (foldl put_ends Map.empty es) c))"
    using assms by (simp_all add: component_ok_def)
qed

lemma near_cluster_spec:
  assumes \<rho>: "\<And>x y. \<rho> x = \<rho> y \<longleftrightarrow> (x, y) \<in> connected_by (map edge_ends es)" and x: "x \<in> ends_of es"
    and ok: "component_ok \<rho> es (\<rho> x) c"
  defines "nc \<equiv> near_cluster (foldl put_ends Map.empty es) c"
  shows "set (cluster_ids nc) = component_of es x" "cluster_spec es nc"
proof -
  note ids = near_cluster_set [OF ok, folded nc_def]
  have mem_src: "dm_NodeID (sm_Src e) \<in> set (cluster_ids nc) \<longleftrightarrow> \<rho> (dm_NodeID (sm_Src e)) = \<rho> x" if "e \<in> set es" for e
  proof -
    have "dm_NodeID (sm_Src e) \<in> ends_of es" using that by (force simp: ends_of_def edge_ends_def)
    then show ?thesis using ids(1) by simp
  qed
  have sel: "nc_Size nc = length (nc_Members nc)" "nc_MinScore nc = cp_minScore c" "nc_MaxScore nc = cp_maxScore c"
    by (simp_all add: nc_def near_cluster_def Let_def)
  show comp: "set (cluster_ids nc) = component_of es x" using ids(1) roots_component [OF \<rho> x] by simp
  obtain lo hi where b: "lo \<in> set es" "\<rho> (dm_NodeID (sm_Src lo)) = \<rho> x" "sm_Score lo = cp_minScore c"
    "hi \<in> set es" "\<rho> (dm_NodeID (sm_Src hi)) = \<rho> x" "sm_Score hi = cp_maxScore c"
    using ok unfolding component_ok_def by (elim conjE bexE)
  have range: "f32_key (cp_minScore c) \<le> f32_key (sm_Score e) \<and> f32_key (sm_Score e) \<le> f32_key (cp_maxScore c)"
    if "e \<in> set es" "dm_NodeID (sm_Src e) \<in> set (cluster_ids nc)" for e
    using ok mem_src [OF that(1)] that unfolding component_ok_def by simp
  show "cluster_spec es nc" unfolding cluster_spec_def sel(2,3)
  proof (intro conjI ballI impI)
    show "\<exists>x \<in> ends_of es. set (cluster_ids nc) = component_of es x" using comp x by (rule bexI)
    show "\<exists>e \<in> set es. dm_NodeID (sm_Src e) \<in> set (cluster_ids nc) \<and> sm_Score e = cp_minScore c"
      "\<exists>e \<in> set es. dm_NodeID (sm_Src e) \<in> set (cluster_ids nc) \<and> sm_Score e = cp_maxScore c"
      using b mem_src by blast+
  qed (use sel(1) ids(2) range in blast)+
qed

lemma buildClusters_distinct:
  assumes "gm_wf byRoot" and ok: "\<And>r c. (r, c) \<in> set byRoot \<Longrightarrow> component_ok \<rho> es r c"
  shows "distinct (concat (map cluster_ids (buildClusters byRoot (foldl put_ends Map.empty es))))"
proof -
  let ?ids = "\<lambda>rc. cluster_ids (near_cluster (foldl put_ends Map.empty es) (snd rc))"
  have ids: "set (?ids rc) = {y \<in> ends_of es. \<rho> y = fst rc}" "distinct (?ids rc)" if "rc \<in> set byRoot" for rc
    using near_cluster_set [OF ok, of "fst rc" "snd rc"] that by simp_all
  have "distinct (concat (map ?ids byRoot))"
  proof (rule distinct_concat_keys)
    show "distinct byRoot" using assms(1) by (auto simp: gm_wf_def distinct_map)
    show "rc = rc'" if "rc \<in> set byRoot" "rc' \<in> set byRoot" "x \<in> set (?ids rc)" "x \<in> set (?ids rc')" for rc rc' x
      using that ids(1) [OF that(1)] ids(1) [OF that(2)] assms(1) distinct_map_eq [of fst byRoot rc rc']
      by (simp add: gm_wf_def)
  qed (rule ids(2))
  then show ?thesis by (simp add: buildClusters_def distinct_concat_sort_key o_def case_prod_beta)
qed

lemma clusterEdges_exact:
  "\<exists>ncs. clusterEdges es = Some ncs \<and> (\<forall>nc \<in> set ncs. cluster_spec es nc)
    \<and> (\<forall>x \<in> ends_of es. \<exists>nc \<in> set ncs. set (cluster_ids nc) = component_of es x)
    \<and> distinct (concat (map cluster_ids ncs))"
proof -
  obtain u where u: "union_all uf_union (map edge_ends es) newUnionFind = Some u" "uf_wf u"
    "\<And>x y. rootOf u x = rootOf u y \<longleftrightarrow> (x, y) \<in> connected_by (map edge_ends es)"
    using uf.union_all_components by metis
  obtain byRoot seen where st: "foldl (agg_step (rootOf u)) ([], {}) es = (byRoot, seen)" by fastforce
  have "rootOf u (dm_NodeID (sm_Src e)) = rootOf u (dm_NodeID (sm_Dst e))" if "e \<in> set es" for e
    using edge_connected [OF that] u(3) by simp
  note inv = agg_invariant [OF this st]
  let ?ncs = "buildClusters byRoot (foldl put_ends Map.empty es)"
  have run: "clusterEdges es = Some ?ncs"
    using u(1,2) st by (simp add: clusterEdges_def cluster_loop_eq aggregateComponents_def aggregate_loop_eq)
  have mem: "set ?ncs = near_cluster (foldl put_ends Map.empty es) ` snd ` set byRoot"
    by (force simp: buildClusters_def)
  have ok: "component_ok (rootOf u) es r c" if "(r, c) \<in> set byRoot" for r c
    using that inv by (auto simp: gm_wf_def)
  have keys: "(\<exists>c. (r, c) \<in> set byRoot) \<longleftrightarrow> r \<in> rootOf u ` ends_of es" for r
    using inv by (metis domIff gm_wf_def map_of_eq_Some_iff not_None_eq)
  have "cluster_spec es nc" if nc: "nc \<in> set ?ncs" for nc
  proof -
    obtain r c where rc: "(r, c) \<in> set byRoot" "nc = near_cluster (foldl put_ends Map.empty es) c" using nc unfolding mem by auto
    then obtain x where "x \<in> ends_of es" "r = rootOf u x" using keys [of r] by (metis imageE)
    then show ?thesis using near_cluster_spec(2) [OF u(3)] ok [OF rc(1)] rc(2) by simp
  qed
  moreover have "\<exists>nc \<in> set ?ncs. set (cluster_ids nc) = component_of es x" if x: "x \<in> ends_of es" for x
  proof -
    obtain c where c: "(rootOf u x, c) \<in> set byRoot" using keys [of "rootOf u x"] x by (metis imageI)
    then have "near_cluster (foldl put_ends Map.empty es) c \<in> set ?ncs" using mem by (metis imageI snd_conv)
    then show ?thesis using near_cluster_spec(1) [OF u(3) x ok [OF c]] by (rule bexI [rotated])
  qed
  ultimately show ?thesis using run buildClusters_distinct [OF _ ok] inv by simp
qed


section \<open>The finder over the tables\<close>

lemma distinct_ids_on_branch:
  assumes "distinct (map fst nodes)"
  shows "distinct (map (\<lambda>kr. fst (fst kr)) (filter (\<lambda>(k, row). snd k = b \<and> P k row) nodes))"
  using assms
proof (induction nodes)
  case (Cons kr nodes)
  then have "fst kr \<notin> fst ` set nodes" by simp
  then have "fst (fst kr) \<notin> (\<lambda>kr. fst (fst kr)) ` {kr' \<in> set nodes. snd (fst kr') = b}" if "snd (fst kr) = b"
    using that by (force simp: image_iff prod_eq_iff)
  then show ?case using Cons by (auto simp: case_prod_beta)
qed simp

lemma structural_rows_distinct:
  assumes "tables_ok db" and "StructuralNodes None db q ex = Inr rows"
  shows "distinct (map cd_NodeID rows)"
proof -
  have "distinct (map (\<lambda>kr. fst (fst kr)) (clone_scope db q ex))"
    using assms(1) unfolding clone_scope_def tables_ok_def gm_wf_def by (intro distinct_ids_on_branch) simp
  then show ?thesis
    using assms(2) by (auto simp: StructuralNodes_def Let_def o_def cloned_node_def case_prod_beta intro!: distinct_map_filter)
qed

definition table_finder :: "graph_tables \<Rightarrow> string \<Rightarrow> Finder" where
  "table_finder db embedderID = \<lparr>fn_clones = CloneRepo None db, fn_near = SimilarEdges None db, fn_embedderID = embedderID\<rparr>"

lemma table_finder_sel [simp]:
  "fn_clones (table_finder db e) = CloneRepo None db" "fn_near (table_finder db e) = SimilarEdges None db"
  "fn_embedderID (table_finder db e) = e"
  by (simp_all add: table_finder_def)

lemma NearDuplicates_returns:
  obtains ncs where "NearDuplicates (table_finder db e) r b m = Some (Inr ncs)" "distinct (concat (map cluster_ids ncs))"
proof -
  obtain edges where "SimilarEdges None db r b (if \<not> f32_nan m \<and> f32_key m \<le> 0 then NearThresholdFor e else m) ExcludedKinds = Inr edges"
    by (simp add: SimilarEdges_def)
  moreover obtain ncs where "clusterEdges edges = Some ncs" "distinct (concat (map cluster_ids ncs))"
    using clusterEdges_exact [of edges] by blast
  ultimately have "NearDuplicates (table_finder db e) r b m = Some (Inr ncs)" "distinct (concat (map cluster_ids ncs))"
    unfolding NearDuplicates_def Let_def table_finder_sel by simp_all
  then show ?thesis by (rule that)
qed

definition member_ids :: "Cluster \<Rightarrow> string list" where
  "member_ids c = map dm_NodeID (cc_Members c)"

lemma near_tier_ids:
  "near_tier claimed nc = Some c \<Longrightarrow> member_ids c = filter (\<lambda>x. x \<notin> claimed) (cluster_ids nc)
     \<and> 2 \<le> length (cc_Members c) \<and> cc_Size c = length (cc_Members c) \<and> cc_Tier c = TierNear"
  by (auto simp: near_tier_def Let_def member_ids_def cluster_ids_def filter_map o_def split: if_splits)

lemma near_tiers_set:
  "set (concat (map member_ids (somes (map (near_tier claimed) ncs)))) \<subseteq> set (concat (map cluster_ids ncs)) - claimed"
proof (induction ncs)
  case (Cons nc ncs)
  then show ?case by (cases "near_tier claimed nc") (auto dest!: near_tier_ids)
qed simp

lemma near_tiers_distinct:
  "distinct (concat (map cluster_ids ncs)) \<Longrightarrow> distinct (concat (map member_ids (somes (map (near_tier claimed) ncs))))"
proof (induction ncs)
  case (Cons nc ncs)
  show ?case
  proof (cases "near_tier claimed nc")
    case (Some c)
    have "set (member_ids c) \<subseteq> set (cluster_ids nc)" "distinct (member_ids c)"
      using near_tier_ids [OF Some] Cons.prems by auto
    moreover have "set (cluster_ids nc) \<inter> set (concat (map cluster_ids ncs)) = {}" using Cons.prems by simp
    ultimately have "set (member_ids c) \<inter> set (concat (map member_ids (somes (map (near_tier claimed) ncs)))) = {}"
      using near_tiers_set [of claimed ncs] by blast
    then show ?thesis using Cons Some \<open>distinct (member_ids c)\<close> by simp
  qed (use Cons in simp)
qed simp

lemma distinct_concat_filter: "distinct (concat (map f xs)) \<Longrightarrow> distinct (concat (map f (filter P xs)))"
  by (induction xs) auto

lemma hash_tier_ids:
  assumes "distinct (map cd_NodeID rows)"
  shows "distinct (concat (map member_ids (filter P (map hash_cluster (groupByHash rows keyOf)))))"
    "set (concat (map member_ids (filter P (map hash_cluster (groupByHash rows keyOf)))))
      \<subseteq> dm_NodeID ` set (concat (map dq_Members (groupByHash rows keyOf)))"
proof -
  have "member_ids (hash_cluster g) = map dm_NodeID (dq_Members g)" for g
    by (simp add: member_ids_def hash_cluster_def)
  note id = this
  have "distinct (concat (map member_ids (map hash_cluster (groupByHash rows keyOf))))"
    using groupByHash_distinct [OF assms, of keyOf] by (simp add: o_def id)
  then show "distinct (concat (map member_ids (filter P (map hash_cluster (groupByHash rows keyOf)))))"
    by (rule distinct_concat_filter)
  show "set (concat (map member_ids (filter P (map hash_cluster (groupByHash rows keyOf)))))
      \<subseteq> dm_NodeID ` set (concat (map dq_Members (groupByHash rows keyOf)))"
    using id by fastforce
qed

lemma hash_cluster_size:
  "c \<in> hash_cluster ` set (groupByHash rows keyOf) \<Longrightarrow> 2 \<le> length (cc_Members c) \<and> cc_Size c = length (cc_Members c)
     \<and> cc_Tier c \<in> {TierExact, TierStructural}"
  by (auto simp: groupByHash_in hash_cluster_def)

lemma set_rank_clusters [simp]: "set (rank_clusters cs) = set cs"
  by (simp add: rank_clusters_def)

lemma distinct_rank_clusters: "distinct (concat (map f (rank_clusters cs))) \<longleftrightarrow> distinct (concat (map f cs))"
  by (simp add: rank_clusters_def distinct_concat_sort_key)

text \<open>The shape of the answer: the groups by structural hash, then the near clusters without their members.\<close>

lemma Clusters_shape:
  assumes "tables_ok db"
  obtains rows ncs where "StructuralNodes None db \<lparr>cq_RepoID = (if oc_AllRepos opts then [] else oc_RepoID opts),
      cq_Branch = oc_Branch opts, cq_PathPrefix = oc_PathPrefix opts\<rparr> ExcludedKinds = Inr rows"
    "Clusters (table_finder db e) opts = Some (Inr (rank_clusters
       (filter (\<lambda>c. tierFilter (oc_Tiers opts) (cc_Tier c)) (map hash_cluster (groupByHash rows cd_StructuralHash))
        @ somes (map (near_tier (dm_NodeID ` set (concat (map dq_Members (groupByHash rows cd_StructuralHash))))) ncs))))"
    "distinct (concat (map cluster_ids ncs))"
    "ncs = [] \<or> tierFilter (oc_Tiers opts) TierNear"
proof -
  obtain rows where rows: "StructuralNodes None db \<lparr>cq_RepoID = (if oc_AllRepos opts then [] else oc_RepoID opts),
      cq_Branch = oc_Branch opts, cq_PathPrefix = oc_PathPrefix opts\<rparr> ExcludedKinds = Inr rows"
    by (simp add: StructuralNodes_def Let_def)
  obtain ncs where ncs: "NearDuplicates (table_finder db e) (oc_RepoID opts) (oc_Branch opts) (oc_MinScore opts) = Some (Inr ncs)"
    "distinct (concat (map cluster_ids ncs))" by (rule NearDuplicates_returns)
  show ?thesis
  proof (cases "tierFilter (oc_Tiers opts) TierNear \<and> \<not> oc_AllRepos opts")
    case True
    then show ?thesis using rows ncs by (intro that [of rows ncs]) (simp_all add: Clusters_def CloneRepo_def Let_def)
  next
    case False
    then show ?thesis using rows by (intro that [of rows "[]"]) (auto simp add: Clusters_def CloneRepo_def Let_def)
  qed
qed


section \<open>Properties\<close>

text \<open>
  C15. Near-duplicate detection always returns, and its clusters are exactly the connected
  components of the similarity edges, each once and no node in two, with the least and the greatest
  score of the edges of the component.
\<close>

theorem near_duplicates_exact:
  assumes "fn_near f r b (if \<not> f32_nan m \<and> f32_key m \<le> 0 then NearThresholdFor (fn_embedderID f) else m) ExcludedKinds = Inr es"
  shows "\<exists>ncs. NearDuplicates f r b m = Some (Inr ncs)
    \<and> (\<lambda>nc. set (cluster_ids nc)) ` set ncs = component_of es ` ends_of es
    \<and> distinct (concat (map cluster_ids ncs)) \<and> (\<forall>nc \<in> set ncs. cluster_spec es nc)"
proof -
  obtain ncs where ncs: "clusterEdges es = Some ncs" "\<forall>nc \<in> set ncs. cluster_spec es nc"
    "\<forall>x \<in> ends_of es. \<exists>nc \<in> set ncs. set (cluster_ids nc) = component_of es x"
    "distinct (concat (map cluster_ids ncs))"
    using clusterEdges_exact by blast
  have "(\<lambda>nc. set (cluster_ids nc)) ` set ncs \<subseteq> component_of es ` ends_of es"
    using ncs(2) by (auto simp: cluster_spec_def)
  moreover have "component_of es ` ends_of es \<subseteq> (\<lambda>nc. set (cluster_ids nc)) ` set ncs"
    using ncs(3) by (metis (mono_tags, lifting) image_eqI image_subsetI)
  moreover have "NearDuplicates f r b m = Some (Inr ncs)"
    using assms ncs(1) unfolding NearDuplicates_def Let_def by simp
  ultimately show ?thesis using ncs(2,4) by blast
qed

text \<open>
  C16. Over the tables of the graph, clustering always returns; every cluster has a wanted tier and at
  least two members, and no node is in two clusters.
\<close>

theorem clusters_disjoint:
  assumes "tables_ok db"
  shows "\<exists>cs. Clusters (table_finder db e) opts = Some (Inr cs) \<and> distinct (concat (map member_ids cs))
    \<and> (\<forall>c \<in> set cs. 2 \<le> length (cc_Members c) \<and> cc_Size c = length (cc_Members c) \<and> tierFilter (oc_Tiers opts) (cc_Tier c))"
proof -
  obtain rows ncs where st: "StructuralNodes None db \<lparr>cq_RepoID = (if oc_AllRepos opts then [] else oc_RepoID opts),
      cq_Branch = oc_Branch opts, cq_PathPrefix = oc_PathPrefix opts\<rparr> ExcludedKinds = Inr rows"
    "Clusters (table_finder db e) opts = Some (Inr (rank_clusters
       (filter (\<lambda>c. tierFilter (oc_Tiers opts) (cc_Tier c)) (map hash_cluster (groupByHash rows cd_StructuralHash))
        @ somes (map (near_tier (dm_NodeID ` set (concat (map dq_Members (groupByHash rows cd_StructuralHash))))) ncs))))"
    "distinct (concat (map cluster_ids ncs))" "ncs = [] \<or> tierFilter (oc_Tiers opts) TierNear"
    using Clusters_shape [OF assms] .
  let ?claimed = "dm_NodeID ` set (concat (map dq_Members (groupByHash rows cd_StructuralHash)))"
  let ?hash = "filter (\<lambda>c. tierFilter (oc_Tiers opts) (cc_Tier c)) (map hash_cluster (groupByHash rows cd_StructuralHash))"
  let ?near = "somes (map (near_tier ?claimed) ncs)"
  note d = structural_rows_distinct [OF assms st(1)]
  have "distinct (concat (map member_ids (?hash @ ?near)))"
    using hash_tier_ids [OF d] near_tiers_distinct [OF st(3)] near_tiers_set [of ?claimed ncs]
    unfolding map_append concat_append distinct_append by blast
  moreover have "2 \<le> length (cc_Members c) \<and> cc_Size c = length (cc_Members c) \<and> tierFilter (oc_Tiers opts) (cc_Tier c)"
    if c: "c \<in> set (?hash @ ?near)" for c
  proof (cases "c \<in> set ?hash")
    case True
    then show ?thesis using hash_cluster_size [of c rows cd_StructuralHash] by auto
  next
    case False
    have "c \<in> set ?near" using c False by (metis UnE set_append)
    then have "Some c \<in> near_tier ?claimed ` set ncs" unfolding set_somes set_map mem_Collect_eq .
    then obtain nc where "nc \<in> set ncs" "near_tier ?claimed nc = Some c" by (metis imageE)
    then show ?thesis using near_tier_ids [of ?claimed nc c] st(4) by auto
  qed
  ultimately have "distinct (concat (map member_ids (rank_clusters (?hash @ ?near))))
    \<and> (\<forall>c \<in> set (rank_clusters (?hash @ ?near)). 2 \<le> length (cc_Members c) \<and> cc_Size c = length (cc_Members c)
      \<and> tierFilter (oc_Tiers opts) (cc_Tier c))"
    unfolding distinct_rank_clusters set_rank_clusters by blast
  then show ?thesis using st(2) by (intro exI conjI) (assumption | elim conjE)+
qed

text \<open>
  A node without a structural hash is in no exact and no structural cluster, even if other
  nodes have the same content: exact clones of every language but Go are missing from the clusters.
\<close>

theorem unhashed_clones_not_clustered:
  assumes ok: "tables_ok db" and run: "Clusters (table_finder db e) opts = Some (Inr cs)"
    and row: "map_of (gb_nodes db) (x, oc_Branch opts) = Some row" "nd_structural_hash row = None"
    and c: "c \<in> set cs" "cc_Tier c \<noteq> TierNear"
  shows "x \<notin> set (member_ids c)"
proof
  assume x: "x \<in> set (member_ids c)"
  obtain rows ncs where st: "StructuralNodes None db \<lparr>cq_RepoID = (if oc_AllRepos opts then [] else oc_RepoID opts),
      cq_Branch = oc_Branch opts, cq_PathPrefix = oc_PathPrefix opts\<rparr> ExcludedKinds = Inr rows"
    "cs = rank_clusters
       (filter (\<lambda>c. tierFilter (oc_Tiers opts) (cc_Tier c)) (map hash_cluster (groupByHash rows cd_StructuralHash))
        @ somes (map (near_tier (dm_NodeID ` set (concat (map dq_Members (groupByHash rows cd_StructuralHash))))) ncs))"
    using Clusters_shape [OF ok, of opts e] run by (metis option.inject sum.inject(2))
  have "c \<in> hash_cluster ` set (groupByHash rows cd_StructuralHash)"
    using c near_tier_ids unfolding st(2) by force
  then obtain h where "cc_Members c = by_location (map member_of (rows_with cd_StructuralHash rows h))"
    by (auto simp: groupByHash_in hash_cluster_def)
  then obtain r where "r \<in> set rows" "cd_NodeID r = x"
    using x by (auto simp: member_ids_def rows_with_def member_of_def)
  then obtain row' where "((x, oc_Branch opts), row') \<in> set (gb_nodes db)" "nd_structural_hash row' \<noteq> None"
    using st(1) by (auto simp: StructuralNodes_def Let_def cloned_node_def clone_scope_def)
  then have "map_of (gb_nodes db) (x, oc_Branch opts) = Some row'" "nd_structural_hash row' \<noteq> None"
    using ok by (auto simp: tables_ok_def gm_wf_def)
  then show False using row by simp
qed

section \<open>A concrete graph\<close>

text \<open>Two functions with one body and no structural hash, similar by score.\<close>

definition twin_row :: "string \<Rightarrow> string \<Rightarrow> node_rec" where
  "twin_row name path = (sample_row name path)\<lparr>nd_content_hash := ''h''\<rparr>"

definition twin_tables :: graph_tables where
  "twin_tables = sample_tables\<lparr>gb_nodes := [((''a'', ''m''), twin_row ''A'' ''a.py''), ((''b'', ''m''), twin_row ''B'' ''b.py'')],
     gb_edges := [((''e'', ''m''), \<lparr>er_edge_id = ''e'', er_repo_id = ''r'', er_branch = ''m'', er_kind = ''SIMILAR_TO'',
                    er_src_node_id = ''a'', er_dst_node_id = ''b'', ex_confidence = ''probable'', ex_last_promoted_at = 1,
                    ex_src_line = None, ex_score = Some 0x3F7FFFFF\<rparr>)]\<rparr>"

definition twin_opts :: ClusterOptions where
  "twin_opts = \<lparr>oc_RepoID = ''r'', oc_Branch = ''m'', oc_AllRepos = False, oc_PathPrefix = [], oc_Tiers = [TierExact], oc_MinScore = 0\<rparr>"

lemma twin_tables_ok: "tables_ok twin_tables"
  by (simp add: tables_ok_def twin_tables_def sample_tables_def edge_rooted_def has_node_def gm_wf_def)

theorem near_duplicates_exact_witness:
  "\<exists>ncs. NearDuplicates (table_finder twin_tables []) ''r'' ''m'' 0 = Some (Inr ncs) \<and> map nc_Size ncs = [2]
    \<and> distinct (concat (map cluster_ids ncs))"
proof -
  obtain es where es: "SimilarEdges None twin_tables ''r'' ''m'' DefaultNearThreshold ExcludedKinds = Inr es"
    by (simp add: SimilarEdges_def)
  have thr: "(if \<not> f32_nan 0 \<and> f32_key 0 \<le> 0 then NearThresholdFor [] else 0) = DefaultNearThreshold" by code_simp
  have "fn_near (table_finder twin_tables []) ''r'' ''m''
      (if \<not> f32_nan 0 \<and> f32_key 0 \<le> 0 then NearThresholdFor (fn_embedderID (table_finder twin_tables [])) else 0) ExcludedKinds = Inr es"
    unfolding table_finder_sel thr by (rule es)
  moreover have "map_option (map_sum id (map nc_Size)) (NearDuplicates (table_finder twin_tables []) ''r'' ''m'' 0) = Some (Inr [2])"
    by code_simp
  ultimately show ?thesis using near_duplicates_exact by fastforce
qed

theorem clusters_disjoint_witness:
  "\<exists>cs. Clusters (table_finder twin_tables []) twin_opts = Some (Inr cs) \<and> distinct (concat (map member_ids cs))"
  using clusters_disjoint [OF twin_tables_ok] by blast

theorem unhashed_clones_not_clustered_witness:
  "\<exists>cs gs. Clusters (table_finder twin_tables []) twin_opts = Some (Inr cs)
    \<and> ExactClones (table_finder twin_tables []) ''r'' ''m'' = Inr gs \<and> map dq_Size gs = [2]
    \<and> ''a'' \<notin> set (concat (map member_ids cs))"
proof -
  obtain cs where cs: "Clusters (table_finder twin_tables []) twin_opts = Some (Inr cs)"
    "\<forall>c \<in> set cs. tierFilter (oc_Tiers twin_opts) (cc_Tier c)"
    using clusters_disjoint [OF twin_tables_ok] by blast
  have "map_sum id (map dq_Size) (ExactClones (table_finder twin_tables []) ''r'' ''m'') = Inr [2]" by code_simp
  then obtain gs where gs: "ExactClones (table_finder twin_tables []) ''r'' ''m'' = Inr gs" "map dq_Size gs = [2]"
    by (auto simp: map_sum_def split: sum.splits)
  have row: "map_of (gb_nodes twin_tables) (''a'', oc_Branch twin_opts) = Some (twin_row ''A'' ''a.py'')"
    "nd_structural_hash (twin_row ''A'' ''a.py'') = None"
    by (simp_all add: twin_tables_def twin_opts_def twin_row_def sample_row_def)
  have "''a'' \<notin> set (member_ids c)" if "c \<in> set cs" for c
  proof -
    have "cc_Tier c = TierExact" using cs(2) that by (auto simp: tierFilter_def twin_opts_def)
    then have "cc_Tier c \<noteq> TierNear" by (simp add: TierExact_def TierNear_def)
    from unhashed_clones_not_clustered [OF twin_tables_ok cs(1) row that this] show ?thesis .
  qed
  then show ?thesis using cs(1) gs by (intro exI conjI) auto
qed

end
