(* ===== verification/Go_Regexp.thy ===== *)
theory Go_Regexp
  imports Prelude "HOL-Library.Sublist"
begin

text \<open>
  What the scanner uses of Go's \<open>regexp\<close> and \<open>strings\<close>: expressions over bytes with greedy
  repetition, one capturing group, anchors and word boundaries, searched with leftmost-first
  semantics, and the replacement of all occurrences of a substring.

  A search tries the alternatives in their order and prefers longer repetitions, as Go does; the
  body of every repetition here consumes input. The classes are ASCII, so matching bytes is matching
  runes.
\<close>

section \<open>Expressions\<close>

datatype re =
    Eps
  | Cls "char \<Rightarrow> bool"
  | Cat re re
  | Alt re re
  | Star re
  | Grp re
  | WordB
  | Bol
  | Eol

text \<open>A match: what was consumed, what the group captured, and the rest of the text.\<close>

type_synonym re_match = "string \<times> string option \<times> string"

definition is_word :: "char option \<Rightarrow> bool" where
  "is_word c = (case c of None \<Rightarrow> False
     | Some d \<Rightarrow> CHR ''a'' \<le> d \<and> d \<le> CHR ''z'' \<or> CHR ''A'' \<le> d \<and> d \<le> CHR ''Z''
         \<or> CHR ''0'' \<le> d \<and> d \<le> CHR ''9'' \<or> d = CHR ''_'')"

definition next_char :: "string \<Rightarrow> char option" where
  "next_char s = (case s of [] \<Rightarrow> None | c # _ \<Rightarrow> Some c)"

definition last_char :: "char option \<Rightarrow> string \<Rightarrow> char option" where
  "last_char prev u = (if u = [] then prev else Some (last u))"

definition later_group :: "string option \<Rightarrow> string option \<Rightarrow> string option" where
  "later_group g h = (case h of None \<Rightarrow> g | Some _ \<Rightarrow> h)"

text \<open>All matches at the current position in order of preference.\<close>

fun re_run :: "re \<Rightarrow> char option \<Rightarrow> string \<Rightarrow> re_match list" where
  "re_run Eps prev s = [([], None, s)]"
| "re_run (Cls P) prev s = (case s of [] \<Rightarrow> [] | c # cs \<Rightarrow> if P c then [([c], None, cs)] else [])"
| "re_run (Cat a b) prev s =
     concat (map (\<lambda>(u, g, t). map (\<lambda>(v, h, w). (u @ v, later_group g h, w)) (re_run b (last_char prev u) t))
       (re_run a prev s))"
| "re_run (Alt a b) prev s = re_run a prev s @ re_run b prev s"
| "re_run (Star a) prev s =
     concat (map (\<lambda>(u, g, t).
         if length t < length s
         then map (\<lambda>(v, h, w). (u @ v, later_group g h, w)) (re_run (Star a) (last_char prev u) t)
         else []) (re_run a prev s))
     @ [([], None, s)]"
| "re_run (Grp a) prev s = map (\<lambda>(u, g, t). (u, Some u, t)) (re_run a prev s)"
| "re_run WordB prev s = (if is_word prev \<noteq> is_word (next_char s) then [([], None, s)] else [])"
| "re_run Bol prev s = (if prev = None then [([], None, s)] else [])"
| "re_run Eol prev s = (if s = [] then [([], None, s)] else [])"

text \<open>The leftmost match: the text skipped and the match.\<close>

fun re_find :: "re \<Rightarrow> char option \<Rightarrow> string \<Rightarrow> (string \<times> re_match) option" where
  "re_find r prev s =
     (case re_run r prev s of
        m # _ \<Rightarrow> Some ([], m)
      | [] \<Rightarrow>
          (case s of
             [] \<Rightarrow> None
           | c # cs \<Rightarrow> map_option (\<lambda>(skipped, m). (c # skipped, m)) (re_find r (Some c) cs)))"

declare re_find.simps [simp del]

definition FindStringSubmatch :: "re \<Rightarrow> string \<Rightarrow> (string \<times> string option) option" where
  "FindStringSubmatch r s = map_option (\<lambda>(skipped, u, g, t). (u, g)) (re_find r None s)"

definition MatchString :: "re \<Rightarrow> string \<Rightarrow> bool" where
  "MatchString r s \<longleftrightarrow> re_find r None s \<noteq> None"

declare re_run.simps(5) [simp del]

text \<open>The expression consumes at least one byte.\<close>

fun consumes :: "re \<Rightarrow> bool" where
  "consumes (Cls P) \<longleftrightarrow> True"
| "consumes (Cat a b) \<longleftrightarrow> consumes a \<or> consumes b"
| "consumes (Alt a b) \<longleftrightarrow> consumes a \<and> consumes b"
| "consumes (Grp a) \<longleftrightarrow> consumes a"
| "consumes _ \<longleftrightarrow> False"

text \<open>The matches as derivations: what is proved of all of them is proved by rule induction.\<close>

inductive re_matches :: "re \<Rightarrow> string \<Rightarrow> string option \<Rightarrow> bool" where
  empty: "re_matches r [] None" if "\<not> consumes r"
| cls: "P c \<Longrightarrow> re_matches (Cls P) [c] None"
| cat: "re_matches a u g \<Longrightarrow> re_matches b v h \<Longrightarrow> re_matches (Cat a b) (u @ v) (later_group g h)"
| left: "re_matches a u g \<Longrightarrow> re_matches (Alt a b) u g"
| right: "re_matches b u g \<Longrightarrow> re_matches (Alt a b) u g"
| star: "re_matches a u g \<Longrightarrow> re_matches (Star a) v h \<Longrightarrow> re_matches (Star a) (u @ v) (later_group g h)"
| grp: "re_matches a u g \<Longrightarrow> re_matches (Grp a) u (Some u)"

lemma re_run_sound: "(u, g, t) \<in> set (re_run r prev s) \<Longrightarrow> s = u @ t \<and> re_matches r u g"
proof (induction r prev s arbitrary: u g t rule: re_run.induct)
  case (3 a b prev s)
  then obtain u1 g1 t1 u2 g2 where "(u1, g1, t1) \<in> set (re_run a prev s)"
    "(u2, g2, t) \<in> set (re_run b (last_char prev u1) t1)" "u = u1 @ u2" "g = later_group g1 g2" by auto
  then show ?case using 3(1) [of u1 g1 t1] 3(2) [of "(u1, g1, t1)" u1 "(g1, t1)" g1 t1 u2 g2 t]
    by (auto intro: re_matches.cat)
next
  case (5 a prev s)
  then consider "u = []" "g = None" "t = s"
    | u1 g1 t1 u2 g2 where "(u1, g1, t1) \<in> set (re_run a prev s)" "length t1 < length s"
        "(u2, g2, t) \<in> set (re_run (Star a) (last_char prev u1) t1)" "u = u1 @ u2" "g = later_group g1 g2"
    unfolding re_run.simps(5) [of a prev s] by (auto split: if_splits)
  then show ?case
  proof cases
    case 1
    then show ?thesis by (simp add: re_matches.empty)
  next
    case 2
    then show ?thesis using 5(1) [of u1 g1 t1] 5(2) [of "(u1, g1, t1)" u1 "(g1, t1)" g1 t1 u2 g2 t]
      by (auto intro: re_matches.star)
  qed
qed (auto intro: re_matches.intros split: list.splits if_splits)

lemma re_find_split:
  "re_find r prev s = Some (k, u, g, t) \<Longrightarrow> s = k @ u @ t \<and> re_matches r u g"
proof (induction r prev s arbitrary: k rule: re_find.induct)
  case (1 r prev s)
  show ?case
  proof (cases "re_run r prev s")
    case Nil
    then obtain c cs k' where s: "s = c # cs" "re_find r (Some c) cs = Some (k', u, g, t)" "k = c # k'"
      using 1(2) by (subst (asm) re_find.simps) (auto split: list.splits)
    then show ?thesis using 1(1) [OF Nil s(1), of k'] by simp
  next
    case (Cons m ms)
    then have "m = (u, g, t)" "k = []" using 1(2) by (subst (asm) re_find.simps, simp)+
    then have "(u, g, t) \<in> set (re_run r prev s)" using Cons by simp
    then show ?thesis using \<open>k = []\<close> re_run_sound by simp
  qed
qed

text \<open>Successive matches; none of the expressions searched this way matches the empty text.\<close>

function re_find_all :: "re \<Rightarrow> char option \<Rightarrow> string \<Rightarrow> string list" where
  "re_find_all r prev s =
     (case re_find r prev s of
        None \<Rightarrow> []
      | Some (k, u, g, t) \<Rightarrow> if u = [] then [] else u # re_find_all r (Some (last u)) t)"
  by pat_completeness auto

termination
proof (relation "measure (\<lambda>(r, prev, s). length s)", goal_cases)
  case (2 r prev s m k y u z g t)
  then show ?case using re_find_split [of r prev s k u g t] by auto
qed simp

declare re_find_all.simps [simp del]

definition FindAllString :: "re \<Rightarrow> string \<Rightarrow> string list" where
  "FindAllString r s = re_find_all r None s"

section \<open>Derived forms\<close>

fun re_times :: "nat \<Rightarrow> re \<Rightarrow> re" where
  "re_times 0 r = Eps"
| "re_times (Suc n) r = Cat r (re_times n r)"

definition at_least :: "nat \<Rightarrow> re \<Rightarrow> re" where
  "at_least n r = Cat (re_times n r) (Star r)"

definition re_opt :: "re \<Rightarrow> re" where
  "re_opt r = Alt r Eps"

fun lit :: "string \<Rightarrow> re" where
  "lit [] = Eps"
| "lit (c # cs) = Cat (Cls (\<lambda>d. d = c)) (lit cs)"

fun one_of :: "re list \<Rightarrow> re" where
  "one_of [] = Cls (\<lambda>_. False)"
| "one_of [r] = r"
| "one_of (r # rs) = Alt r (one_of rs)"

section \<open>What a match contains\<close>

text \<open>No class of the expression accepts the byte.\<close>

fun avoids :: "char \<Rightarrow> re \<Rightarrow> bool" where
  "avoids c (Cls P) \<longleftrightarrow> \<not> P c"
| "avoids c (Cat a b) \<longleftrightarrow> avoids c a \<and> avoids c b"
| "avoids c (Alt a b) \<longleftrightarrow> avoids c a \<and> avoids c b"
| "avoids c (Star a) \<longleftrightarrow> avoids c a"
| "avoids c (Grp a) \<longleftrightarrow> avoids c a"
| "avoids c _ \<longleftrightarrow> True"

lemma matches_consumes: "re_matches r u g \<Longrightarrow> consumes r \<Longrightarrow> u \<noteq> []"
  by (induction rule: re_matches.induct) auto

lemma matches_avoids: "re_matches r u g \<Longrightarrow> avoids c r \<Longrightarrow> c \<notin> set u"
  by (induction rule: re_matches.induct) auto

lemma matches_group: "re_matches r u g \<Longrightarrow> g = Some v \<Longrightarrow> sublist v u"
proof (induction arbitrary: v rule: re_matches.induct)
  case (cat a u g b w h)
  then show ?case by (cases h) (auto simp: later_group_def sublist_append)
next
  case (star a u g w h)
  then show ?case by (cases h) (auto simp: later_group_def sublist_append)
qed auto

end
