(* ===== verification/Osv_Source.thy ===== *)
theory Osv_Source
  imports Blanket_Gates Union_Find Secrets_Scanner
begin

text \<open>
  The advisory source (\<open>infrastructure/vulnsource/osv/osv.go\<close>, \<open>vulnsource/null.go\<close>): the cache that
  a refresh writes, the matching of dependencies against the cached advisories, and the
  deduplication of advisories that are aliases of each other.

  The package \<open>golang.org/x/mod/semver\<close> is a parameter. What the download returns, what a cache file
  decodes to and whether a file can be written are arguments. The deduplication works on indices
  with a parent array, whose lookup is that of \<open>Union_Find\<close> on a map that is defined on all
  indices, and compacts the slice in place while it still reads it; both are modelled as they are.
\<close>

section \<open>Data\<close>

record semver_pkg =
  sv_IsValid :: "string \<Rightarrow> bool"
  sv_Compare :: "string \<Rightarrow> string \<Rightarrow> int"

record osvEvent =
  oe_Introduced :: string
  oe_Fixed :: string
  oe_LastAffected :: string

record osvRange =
  or_Type :: string
  or_Events :: "osvEvent list"

record osvAffected =
  oa_Ecosystem :: string
  oa_Name :: string
  oa_Ranges :: "osvRange list"

record osvSeverity =
  os_Type :: string
  os_Score :: string

record advisory =
  ad_ID :: string
  ad_Aliases :: "string list"
  ad_Summary :: string
  ad_Affected :: "osvAffected list"
  ad_Severity :: "osvSeverity list"
  ad_DatabaseSeverity :: string

record VulnFinding =
  vf_AdvisoryID :: string
  vf_Package :: string
  vf_AffectedRange :: string
  vf_Severity :: string
  vf_Summary :: string
  vf_FixedVersion :: string
  vf_Aliases :: "string list"

record VulnSource =
  vs_Refresh :: "err option"
  vs_Scan :: "Dependency list \<Rightarrow> VulnFinding list result"

definition NullVulnSource :: VulnSource where
  "NullVulnSource = \<lparr>vs_Refresh = None, vs_Scan = (\<lambda>_. Inr [])\<rparr>"

record Adapter =
  oa_cacheDir :: string
  oa_dumpURL :: string

definition DumpURL :: string where
  "DumpURL = ''https://osv-vulnerabilities.storage.googleapis.com/Go/all.zip''"

definition WithCacheDir :: "string \<Rightarrow> Adapter \<Rightarrow> Adapter" where
  "WithCacheDir dir a = (if dir \<noteq> [] then a\<lparr>oa_cacheDir := dir\<rparr> else a)"

definition WithDumpURL :: "string \<Rightarrow> Adapter \<Rightarrow> Adapter" where
  "WithDumpURL u a = (if u \<noteq> [] then a\<lparr>oa_dumpURL := u\<rparr> else a)"

definition NewAdapter :: "string \<Rightarrow> (Adapter \<Rightarrow> Adapter) list \<Rightarrow> Adapter" where
  "NewAdapter defaultDir opts = foldl (\<lambda>a opt. opt a) \<lparr>oa_cacheDir = defaultDir, oa_dumpURL = DumpURL\<rparr> opts"

section \<open>The cache\<close>

text \<open>An entry of the downloaded archive: its name, whether it is a directory, what opening and reading it gives.\<close>

record zip_file =
  zf_Name :: string
  zf_IsDir :: bool
  zf_data :: "string result"

definition path_Join2 :: "string \<Rightarrow> string \<Rightarrow> string" where
  "path_Join2 a b = (if a = [] \<and> b = [] then [] else if a = [] then path_Clean b
     else if b = [] then path_Clean a else path_Clean (a @ [slash] @ b))"

definition extractAdvisory ::
  "(string \<Rightarrow> err option) \<Rightarrow> Adapter \<Rightarrow> zip_file \<Rightarrow> (string \<rightharpoonup> string) \<Rightarrow> (string \<rightharpoonup> string) result" where
  "extractAdvisory write_fault a f cache =
     bind_r (zf_data f) (\<lambda>data.
       let dest = path_Join2 (oa_cacheDir a) (path_Base (zf_Name f))
       in if \<not> HasPrefix dest (path_Clean (oa_cacheDir a) @ [slash])
          then Inl (Errorf ''unsafe archive entry %q'' [zf_Name f])
          else case write_fault dest of Some e \<Rightarrow> Inl e | None \<Rightarrow> Inr (cache(dest \<mapsto> data)))"

text \<open>The loop over the archive; the files written before an error stay.\<close>

fun extract_all ::
  "(string \<Rightarrow> err option) \<Rightarrow> Adapter \<Rightarrow> zip_file list \<Rightarrow> (string \<rightharpoonup> string) \<Rightarrow> (string \<rightharpoonup> string) \<times> err option" where
  "extract_all wr a [] cache = (cache, None)"
| "extract_all wr a (f # fs) cache =
     (if zf_IsDir f \<or> \<not> HasSuffix (zf_Name f) ''.json'' then extract_all wr a fs cache
      else case extractAdvisory wr a f cache of
             Inl e \<Rightarrow> (cache, Some (Wrap ''osv refresh: extract %s: %w'' [zf_Name f] e))
           | Inr cache' \<Rightarrow> extract_all wr a fs cache')"

text \<open>The download of the dump, up to the opened archive, is an argument; so is the outcome of creating the directory.\<close>

definition Adapter_Refresh ::
  "zip_file list result \<Rightarrow> err option \<Rightarrow> (string \<Rightarrow> err option) \<Rightarrow> Adapter \<Rightarrow> (string \<rightharpoonup> string) \<Rightarrow> (string \<rightharpoonup> string) \<times> err option" where
  "Adapter_Refresh dump mkdir_fault write_fault a cache =
     (case dump of
        Inl e \<Rightarrow> (cache, Some e)
      | Inr files \<Rightarrow>
          (case mkdir_fault of
             Some e \<Rightarrow> (cache, Some (Wrap ''osv refresh: create cache dir: %w'' [] e))
           | None \<Rightarrow> extract_all write_fault a files cache))"

section \<open>Versions\<close>

definition normalizeSemver :: "string \<Rightarrow> string" where
  "normalizeSemver v = (if v = [] then v else if HasPrefix v ''v'' then v else CHR ''v'' # v)"

definition semver_range :: "osvRange \<Rightarrow> bool" where
  "semver_range r \<longleftrightarrow> \<not> (or_Type r \<noteq> [] \<and> or_Type r \<noteq> ''SEMVER'')"

definition event_step :: "semver_pkg \<Rightarrow> string \<Rightarrow> bool \<Rightarrow> osvEvent \<Rightarrow> bool" where
  "event_step sv v affected ev =
     (if oe_Introduced ev = ''0'' then True
      else if oe_Introduced ev \<noteq> [] then (if sv_Compare sv v (normalizeSemver (oe_Introduced ev)) \<ge> 0 then True else affected)
      else if oe_Fixed ev \<noteq> [] then (if sv_Compare sv v (normalizeSemver (oe_Fixed ev)) \<ge> 0 then False else affected)
      else if oe_LastAffected ev \<noteq> [] then (if sv_Compare sv v (normalizeSemver (oe_LastAffected ev)) > 0 then False else affected)
      else affected)"

definition versionAffected :: "semver_pkg \<Rightarrow> string \<Rightarrow> osvRange list \<Rightarrow> bool" where
  "versionAffected sv version ranges \<longleftrightarrow>
     (let v = normalizeSemver version
      in if \<not> sv_IsValid sv v then False
         else list_ex (\<lambda>r. foldl (event_step sv v) False (or_Events r)) (filter semver_range ranges))"

definition fix_step :: "semver_pkg \<Rightarrow> string \<Rightarrow> string \<Rightarrow> osvEvent \<Rightarrow> string" where
  "fix_step sv cur best ev =
     (if oe_Fixed ev = [] then best
      else let fixed = normalizeSemver (oe_Fixed ev)
           in if \<not> sv_IsValid sv fixed then best
              else if sv_IsValid sv cur \<and> sv_Compare sv fixed cur \<le> 0 then best
              else if best = [] \<or> sv_Compare sv fixed best < 0 then fixed
              else best)"

definition minFixedAbove :: "semver_pkg \<Rightarrow> string \<Rightarrow> osvRange list \<Rightarrow> string" where
  "minFixedAbove sv current ranges =
     foldl (fix_step sv (normalizeSemver current)) [] (concat (map or_Events (filter semver_range ranges)))"

definition event_part :: "osvEvent \<Rightarrow> string list" where
  "event_part ev =
     (if oe_Introduced ev = ''0'' then [''>=0'']
      else if oe_Introduced ev \<noteq> [] then [''>='' @ oe_Introduced ev]
      else if oe_Fixed ev \<noteq> [] then [''<'' @ oe_Fixed ev]
      else if oe_LastAffected ev \<noteq> [] then [''<='' @ oe_LastAffected ev]
      else [])"

definition rangeString :: "osvRange list \<Rightarrow> string" where
  "rangeString ranges = join '', '' (concat (map (\<lambda>r. concat (map event_part (or_Events r))) ranges))"

definition severityFromCVSS3 :: "string \<Rightarrow> string" where
  "severityFromCVSS3 vec = []"

fun first_score :: "osvSeverity list \<Rightarrow> string" where
  "first_score [] = []"
| "first_score (s # ss) =
     (if os_Score s = [] then first_score ss
      else let label = severityFromCVSS3 (os_Score s) in if label \<noteq> [] then label else os_Score s)"

definition pickSeverity :: "advisory \<Rightarrow> string" where
  "pickSeverity adv =
     (let s = TrimSpace (ad_DatabaseSeverity adv) in if s \<noteq> [] then s else first_score (ad_Severity adv))"

section \<open>Matching\<close>

text \<open>\<open>strings.EqualFold\<close> with \<open>Go\<close>: only ASCII letters fold to its letters.\<close>

definition is_go :: "string \<Rightarrow> bool" where
  "is_go s \<longleftrightarrow> s \<in> set [''Go'', ''GO'', ''go'', ''gO'']"

definition byPackage :: "Dependency list \<Rightarrow> string \<Rightarrow> Dependency list" where
  "byPackage deps name = filter (\<lambda>d. is_go (dq_Ecosystem d) \<and> dq_Name d = name) deps"

definition vuln_match :: "semver_pkg \<Rightarrow> advisory \<Rightarrow> osvAffected \<Rightarrow> Dependency \<Rightarrow> VulnFinding" where
  "vuln_match sv adv aff dep =
     \<lparr>vf_AdvisoryID = ad_ID adv, vf_Package = oa_Name aff, vf_AffectedRange = rangeString (oa_Ranges aff),
      vf_Severity = pickSeverity adv, vf_Summary = ad_Summary adv, vf_FixedVersion = minFixedAbove sv (dq_Version dep) (oa_Ranges aff),
      vf_Aliases = ad_Aliases adv\<rparr>"

definition matchAdvisory :: "semver_pkg \<Rightarrow> advisory \<Rightarrow> (string \<Rightarrow> Dependency list) \<Rightarrow> VulnFinding list" where
  "matchAdvisory sv adv byPkg =
     concat (map (\<lambda>aff. map (vuln_match sv adv aff)
         (filter (\<lambda>dep. versionAffected sv (dq_Version dep) (oa_Ranges aff)) (byPkg (oa_Name aff))))
       (filter (\<lambda>aff. is_go (oa_Ecosystem aff)) (ad_Affected adv)))"

section \<open>Aliased advisories\<close>

definition advisoryRank :: "string \<Rightarrow> nat" where
  "advisoryRank aid =
     (if HasPrefix aid ''GHSA-'' then 0
      else if HasPrefix aid ''CVE-'' then 1
      else if HasPrefix aid ''GO-'' \<or> HasPrefix aid ''PYSEC-'' then 3
      else 2)"

text \<open>The insertion sort on the array.\<close>

fun sink :: "nat \<Rightarrow> string list \<Rightarrow> string list" where
  "sink 0 s = s"
| "sink (Suc j) s = (if s ! j > s ! Suc j then sink j (s[j := s ! Suc j, Suc j := s ! j]) else s)"

definition sortStrings :: "string list \<Rightarrow> string list" where
  "sortStrings s = foldl (\<lambda>s i. sink i s) s [1..<length s]"

definition pkg_indices :: "VulnFinding list \<Rightarrow> string \<Rightarrow> nat list" where
  "pkg_indices fs pkg = filter (\<lambda>i. vf_Package (fs ! i) = pkg) [0..<length fs]"

definition idxByID :: "VulnFinding list \<Rightarrow> nat list \<Rightarrow> string \<rightharpoonup> nat" where
  "idxByID fs idxs = foldl (\<lambda>m i. m(vf_AdvisoryID (fs ! i) \<mapsto> i)) Map.empty idxs"

definition parent_array :: "nat \<Rightarrow> nat unionFind" where
  "parent_array n = (\<lambda>i. if i < n then Some i else None)"

text \<open>The unions of the loop over the aliases, in its order.\<close>

definition alias_pairs :: "VulnFinding list \<Rightarrow> nat list \<Rightarrow> (nat \<times> nat) list" where
  "alias_pairs fs idxs = concat (map (\<lambda>i. map (Pair i) (somes (map (idxByID fs idxs) (vf_Aliases (fs ! i))))) idxs)"

fun best_loop :: "VulnFinding list \<Rightarrow> nat list \<Rightarrow> nat unionFind \<Rightarrow> (nat, nat) gomap \<Rightarrow> (nat, nat) gomap option" where
  "best_loop fs [] u best = Some best"
| "best_loop fs (i # idxs) u best =
     Option.bind (uf_find u i) (\<lambda>(u', root).
       best_loop fs idxs u'
         (case map_of best root of
            None \<Rightarrow> gm_put root i best
          | Some cur \<Rightarrow>
              if advisoryRank (vf_AdvisoryID (fs ! i)) < advisoryRank (vf_AdvisoryID (fs ! cur)) then gm_put root i best else best))"

definition pkg_winners :: "VulnFinding list \<Rightarrow> string \<Rightarrow> nat list option" where
  "pkg_winners fs pkg =
     (let idxs = pkg_indices fs pkg
      in Option.bind (union_all uf_union (alias_pairs fs idxs) (parent_array (length fs))) (\<lambda>u.
         map_option (map snd) (best_loop fs idxs u [])))"

fun all_winners :: "VulnFinding list \<Rightarrow> string list \<Rightarrow> nat list option" where
  "all_winners fs [] = Some []"
| "all_winners fs (p # ps) =
     Option.bind (pkg_winners fs p) (\<lambda>ws. map_option (\<lambda>rest. ws @ rest) (all_winners fs ps))"

definition alias_set :: "VulnFinding list \<Rightarrow> (nat \<Rightarrow> bool) \<Rightarrow> nat \<Rightarrow> VulnFinding \<Rightarrow> string list" where
  "alias_set arr keep i f =
     dedup (filter (\<lambda>a. a \<noteq> [] \<and> a \<noteq> vf_AdvisoryID f) (vf_Aliases f)
       @ concat (map (\<lambda>j. let other = arr ! j in
           if j = i \<or> keep j \<or> vf_Package other \<noteq> vf_Package f then []
           else if vf_AdvisoryID f \<in> set (vf_Aliases other) then [vf_AdvisoryID other] else []) [0..<length arr]))"

text \<open>The kept findings are moved to the front of the array that the loop reads; \<open>k\<close> is the length of the result so far.\<close>

fun compact :: "(nat \<Rightarrow> bool) \<Rightarrow> nat list \<Rightarrow> VulnFinding list \<Rightarrow> nat \<Rightarrow> VulnFinding list" where
  "compact keep [] arr k = take k arr"
| "compact keep (i # idxs) arr k =
     (if \<not> keep i then compact keep idxs arr k
      else let f = arr ! i
           in compact keep idxs (arr[k := f\<lparr>vf_Aliases := sortStrings (alias_set arr keep i f)\<rparr>]) (Suc k))"

definition dedupeAliased :: "VulnFinding list \<Rightarrow> VulnFinding list option" where
  "dedupeAliased findings =
     (if length findings \<le> 1 then Some findings
      else map_option (\<lambda>ws. compact (\<lambda>i. i \<in> set ws) [0..<length findings] findings 0)
             (all_winners findings (dedup (map vf_Package findings))))"

section \<open>Scanning the cache\<close>

datatype dir_outcome = NoDir | DirFailed err | Entries "(string \<times> bool) list"

fun scan_entries ::
  "semver_pkg \<Rightarrow> (nat \<Rightarrow> err option) \<Rightarrow> (string \<Rightarrow> advisory result) \<Rightarrow> (string \<Rightarrow> Dependency list) \<Rightarrow> nat
    \<Rightarrow> (string \<times> bool) list \<Rightarrow> VulnFinding list result" where
  "scan_entries sv ctx load byPkg n [] = Inr []"
| "scan_entries sv ctx load byPkg n ((name, isDir) # es) =
     (case ctx n of
        Some e \<Rightarrow> Inl e
      | None \<Rightarrow>
          if isDir \<or> \<not> HasSuffix name ''.json'' then scan_entries sv ctx load byPkg (Suc n) es
          else case load name of
                 Inl e \<Rightarrow> Inl (Wrap ''osv scan: %w'' [] e)
               | Inr adv \<Rightarrow>
                   bind_r (scan_entries sv ctx load byPkg (Suc n) es) (\<lambda>rest. Inr (matchAdvisory sv adv byPkg @ rest)))"

definition Adapter_Scan ::
  "semver_pkg \<Rightarrow> dir_outcome \<Rightarrow> (nat \<Rightarrow> err option) \<Rightarrow> (string \<Rightarrow> advisory result) \<Rightarrow> Dependency list
    \<Rightarrow> VulnFinding list result option" where
  "Adapter_Scan sv dir ctx load deps =
     (case dir of
        NoDir \<Rightarrow> Some (Inr [])
      | DirFailed e \<Rightarrow> Some (Inl (Wrap ''osv scan: read cache dir: %w'' [] e))
      | Entries es \<Rightarrow>
          if list_all (\<lambda>d. \<not> is_go (dq_Ecosystem d)) deps then Some (Inr [])
          else case scan_entries sv ctx load (byPackage deps) 0 es of
                 Inl e \<Rightarrow> Some (Inl e)
               | Inr findings \<Rightarrow> map_option Inr (dedupeAliased findings))"

section \<open>The insertion sort\<close>

lemma sink_insort:
  "length xs = i \<Longrightarrow> sorted xs \<Longrightarrow>
     \<exists>ys. sink i (xs @ y # rest) = ys @ rest \<and> sorted ys \<and> mset ys = mset (xs @ [y]) \<and> length ys = Suc i"
proof (induction i arbitrary: xs rest)
  case (Suc j)
  then obtain zs z where xs: "xs = zs @ [z]" "length zs = j" by (metis length_Suc_conv_rev)
  have nth: "(xs @ y # rest) ! j = z" "(xs @ y # rest) ! Suc j = y" using xs by (simp_all add: nth_append)
  have sz: "sorted zs" "\<forall>x \<in> set zs. x \<le> z" using Suc.prems(2) xs(1) by (auto simp: sorted_append)
  show ?case
  proof (cases "z > y")
    case True
    have "(xs @ y # rest)[j := y, Suc j := z] = zs @ y # z # rest" using xs by (simp add: list_update_append)
    then have step: "sink (Suc j) (xs @ y # rest) = sink j (zs @ y # z # rest)" using True nth by simp
    obtain ys where ys: "sink j (zs @ y # z # rest) = ys @ z # rest" "sorted ys" "mset ys = mset (zs @ [y])" "length ys = Suc j"
      using Suc.IH [OF xs(2) sz(1), of "z # rest"] by blast
    have "set ys = insert y (set zs)" using ys(3) by (metis set_mset_mset list.set(1,2) set_append Un_insert_right Un_empty_right)
    then have "sorted (ys @ [z])" using ys(2) sz(2) True by (auto simp: sorted_append)
    then show ?thesis using step ys xs by (intro exI [of _ "ys @ [z]"]) simp
  next
    case False
    then have "sorted (xs @ [y])" using sz xs(1) Suc.prems(2) by (force simp: sorted_append)
    then show ?thesis using False nth Suc.prems(1) by (intro exI [of _ "xs @ [y]"]) simp
  qed
qed auto

lemma sortStrings_eq: "sortStrings s = sort s"
proof -
  have "\<exists>ys. foldl (\<lambda>s i. sink i s) s [1..<n] = ys @ drop n s \<and> sorted ys \<and> mset ys = mset (take n s)"
    if "n \<le> length s" "n > 0" for n
    using that
  proof (induction n)
    case (Suc n)
    show ?case
    proof (cases "n = 0")
      case True
      then show ?thesis using Suc.prems by (cases s) auto
    next
      case False
      then obtain ys where ys: "foldl (\<lambda>s i. sink i s) s [1..<n] = ys @ drop n s" "sorted ys" "mset ys = mset (take n s)"
        using Suc by auto
      have n: "length ys = n" "drop n s = s ! n # drop (Suc n) s" using ys(3) Suc.prems
        by (metis Suc_le_lessD length_take min.absorb2 nless_le size_mset, simp add: Cons_nth_drop_Suc)
      obtain zs where "sink n (ys @ s ! n # drop (Suc n) s) = zs @ drop (Suc n) s" "sorted zs" "mset zs = mset (ys @ [s ! n])"
        using sink_insort [OF n(1) ys(2)] by blast
      then show ?thesis using ys n(2) False Suc.prems by (auto simp: take_Suc_conv_app_nth)
    qed
  qed simp
  from this [of "length s"] show ?thesis
    by (cases "s = []") (auto simp: sortStrings_def intro!: properties_for_sort [symmetric])
qed

section \<open>One advisory per vulnerability\<close>

interpretation alias_uf: disjoint_sets uf_find uf_union rootOf uf_wf "parent_array n"
proof unfold_locales
  have new: "root_of (parent_array n) x x" for x
    by (cases "x < n") (auto simp: parent_array_def intro: root_of.intros)
  show "uf_wf (parent_array n)" unfolding uf_wf_def using new by blast
  show "rootOf (parent_array n) x = x" for x using new by (rule rootOf_eq)
qed (rule uf_find_correct uf_union_correct, assumption)+

text \<open>Findings of the same package that a chain of aliases connects describe one vulnerability.\<close>

definition same_vuln :: "VulnFinding list \<Rightarrow> nat \<Rightarrow> nat \<Rightarrow> bool" where
  "same_vuln fs i j \<longleftrightarrow> vf_Package (fs ! i) = vf_Package (fs ! j)
     \<and> (i, j) \<in> connected_by (alias_pairs fs (pkg_indices fs (vf_Package (fs ! i))))"

text \<open>The representative: the lowest rank, and the first of those.\<close>

definition preferred :: "VulnFinding list \<Rightarrow> nat \<Rightarrow> nat \<Rightarrow> bool" where
  "preferred fs i j \<longleftrightarrow> advisoryRank (vf_AdvisoryID (fs ! i)) < advisoryRank (vf_AdvisoryID (fs ! j))
     \<or> advisoryRank (vf_AdvisoryID (fs ! i)) = advisoryRank (vf_AdvisoryID (fs ! j)) \<and> i \<le> j"

definition representative :: "VulnFinding list \<Rightarrow> nat \<Rightarrow> bool" where
  "representative fs i \<longleftrightarrow> i < length fs \<and> (\<forall>j < length fs. same_vuln fs i j \<longrightarrow> preferred fs i j)"

text \<open>What the loop over the indices of a package has found after those in \<open>xs\<close>.\<close>

definition best_inv :: "VulnFinding list \<Rightarrow> (nat \<Rightarrow> nat) \<Rightarrow> nat list \<Rightarrow> (nat, nat) gomap \<Rightarrow> bool" where
  "best_inv fs rt xs best \<longleftrightarrow> gm_wf best
     \<and> (\<forall>r. map_of best r = None \<longrightarrow> (\<forall>x \<in> set xs. rt x \<noteq> r))
     \<and> (\<forall>r w. map_of best r = Some w \<longrightarrow> w \<in> set xs \<and> rt w = r \<and> (\<forall>x \<in> set xs. rt x = r \<longrightarrow> preferred fs w x))"

lemma preferred_refl [simp]: "preferred fs i i"
  by (simp add: preferred_def)

lemma preferred_antisym: "preferred fs i j \<Longrightarrow> preferred fs j i \<Longrightarrow> i = j"
  by (auto simp: preferred_def)

lemma best_step:
  assumes inv: "best_inv fs rt xs best" and later: "\<forall>x \<in> set xs. x < i"
  shows "best_inv fs rt (xs @ [i])
    (case map_of best (rt i) of
       None \<Rightarrow> gm_put (rt i) i best
     | Some cur \<Rightarrow> if advisoryRank (vf_AdvisoryID (fs ! i)) < advisoryRank (vf_AdvisoryID (fs ! cur))
                   then gm_put (rt i) i best else best)"
proof (cases "map_of best (rt i)")
  case None
  then have "\<forall>x \<in> set xs. rt x \<noteq> rt i" using inv by (simp add: best_inv_def)
  then show ?thesis using inv None by (auto simp: best_inv_def gomap_simps)
next
  case (Some cur)
  then have cur: "cur \<in> set xs" "rt cur = rt i" "\<forall>x \<in> set xs. rt x = rt i \<longrightarrow> preferred fs cur x"
    using inv unfolding best_inv_def by blast+
  show ?thesis
  proof (cases "advisoryRank (vf_AdvisoryID (fs ! i)) < advisoryRank (vf_AdvisoryID (fs ! cur))")
    case True
    then have "\<forall>x \<in> set xs. rt x = rt i \<longrightarrow> preferred fs i x" using cur(3) by (auto simp: preferred_def)
    then show ?thesis using inv True Some by (auto simp: best_inv_def gomap_simps split: if_splits)
  next
    case False
    then have "preferred fs cur i" using later cur(1) by (auto simp: preferred_def)
    then show ?thesis using inv False Some by (auto simp: best_inv_def)
  qed
qed

lemma best_loop_inv:
  assumes "uf_wf u" "rootOf u = rt" "best_inv fs rt xs best" "sorted_wrt (<) ys" "\<forall>x \<in> set xs. \<forall>y \<in> set ys. x < y"
  shows "\<exists>best'. best_loop fs ys u best = Some best' \<and> best_inv fs rt (xs @ ys) best'"
  using assms
proof (induction ys arbitrary: u xs best)
  case (Cons i ys)
  obtain u' where u': "uf_find u i = Some (u', rt i)" "uf_wf u'" "rootOf u' = rt"
    using uf_find_correct [OF Cons.prems(1), of i] Cons.prems(2) by auto
  have "\<forall>x \<in> set xs. x < i" using Cons.prems(5) by simp
  from Cons.IH [OF u'(2,3) best_step [OF Cons.prems(3) this]] Cons.prems(4,5)
  show ?case using u'(1) by auto
qed auto

lemma representative_in_package:
  "representative fs w \<and> vf_Package (fs ! w) = pkg \<longleftrightarrow>
     w \<in> set (pkg_indices fs pkg)
     \<and> (\<forall>x \<in> set (pkg_indices fs pkg). (w, x) \<in> connected_by (alias_pairs fs (pkg_indices fs pkg)) \<longrightarrow> preferred fs w x)"
  by (auto simp: representative_def same_vuln_def pkg_indices_def)

lemma pkg_winners_representatives:
  "\<exists>ws. pkg_winners fs pkg = Some ws
     \<and> set ws = {i. representative fs i \<and> vf_Package (fs ! i) = pkg}"
proof -
  let ?idxs = "pkg_indices fs pkg"
  obtain u where u: "union_all uf_union (alias_pairs fs ?idxs) (parent_array (length fs)) = Some u" "uf_wf u"
    "\<And>x y. rootOf u x = rootOf u y \<longleftrightarrow> (x, y) \<in> connected_by (alias_pairs fs ?idxs)"
    using alias_uf.union_all_components [of "alias_pairs fs ?idxs" "length fs"] by blast
  have "sorted_wrt (<) ?idxs" by (simp add: pkg_indices_def sorted_wrt_filter)
  then obtain best where best: "best_loop fs ?idxs u [] = Some best" "best_inv fs (rootOf u) ?idxs best"
    using best_loop_inv [OF u(2) refl, of fs "[]" "[]" ?idxs] by (auto simp: best_inv_def gm_wf_def)
  have "w \<in> set (map snd best) \<longleftrightarrow> representative fs w \<and> vf_Package (fs ! w) = pkg" for w
  proof -
    have "w \<in> set (map snd best) \<longleftrightarrow> (\<exists>r. map_of best r = Some w)"
      using best(2) by (force simp: best_inv_def gm_wf_def)
    also have "\<dots> \<longleftrightarrow> w \<in> set ?idxs \<and> (\<forall>x \<in> set ?idxs. rootOf u x = rootOf u w \<longrightarrow> preferred fs w x)"
    proof
      assume "\<exists>r. map_of best r = Some w"
      then show "w \<in> set ?idxs \<and> (\<forall>x \<in> set ?idxs. rootOf u x = rootOf u w \<longrightarrow> preferred fs w x)"
        using best(2) unfolding best_inv_def by blast
    next
      assume w: "w \<in> set ?idxs \<and> (\<forall>x \<in> set ?idxs. rootOf u x = rootOf u w \<longrightarrow> preferred fs w x)"
      then obtain v where v: "map_of best (rootOf u w) = Some v" using best(2) unfolding best_inv_def by fastforce
      then have "preferred fs v w" "preferred fs w v" using best(2) w unfolding best_inv_def by blast+
      then show "\<exists>r. map_of best r = Some w" using v preferred_antisym by blast
    qed
    also have "\<dots> \<longleftrightarrow> representative fs w \<and> vf_Package (fs ! w) = pkg"
      unfolding representative_in_package u(3) [symmetric] by (metis (no_types))
    finally show ?thesis .
  qed
  then show ?thesis using u(1) best(1) by (auto simp: pkg_winners_def Let_def)
qed

lemma all_winners_representatives:
  "\<exists>ws. all_winners fs ps = Some ws \<and> set ws = {i. representative fs i \<and> vf_Package (fs ! i) \<in> set ps}"
proof (induction ps)
  case (Cons p ps)
  then obtain ws where ws: "all_winners fs ps = Some ws" "set ws = {i. representative fs i \<and> vf_Package (fs ! i) \<in> set ps}" by blast
  obtain vs where vs: "pkg_winners fs p = Some vs" "set vs = {i. representative fs i \<and> vf_Package (fs ! i) = p}"
    using pkg_winners_representatives by blast
  then show ?case using ws by auto
qed simp

text \<open>A finding without its list of aliases, which the compaction rewrites.\<close>

abbreviation ident :: "VulnFinding \<Rightarrow> VulnFinding" where
  "ident f \<equiv> f\<lparr>vf_Aliases := []\<rparr>"

lemma compact_ident:
  assumes "k \<le> i" "i \<le> n" "length arr = n" "length fs = n" "\<forall>j. i \<le> j \<and> j < n \<longrightarrow> arr ! j = fs ! j"
  shows "map ident (compact keep [i..<n] arr k) = map ident (take k arr) @ map (\<lambda>j. ident (fs ! j)) (filter keep [i..<n])"
  using assms
proof (induction "n - i" arbitrary: i k arr)
  case (Suc d)
  then have i: "i < n" "[i..<n] = i # [Suc i..<n]" by (auto simp: upt_conv_Cons)
  show ?case
  proof (cases "keep i")
    case False
    then show ?thesis using Suc.hyps(1) [of "Suc i" k arr] Suc.hyps(2) Suc.prems i by auto
  next
    case True
    let ?f = "(arr ! i)\<lparr>vf_Aliases := sortStrings (alias_set arr keep i (arr ! i))\<rparr>"
    have "map ident (compact keep [Suc i..<n] (arr[k := ?f]) (Suc k))
        = map ident (take (Suc k) (arr[k := ?f])) @ map (\<lambda>j. ident (fs ! j)) (filter keep [Suc i..<n])"
      by (rule Suc.hyps(1)) (use Suc.hyps(2) Suc.prems i in auto)
    moreover have "take (Suc k) (arr[k := ?f]) = take k arr @ [?f]" using Suc.prems i by (simp add: take_Suc_conv_app_nth)
    moreover have "arr ! i = fs ! i" using Suc.prems i by simp
    ultimately show ?thesis using True i by (simp add: Let_def)
  qed
qed auto

lemma dedupe_ident:
  "\<exists>out. dedupeAliased fs = Some out
     \<and> map ident out = map (\<lambda>i. ident (fs ! i)) (filter (representative fs) [0..<length fs])"
proof (cases "length fs \<le> 1")
  case True
  then consider "fs = []" | f where "fs = [f]" by (cases fs) auto
  then show ?thesis
  proof cases
    case 2
    then have "representative fs 0" by (simp add: representative_def)
    then show ?thesis using 2 by (simp add: dedupeAliased_def)
  qed (simp add: dedupeAliased_def)
next
  case False
  have every: "{i. representative fs i \<and> vf_Package (fs ! i) \<in> set (dedup (map vf_Package fs))} = {i. representative fs i}"
    by (auto simp: representative_def)
  obtain ws where ws: "all_winners fs (dedup (map vf_Package fs)) = Some ws" "set ws = {i. representative fs i}"
    using all_winners_representatives [of fs "dedup (map vf_Package fs)"] unfolding every by blast
  have "map ident (compact (\<lambda>i. i \<in> set ws) [0..<length fs] fs 0)
      = map (\<lambda>i. ident (fs ! i)) (filter (\<lambda>i. i \<in> set ws) [0..<length fs])"
    using compact_ident [of 0 0 "length fs" fs fs] by simp
  then show ?thesis using False ws by (simp add: dedupeAliased_def)
qed

lemma same_vuln_equiv:
  "same_vuln fs i i" "same_vuln fs i j \<Longrightarrow> same_vuln fs j i" "same_vuln fs i j \<Longrightarrow> same_vuln fs j k \<Longrightarrow> same_vuln fs i k"
  using connected_sym by (fastforce simp: same_vuln_def intro: rtrancl_trans)+

lemma representative_unique:
  "representative fs i \<Longrightarrow> representative fs j \<Longrightarrow> same_vuln fs i j \<Longrightarrow> i = j"
  using preferred_antisym same_vuln_equiv(2) unfolding representative_def by metis

lemma representative_exists:
  assumes "i < length fs"
  shows "\<exists>j. representative fs j \<and> same_vuln fs i j"
proof -
  let ?S = "{j. j < length fs \<and> same_vuln fs i j}"
  let ?m = "\<lambda>j. (advisoryRank (vf_AdvisoryID (fs ! j))) * length fs + j"
  have "i \<in> ?S" using assms same_vuln_equiv(1) by simp
  then obtain j where j: "j \<in> ?S" "\<And>k. k \<in> ?S \<Longrightarrow> ?m j \<le> ?m k" using exists_least_iff [of "\<lambda>m. \<exists>j \<in> ?S. ?m j = m"]
    by (metis (no_types, lifting) linorder_not_less)
  have "preferred fs j k" if k: "k < length fs" "same_vuln fs j k" for k
  proof -
    let ?r = "\<lambda>x. advisoryRank (vf_AdvisoryID (fs ! x))"
    have "same_vuln fs i k" using j(1) k(2) same_vuln_equiv(3) [of fs i j k] by simp
    then have le: "?r j * length fs + j \<le> ?r k * length fs + k" using j(2) k(1) by simp
    have "\<not> ?r k < ?r j"
    proof
      assume "?r k < ?r j"
      then have "Suc (?r k) * length fs \<le> ?r j * length fs" by (intro mult_le_mono1) simp
      then show False using le k(1) by simp
    qed
    then show ?thesis using le by (cases "?r j = ?r k") (auto simp: preferred_def)
  qed
  then show ?thesis using j(1) by (auto simp: representative_def)
qed

section \<open>Affected versions\<close>

definition opens :: "semver_pkg \<Rightarrow> string \<Rightarrow> osvEvent \<Rightarrow> bool" where
  "opens sv v e \<longleftrightarrow> oe_Introduced e = ''0''
     \<or> oe_Introduced e \<noteq> [] \<and> sv_Compare sv v (normalizeSemver (oe_Introduced e)) \<ge> 0"

definition closes :: "semver_pkg \<Rightarrow> string \<Rightarrow> osvEvent \<Rightarrow> bool" where
  "closes sv v e \<longleftrightarrow> oe_Introduced e = []
     \<and> (if oe_Fixed e \<noteq> [] then sv_Compare sv v (normalizeSemver (oe_Fixed e)) \<ge> 0
        else oe_LastAffected e \<noteq> [] \<and> sv_Compare sv v (normalizeSemver (oe_LastAffected e)) > 0)"

text \<open>A closing event lies before an introduction, so that the introduction opens the range again.\<close>

definition ends_before :: "semver_pkg \<Rightarrow> osvEvent \<Rightarrow> osvEvent \<Rightarrow> bool" where
  "ends_before sv c e \<longleftrightarrow> oe_Introduced e \<noteq> ''0''
     \<and> (if oe_Fixed c \<noteq> [] then sv_Compare sv (normalizeSemver (oe_Fixed c)) (normalizeSemver (oe_Introduced e)) \<le> 0
        else sv_Compare sv (normalizeSemver (oe_LastAffected c)) (normalizeSemver (oe_Introduced e)) < 0)"

definition in_version_order :: "semver_pkg \<Rightarrow> osvEvent list \<Rightarrow> bool" where
  "in_version_order sv evs \<longleftrightarrow>
     (\<forall>j < length evs. \<forall>i < j.
        (oe_Introduced (evs ! i) \<noteq> [] \<and> oe_Introduced (evs ! j) = [] \<longrightarrow> \<not> ends_before sv (evs ! j) (evs ! i))
        \<and> (oe_Introduced (evs ! i) = [] \<and> oe_Introduced (evs ! j) \<noteq> [] \<longrightarrow> ends_before sv (evs ! i) (evs ! j)))"

text \<open>The meaning of a range that does not depend on the order its events are listed in.\<close>

definition affected_by :: "semver_pkg \<Rightarrow> string \<Rightarrow> osvEvent list \<Rightarrow> bool" where
  "affected_by sv v evs \<longleftrightarrow> (\<exists>e \<in> set evs. opens sv v e \<and> (\<forall>c \<in> set evs. closes sv v c \<longrightarrow> ends_before sv c e))"

lemma event_step_eq: "event_step sv v a e = (if opens sv v e then True else if closes sv v e then False else a)"
  by (simp add: event_step_def opens_def closes_def)

lemma not_opens_closes: "opens sv v e \<Longrightarrow> closes sv v e \<Longrightarrow> False"
  by (auto simp: opens_def closes_def)

text \<open>The last event that applies decides.\<close>

lemma fold_events:
  "foldl (event_step sv v) False evs \<longleftrightarrow>
     (\<exists>i < length evs. opens sv v (evs ! i) \<and> (\<forall>j < length evs. i < j \<longrightarrow> \<not> closes sv v (evs ! j)))"
proof (induction evs rule: rev_induct)
  case (snoc e evs)
  show ?case
  proof (cases "opens sv v e")
    case True
    then show ?thesis by (auto simp: event_step_eq intro!: exI [of _ "length evs"])
  next
    case False
    have "(\<exists>i < length (evs @ [e]). opens sv v ((evs @ [e]) ! i) \<and> (\<forall>j < length (evs @ [e]). i < j \<longrightarrow> \<not> closes sv v ((evs @ [e]) ! j)))
        \<longleftrightarrow> \<not> closes sv v e \<and> (\<exists>i < length evs. opens sv v (evs ! i) \<and> (\<forall>j < length evs. i < j \<longrightarrow> \<not> closes sv v (evs ! j)))"
      using False by (auto simp: less_Suc_eq nth_append)
    then show ?thesis using snoc False by (auto simp: event_step_eq)
  qed
qed simp

lemma ordered_events:
  assumes "in_version_order sv evs"
  shows "foldl (event_step sv v) False evs \<longleftrightarrow> affected_by sv v evs"
proof
  assume "foldl (event_step sv v) False evs"
  then obtain i where i: "i < length evs" "opens sv v (evs ! i)" "\<forall>j < length evs. i < j \<longrightarrow> \<not> closes sv v (evs ! j)"
    unfolding fold_events by blast
  have "ends_before sv (evs ! j) (evs ! i)" if j: "j < length evs" "closes sv v (evs ! j)" for j
  proof -
    have "j < i" using i j not_opens_closes by (metis linorder_neqE_nat)
    then show ?thesis using assms i(1,2) j(2) by (auto simp: in_version_order_def opens_def closes_def)
  qed
  then have "\<forall>c \<in> set evs. closes sv v c \<longrightarrow> ends_before sv c (evs ! i)" by (metis in_set_conv_nth)
  then show "affected_by sv v evs" using i(1,2) unfolding affected_by_def by (meson nth_mem)
next
  assume "affected_by sv v evs"
  then obtain i where i: "i < length evs" "opens sv v (evs ! i)" "\<forall>c \<in> set evs. closes sv v c \<longrightarrow> ends_before sv c (evs ! i)"
    unfolding affected_by_def by (metis in_set_conv_nth)
  have "\<not> closes sv v (evs ! j)" if j: "j < length evs" "i < j" for j
  proof
    assume c: "closes sv v (evs ! j)"
    have "oe_Introduced (evs ! i) \<noteq> []" "oe_Introduced (evs ! j) = []" using i(2) c by (auto simp: opens_def closes_def)
    then have "\<not> ends_before sv (evs ! j) (evs ! i)" using assms j unfolding in_version_order_def by blast
    then show False using i(3) c j(1) by simp
  qed
  then show "foldl (event_step sv v) False evs" using i(1,2) unfolding fold_events by blast
qed

text \<open>
  C12. A valid version is affected exactly if, in some semantic-version range, an introduction at or
  below it is not followed by a fix at or below it or a last affected version below it, provided
  that the advisory lists the events of each range in version order.
\<close>

theorem version_affected_exact:
  assumes "sv_IsValid sv (normalizeSemver version)" and "\<forall>r \<in> set ranges. in_version_order sv (or_Events r)"
  shows "versionAffected sv version ranges \<longleftrightarrow>
    (\<exists>r \<in> set ranges. (or_Type r = [] \<or> or_Type r = ''SEMVER'') \<and> affected_by sv (normalizeSemver version) (or_Events r))"
  using assms ordered_events [of sv _ "normalizeSemver version"]
  by (auto simp: versionAffected_def Let_def list_ex_iff semver_range_def)

text \<open>What is relied on of the comparison: a total preorder with the sign of the order.\<close>

definition semver_laws :: "semver_pkg \<Rightarrow> bool" where
  "semver_laws sv \<longleftrightarrow> (\<forall>v w. sv_Compare sv w v = - sv_Compare sv v w)
     \<and> (\<forall>u v w. sv_Compare sv u v \<le> 0 \<longrightarrow> sv_Compare sv v w \<le> 0 \<longrightarrow> sv_Compare sv u w \<le> 0)"

text \<open>The published fixes above the current version.\<close>

definition fixes_above :: "semver_pkg \<Rightarrow> string \<Rightarrow> osvEvent list \<Rightarrow> string set" where
  "fixes_above sv cur evs = {f. \<exists>e \<in> set evs. oe_Fixed e \<noteq> [] \<and> f = normalizeSemver (oe_Fixed e) \<and> sv_IsValid sv f
     \<and> \<not> (sv_IsValid sv cur \<and> sv_Compare sv f cur \<le> 0)}"

lemma normalize_nonempty: "v \<noteq> [] \<Longrightarrow> normalizeSemver v \<noteq> []"
  by (simp add: normalizeSemver_def)

lemma fix_fold:
  assumes laws: "semver_laws sv"
  shows "(foldl (fix_step sv cur) [] evs = [] \<longleftrightarrow> fixes_above sv cur evs = {})
    \<and> (foldl (fix_step sv cur) [] evs \<noteq> [] \<longrightarrow> foldl (fix_step sv cur) [] evs \<in> fixes_above sv cur evs
        \<and> (\<forall>f \<in> fixes_above sv cur evs. sv_Compare sv (foldl (fix_step sv cur) [] evs) f \<le> 0))"
proof (induction evs rule: rev_induct)
  case Nil
  show ?case by (simp add: fixes_above_def)
next
  case (snoc e evs)
  let ?b = "foldl (fix_step sv cur) [] evs" and ?f = "normalizeSemver (oe_Fixed e)"
  define new where "new \<longleftrightarrow> oe_Fixed e \<noteq> [] \<and> sv_IsValid sv ?f \<and> \<not> (sv_IsValid sv cur \<and> sv_Compare sv ?f cur \<le> 0)"
  have S: "fixes_above sv cur (evs @ [e]) = (if new then insert ?f (fixes_above sv cur evs) else fixes_above sv cur evs)"
    by (auto simp: fixes_above_def new_def)
  have B: "foldl (fix_step sv cur) [] (evs @ [e]) = (if new \<and> (?b = [] \<or> sv_Compare sv ?f ?b < 0) then ?f else ?b)"
    by (simp add: fix_step_def Let_def new_def)
  have anti: "sv_Compare sv w v = - sv_Compare sv v w"
    and trans: "sv_Compare sv u v \<le> 0 \<Longrightarrow> sv_Compare sv v w \<le> 0 \<Longrightarrow> sv_Compare sv u w \<le> 0" for u v w
    using laws unfolding semver_laws_def by blast+
  have refl: "sv_Compare sv v v \<le> 0" for v using anti [of v v] by linarith
  have total: "\<not> sv_Compare sv v w < 0 \<Longrightarrow> sv_Compare sv w v \<le> 0" for v w using anti [of w v] by linarith
  show ?case
  proof (cases new)
    case False
    then show ?thesis using snoc unfolding S B by simp
  next
    case True
    then have ne: "?f \<noteq> []" using normalize_nonempty by (simp add: new_def)
    have S': "fixes_above sv cur (evs @ [e]) = insert ?f (fixes_above sv cur evs)"
      and B': "foldl (fix_step sv cur) [] (evs @ [e]) = (if ?b = [] \<or> sv_Compare sv ?f ?b < 0 then ?f else ?b)"
      unfolding S B using True by simp_all
    consider "?b = []" | "?b \<noteq> []" "sv_Compare sv ?f ?b < 0" | "?b \<noteq> []" "\<not> sv_Compare sv ?f ?b < 0" by blast
    then show ?thesis
    proof cases
      case 1
      then show ?thesis using snoc ne refl unfolding S' B' by simp
    next
      case 2
      then have "\<forall>f \<in> fixes_above sv cur evs. sv_Compare sv ?f f \<le> 0" using snoc trans [of ?f ?b] by fastforce
      then show ?thesis using 2 ne refl unfolding S' B' by simp
    next
      case 3
      then show ?thesis using snoc total [of ?f ?b] unfolding S' B' by simp
    qed
  qed
qed

text \<open>
  C13. The version a finding proposes as fix is the lowest published fix above the current version,
  over all semantic-version ranges of the advisory, and it is empty exactly if there is none.
\<close>

theorem fix_version_exact:
  assumes "semver_laws sv"
  shows "let fixes = fixes_above sv (normalizeSemver current) (concat (map or_Events (filter semver_range ranges)));
             best = minFixedAbove sv current ranges
    in (best = [] \<longleftrightarrow> fixes = {})
       \<and> (best \<noteq> [] \<longrightarrow> best \<in> fixes \<and> (\<forall>f \<in> fixes. sv_Compare sv best f \<le> 0))"
  using fix_fold [OF assms] by (simp add: minFixedAbove_def Let_def)

text \<open>
  C11. Of the advisories that match a package, deduplication keeps exactly one for each group that a
  chain of aliases connects: the one with the most widely recognized kind of identifier, and of
  those the first. Nothing but the list of aliases of a kept advisory changes, and the order stays.
\<close>

theorem alias_dedup_exact:
  "(\<exists>out. dedupeAliased fs = Some out
      \<and> map ident out = map (\<lambda>i. ident (fs ! i)) (filter (representative fs) [0..<length fs]))
   \<and> (\<forall>i < length fs. \<exists>!j. representative fs j \<and> same_vuln fs i j)"
proof (intro conjI allI impI dedupe_ident)
  fix i
  assume "i < length fs"
  then obtain j where j: "representative fs j" "same_vuln fs i j" using representative_exists by blast
  show "\<exists>!j. representative fs j \<and> same_vuln fs i j"
  proof (rule ex1I [of _ j])
    fix k
    assume k: "representative fs k \<and> same_vuln fs i k"
    then have "same_vuln fs k j" using j(2) same_vuln_equiv(2,3) by blast
    then show "k = j" using k j(1) representative_unique by blast
  qed (use j in blast)
qed

section \<open>Identifiers lost by the compaction\<close>

definition vuln_of :: "string \<Rightarrow> string list \<Rightarrow> VulnFinding" where
  "vuln_of aid aliases = \<lparr>vf_AdvisoryID = aid, vf_Package = ''p'', vf_AffectedRange = [], vf_Severity = [], vf_Summary = [],
     vf_FixedVersion = [], vf_Aliases = aliases\<rparr>"

text \<open>The array while the loop runs: the slots of the result so far hold kept findings, the rest is as it was.\<close>

definition half_compacted :: "(nat \<Rightarrow> bool) \<Rightarrow> VulnFinding list \<Rightarrow> VulnFinding list \<Rightarrow> nat \<Rightarrow> bool" where
  "half_compacted keep fs arr k \<longleftrightarrow> length arr = length fs \<and> (\<forall>p. k \<le> p \<and> p < length fs \<longrightarrow> arr ! p = fs ! p)
     \<and> (\<forall>p < k. \<exists>q < length fs. keep q \<and> vf_AdvisoryID (arr ! p) = vf_AdvisoryID (fs ! q))"

lemma compact_keeps_front: "p < k \<Longrightarrow> k \<le> i \<Longrightarrow> i \<le> length arr \<Longrightarrow> compact keep [i..<length arr] arr k ! p = arr ! p
    \<and> p < length (compact keep [i..<length arr] arr k)"
proof (induction "length arr - i" arbitrary: i k arr)
  case (Suc d)
  then have i: "i < length arr" "[i..<length arr] = i # [Suc i..<length arr]" by (auto simp: upt_conv_Cons)
  let ?f = "(arr ! i)\<lparr>vf_Aliases := sortStrings (alias_set arr keep i (arr ! i))\<rparr>"
  show ?case using Suc.hyps(1) [of "arr[k := ?f]" "Suc i" "Suc k"] Suc.hyps(1) [of arr "Suc i" k] Suc.hyps(2) Suc.prems i
    by (cases "keep i") (auto simp: Let_def)
qed simp

lemma compact_nth:
  assumes "half_compacted keep fs arr k" "k \<le> i" "i \<le> w" "w < length fs" "keep w"
  shows "\<exists>arr'. half_compacted keep fs arr' (k + length (filter keep [i..<w]))
    \<and> compact keep [i..<length fs] arr k ! (k + length (filter keep [i..<w]))
        = (fs ! w)\<lparr>vf_Aliases := sortStrings (alias_set arr' keep w (fs ! w))\<rparr>
    \<and> k + length (filter keep [i..<w]) < length (compact keep [i..<length fs] arr k)"
  using assms
proof (induction "w - i" arbitrary: i k arr)
  case 0
  then have w: "i = w" "[w..<length fs] = w # [Suc w..<length fs]" "arr ! w = fs ! w" "length arr = length fs" "k < length arr"
    by (auto simp: upt_conv_Cons half_compacted_def)
  let ?f = "(arr ! w)\<lparr>vf_Aliases := sortStrings (alias_set arr keep w (arr ! w))\<rparr>"
  show ?case using compact_keeps_front [of k "Suc k" "Suc w" "arr[k := ?f]" keep] 0 w by (auto simp: Let_def)
next
  case (Suc d)
  then have i: "i < w" "[i..<length fs] = i # [Suc i..<length fs]" "[i..<w] = i # [Suc i..<w]" by (auto simp: upt_conv_Cons)
  let ?f = "(arr ! i)\<lparr>vf_Aliases := sortStrings (alias_set arr keep i (arr ! i))\<rparr>"
  show ?case
  proof (cases "keep i")
    case False
    then show ?thesis using Suc.hyps(1) [of "Suc i" arr k] Suc.hyps(2) Suc.prems i by auto
  next
    case True
    have "\<exists>q < length fs. keep q \<and> vf_AdvisoryID (fs ! i) = vf_AdvisoryID (fs ! q)" using True i(1) Suc.prems by (intro exI [of _ i]) simp
    moreover have "arr ! i = fs ! i" using Suc.prems i(1) by (auto simp: half_compacted_def)
    ultimately have "half_compacted keep fs (arr[k := ?f]) (Suc k)"
      using Suc.prems i(1) True by (auto simp: half_compacted_def less_Suc_eq nth_list_update)
    then show ?thesis using Suc.hyps(1) [of "Suc i" "arr[k := ?f]" "Suc k"] Suc.hyps(2) Suc.prems i True by (auto simp: Let_def)
  qed
qed

lemma dedupe_winners:
  assumes "2 \<le> length fs"
  obtains ws where "set ws = {i. representative fs i}" "dedupeAliased fs = Some (compact (\<lambda>i. i \<in> set ws) [0..<length fs] fs 0)"
proof -
  have "{i. representative fs i \<and> vf_Package (fs ! i) \<in> set (dedup (map vf_Package fs))} = {i. representative fs i}"
    by (auto simp: representative_def)
  then obtain ws where "all_winners fs (dedup (map vf_Package fs)) = Some ws" "set ws = {i. representative fs i}"
    using all_winners_representatives [of fs "dedup (map vf_Package fs)"] by auto
  then show thesis using assms that by (simp add: dedupeAliased_def)
qed

lemma alias_recorded:
  assumes h: "half_compacted keep fs arr k" and d: "distinct (map vf_AdvisoryID fs)"
    and w: "w < length fs" "keep w" and j: "j < length fs" "\<not> keep j" "vf_Package (fs ! j) = vf_Package (fs ! w)"
      "vf_AdvisoryID (fs ! w) \<in> set (vf_Aliases (fs ! j))" "vf_AdvisoryID (fs ! j) \<notin> set (vf_Aliases (fs ! w))"
  shows "vf_AdvisoryID (fs ! j) \<in> set (alias_set arr keep w (fs ! w)) \<longleftrightarrow> k \<le> j"
proof -
  have same: "p = q" if "p < length fs" "q < length fs" "vf_AdvisoryID (fs ! p) = vf_AdvisoryID (fs ! q)" for p q
    using d that by (simp add: distinct_conv_nth) (metis)
  have "vf_AdvisoryID (fs ! j) \<in> set (alias_set arr keep w (fs ! w)) \<longleftrightarrow>
      (\<exists>p < length fs. p \<noteq> w \<and> \<not> keep p \<and> vf_Package (arr ! p) = vf_Package (fs ! w)
        \<and> vf_AdvisoryID (fs ! w) \<in> set (vf_Aliases (arr ! p)) \<and> vf_AdvisoryID (fs ! j) = vf_AdvisoryID (arr ! p))"
    using j(5) h by (auto simp: alias_set_def half_compacted_def Let_def)
  also have "\<dots> \<longleftrightarrow> k \<le> j"
  proof
    assume "\<exists>p < length fs. p \<noteq> w \<and> \<not> keep p \<and> vf_Package (arr ! p) = vf_Package (fs ! w)
        \<and> vf_AdvisoryID (fs ! w) \<in> set (vf_Aliases (arr ! p)) \<and> vf_AdvisoryID (fs ! j) = vf_AdvisoryID (arr ! p)"
    then obtain p where p: "p < length fs" "vf_AdvisoryID (fs ! j) = vf_AdvisoryID (arr ! p)" by blast
    show "k \<le> j"
    proof (cases "p < k")
      case True
      then obtain q where "q < length fs" "keep q" "vf_AdvisoryID (arr ! p) = vf_AdvisoryID (fs ! q)"
        using h by (auto simp: half_compacted_def)
      then show ?thesis using same [of j q] p(2) j(1,2) by auto
    next
      case False
      then have "arr ! p = fs ! p" using h p(1) by (simp add: half_compacted_def)
      then show ?thesis using same [of j p] p j(1) False by simp
    qed
  next
    assume "k \<le> j"
    then have "arr ! j = fs ! j" using h j(1) by (simp add: half_compacted_def)
    then show "\<exists>p < length fs. p \<noteq> w \<and> \<not> keep p \<and> vf_Package (arr ! p) = vf_Package (fs ! w)
        \<and> vf_AdvisoryID (fs ! w) \<in> set (vf_Aliases (arr ! p)) \<and> vf_AdvisoryID (fs ! j) = vf_AdvisoryID (arr ! p)"
      using j w by (intro exI [of _ j]) auto
  qed
  finally show ?thesis .
qed

text \<open>
  C35. A suppressed advisory can vanish without a trace. The kept advisories are moved to the front
  of the slice while the loop still reads it. Let distinct advisories contain a suppressed one that
  lists its representative as an alias and that the representative does not list. The
  representative gets the identifier of the suppressed one among its aliases exactly if the slot of
  the suppressed one has not been overwritten yet, that is if no more advisories are kept
  before the representative than come before the suppressed one; otherwise the identifier is lost.
\<close>

theorem suppressed_advisory_lost:
  assumes "distinct (map vf_AdvisoryID fs)" and "representative fs w"
    and "j < length fs" "\<not> representative fs j" "vf_Package (fs ! j) = vf_Package (fs ! w)"
    and "vf_AdvisoryID (fs ! w) \<in> set (vf_Aliases (fs ! j))" "vf_AdvisoryID (fs ! j) \<notin> set (vf_Aliases (fs ! w))"
    and "k = length (filter (representative fs) [0..<w])"
  shows "\<exists>out. dedupeAliased fs = Some out \<and> k < length out \<and> ident (out ! k) = ident (fs ! w)
    \<and> (vf_AdvisoryID (fs ! j) \<in> set (vf_Aliases (out ! k)) \<longleftrightarrow> k \<le> j)"
proof -
  have w: "w < length fs" using assms(2) by (simp add: representative_def)
  have "w \<noteq> j" using assms(2,4) by blast
  then have "2 \<le> length fs" using w assms(3) by linarith
  then obtain ws where ws: "set ws = {i. representative fs i}" "dedupeAliased fs = Some (compact (\<lambda>i. i \<in> set ws) [0..<length fs] fs 0)"
    by (rule dedupe_winners)
  then have keep: "(\<lambda>i. i \<in> set ws) = representative fs" by auto
  have "half_compacted (representative fs) fs fs 0" by (simp add: half_compacted_def)
  from compact_nth [OF this _ _ w assms(2)] obtain arr where arr: "half_compacted (representative fs) fs arr k"
    "compact (representative fs) [0..<length fs] fs 0 ! k = (fs ! w)\<lparr>vf_Aliases := sortStrings (alias_set arr (representative fs) w (fs ! w))\<rparr>"
    "k < length (compact (representative fs) [0..<length fs] fs 0)" using assms(8) by auto
  show ?thesis unfolding ws(2) keep using arr(2,3) alias_recorded [OF arr(1) assms(1) w assms(2-7)]
    by (simp add: sortStrings_eq)
qed

section \<open>Applications\<close>

text \<open>Versions written in unary.\<close>

definition unary_semver :: semver_pkg where
  "unary_semver = \<lparr>sv_IsValid = (\<lambda>v. HasPrefix v ''v''), sv_Compare = (\<lambda>v w. sgn (int (length v) - int (length w)))\<rparr>"

lemma unary_semver_laws: "semver_laws unary_semver"
  by (auto simp: semver_laws_def unary_semver_def sgn_if)

definition two_fixes :: osvRange where
  "two_fixes = \<lparr>or_Type = ''SEMVER'', or_Events =
     [\<lparr>oe_Introduced = ''0'', oe_Fixed = [], oe_LastAffected = []\<rparr>,
      \<lparr>oe_Introduced = [], oe_Fixed = ''11'', oe_LastAffected = []\<rparr>,
      \<lparr>oe_Introduced = ''111'', oe_Fixed = [], oe_LastAffected = []\<rparr>,
      \<lparr>oe_Introduced = [], oe_Fixed = ''11111'', oe_LastAffected = []\<rparr>]\<rparr>"

lemma two_fixes_ordered: "in_version_order unary_semver (or_Events two_fixes)"
  by (simp add: in_version_order_def two_fixes_def unary_semver_def ends_before_def normalizeSemver_def HasPrefix_def
      less_Suc_eq all_conj_distrib numeral_eq_Suc)

text \<open>A range whose events are listed out of order is read differently from its meaning.\<close>

lemma unordered_events_misread:
  "let evs = [\<lparr>oe_Introduced = [], oe_Fixed = ''111'', oe_LastAffected = []\<rparr>,
              \<lparr>oe_Introduced = ''11'', oe_Fixed = [], oe_LastAffected = []\<rparr>]
   in versionAffected unary_semver ''1111'' [\<lparr>or_Type = [], or_Events = evs\<rparr>] \<and> \<not> affected_by unary_semver ''v1111'' evs"
  by code_simp

theorem version_affected_exact_witness:
  "versionAffected unary_semver ''1111'' [two_fixes] \<and> \<not> versionAffected unary_semver ''11'' [two_fixes]
   \<and> affected_by unary_semver ''v1111'' (or_Events two_fixes) \<and> \<not> affected_by unary_semver ''v11'' (or_Events two_fixes)"
proof -
  have ord: "\<forall>r \<in> set [two_fixes]. in_version_order unary_semver (or_Events r)" using two_fixes_ordered by simp
  have v: "sv_IsValid unary_semver (normalizeSemver ''1111'')" "sv_IsValid unary_semver (normalizeSemver ''11'')"
    "normalizeSemver ''1111'' = ''v1111''" "normalizeSemver ''11'' = ''v11''" "or_Type two_fixes = ''SEMVER''"
    by (simp_all add: unary_semver_def normalizeSemver_def HasPrefix_def two_fixes_def)
  have "versionAffected unary_semver ''1111'' [two_fixes]" "\<not> versionAffected unary_semver ''11'' [two_fixes]" by code_simp+
  then show ?thesis using version_affected_exact [OF v(1) ord] version_affected_exact [OF v(2) ord] v(3-5) by simp
qed

theorem fix_version_exact_witness:
  "minFixedAbove unary_semver ''1'' [two_fixes] = ''v11'' \<and> minFixedAbove unary_semver ''1111'' [two_fixes] = ''v11111''
   \<and> ''v11'' \<in> fixes_above unary_semver ''v1'' (or_Events two_fixes)"
proof -
  have "minFixedAbove unary_semver ''1'' [two_fixes] = ''v11''" "minFixedAbove unary_semver ''1111'' [two_fixes] = ''v11111''"
    by code_simp+
  moreover have "concat (map or_Events (filter semver_range [two_fixes])) = or_Events two_fixes" "normalizeSemver ''1'' = ''v1''"
    by (simp_all add: semver_range_def two_fixes_def normalizeSemver_def HasPrefix_def)
  ultimately show ?thesis using fix_version_exact [OF unary_semver_laws, of "''1''" "[two_fixes]"] by (simp add: Let_def)
qed

theorem alias_dedup_exact_witness:
  "\<exists>out. dedupeAliased [vuln_of ''CVE-1'' [''GHSA-1''], vuln_of ''GHSA-1'' []] = Some out
     \<and> map vf_AdvisoryID out = [''GHSA-1'']
     \<and> (\<exists>!j. representative [vuln_of ''CVE-1'' [''GHSA-1''], vuln_of ''GHSA-1'' []] j
            \<and> same_vuln [vuln_of ''CVE-1'' [''GHSA-1''], vuln_of ''GHSA-1'' []] 0 j)"
proof -
  have "map_option (map vf_AdvisoryID) (dedupeAliased [vuln_of ''CVE-1'' [''GHSA-1''], vuln_of ''GHSA-1'' []]) = Some [''GHSA-1'']"
    by code_simp
  then show ?thesis using alias_dedup_exact [of "[vuln_of ''CVE-1'' [''GHSA-1''], vuln_of ''GHSA-1'' []]"] by auto
qed

definition shadowed :: "VulnFinding list" where
  "shadowed = [vuln_of ''CVE-1'' [''GHSA-1''], vuln_of ''CVE-2'' [], vuln_of ''GHSA-1'' []]"

theorem suppressed_advisory_lost_witness:
  "\<exists>out. dedupeAliased shadowed = Some out \<and> ident (out ! 1) = ident (vuln_of ''GHSA-1'' [])
    \<and> ''CVE-1'' \<notin> set (vf_Aliases (out ! 1))"
proof -
  have ids: "map_option (map vf_AdvisoryID) (dedupeAliased shadowed) = Some [''CVE-2'', ''GHSA-1'']" by code_simp
  obtain out where out: "dedupeAliased shadowed = Some out"
    "map ident out = map (\<lambda>i. ident (shadowed ! i)) (filter (representative shadowed) [0..<length shadowed])"
    using dedupe_ident [of shadowed] by blast
  have len: "length shadowed = 3" by (simp add: shadowed_def)
  have "map vf_AdvisoryID (map ident out) = [''CVE-2'', ''GHSA-1'']" using ids out(1) by (simp add: comp_def)
  then have "map (\<lambda>i. vf_AdvisoryID (shadowed ! i)) (filter (representative shadowed) [0..<3]) = [''CVE-2'', ''GHSA-1'']"
    unfolding out(2) len by (simp add: comp_def)
  then have rep: "\<not> representative shadowed 0" "representative shadowed 1" "representative shadowed 2"
    by (simp_all add: upt_rec shadowed_def vuln_of_def numeral_2_eq_2 split: if_splits)
  have d: "distinct (map vf_AdvisoryID shadowed)"
    and a: "0 < length shadowed" "vf_Package (shadowed ! 0) = vf_Package (shadowed ! 2)"
    "vf_AdvisoryID (shadowed ! 2) \<in> set (vf_Aliases (shadowed ! 0))" "vf_AdvisoryID (shadowed ! 0) \<notin> set (vf_Aliases (shadowed ! 2))"
    and at: "shadowed ! 2 = vuln_of ''GHSA-1'' []" "vf_AdvisoryID (shadowed ! 0) = ''CVE-1''"
    by code_simp+
  have k: "1 = length (filter (representative shadowed) [0..<2])" using rep by (simp add: upt_rec numeral_2_eq_2)
  show ?thesis using suppressed_advisory_lost [OF d rep(3) a(1) rep(1) a(2-4) k] unfolding at by auto
qed

end
