(* ===== verification/Vuln_Scan.thy ===== *)
theory Vuln_Scan
  imports Osv_Source
begin

text \<open>
  The vulnerability check (\<open>application/checks/vulnscan.go\<close>) over the manifest reader
  (\<open>application/manifest/manifest.go\<close>) and the advisory source, and the schedule of its refresh
  (\<open>application/vulnrefresh/refresher.go\<close>). Parsing of \<open>go.mod\<close> (\<open>golang.org/x/mod/modfile\<close>), the
  resolution of a repository root, the read of the file and the table of \<open>unicode.ToUpper\<close> are
  parameters.
\<close>

section \<open>The manifest\<close>

record go_require =
  gr_Path :: string
  gr_Version :: string
  gr_Line :: "int option"

record go_modfile =
  gf_Module :: "string option"
  gf_Require :: "go_require list"

type_synonym mod_parser = "string \<Rightarrow> go_modfile result"

definition ReadGoMod :: "mod_parser \<Rightarrow> string \<Rightarrow> Dependency list result" where
  "ReadGoMod parse content =
     (case parse content of
        Inl e \<Rightarrow> Inl (Wrap ''parse go.mod: %w'' [] e)
      | Inr f \<Rightarrow> Inr (map (\<lambda>r. \<lparr>dq_Ecosystem = ''Go'', dq_Name = gr_Path r, dq_Version = gr_Version r\<rparr>) (gf_Require f)))"

definition ReadGoModModulePath :: "mod_parser \<Rightarrow> string \<Rightarrow> string result" where
  "ReadGoModModulePath parse content =
     (case parse content of
        Inl e \<Rightarrow> Inl (Wrap ''parse go.mod: %w'' [] e)
      | Inr f \<Rightarrow> Inr (case gf_Module f of None \<Rightarrow> [] | Some p \<Rightarrow> p))"

section \<open>Findings for advisories\<close>

definition ToUpper :: "(nat \<Rightarrow> nat) \<Rightarrow> string \<Rightarrow> string" where
  "ToUpper unicodeUpper s = string_of_runes (map unicodeUpper (runes (bytes_of s)))"

definition mapSeverity :: "(nat \<Rightarrow> nat) \<Rightarrow> string \<Rightarrow> Severity" where
  "mapSeverity unicodeUpper label =
     (let l = ToUpper unicodeUpper (TrimSpace label)
      in if l = ''CRITICAL'' then SeverityCritical
         else if l = ''HIGH'' then SeverityHigh
         else if l = ''MEDIUM'' \<or> l = ''MODERATE'' then SeverityMedium
         else if l = ''LOW'' then SeverityLow
         else SeverityMedium)"

definition vuln_message :: "string \<Rightarrow> (string \<rightharpoonup> int) \<Rightarrow> VulnFinding \<Rightarrow> string" where
  "vuln_message manifestPath lineFor v =
     (case lineFor (vf_Package v) of Some ln \<Rightarrow> manifestPath @ '':'' @ int_to_string ln | None \<Rightarrow> manifestPath)
     @ '' ['' @ vf_AdvisoryID v @ ''] '' @ vf_Package v @ '': '' @ vf_Summary v @ '' (affected range '' @ vf_AffectedRange v @ '')''
     @ (if vf_Aliases v \<noteq> [] then ''; aliases: '' @ join '', '' (vf_Aliases v) else [])
     @ (if vf_FixedVersion v \<noteq> [] then ''; fix: go get '' @ vf_Package v @ ''@'' @ vf_FixedVersion v else [])"

definition vuln_finding ::
  "(nat \<Rightarrow> nat) \<Rightarrow> string \<Rightarrow> string \<Rightarrow> string \<Rightarrow> (string \<rightharpoonup> int) \<Rightarrow> VulnFinding \<Rightarrow> Finding result" where
  "vuln_finding unicodeUpper repoID branch manifestPath lineFor v =
     NewFinding
       \<lparr>fs_RepoID = repoID, fs_Branch = branch, fs_Severity = mapSeverity unicodeUpper (vf_Severity v), fs_Layer = LayerSecurity,
        fs_Rule = ''vulnerable_dependency'', fs_Message = vuln_message manifestPath lineFor v\<rparr>
       [WithFileAnchor manifestPath, WithFindingKey (repoID @ [NUL] @ vf_AdvisoryID v @ vf_Package v)]"

definition ScanManifestDeps ::
  "(nat \<Rightarrow> nat) \<Rightarrow> VulnSource \<Rightarrow> string \<Rightarrow> string \<Rightarrow> string \<Rightarrow> Dependency list \<Rightarrow> (string \<rightharpoonup> int) \<Rightarrow> Finding option list result" where
  "ScanManifestDeps unicodeUpper src repoID branch manifestPath deps lineFor =
     (case vs_Scan src deps of
        Inl e \<Rightarrow> Inl (Wrap ''vuln-scan: scan: %w'' [] e)
      | Inr vulns \<Rightarrow> Inr (collect_ok (vuln_finding unicodeUpper repoID branch manifestPath lineFor) vulns))"

section \<open>The check\<close>

datatype read_outcome = NotExist | ReadFailed err | Content string

record VulnScanCheck =
  vc_src :: "VulnSource option"
  vc_repoRoot :: "(string \<Rightarrow> string result) option"

definition VulnScanCheck_AuthoritativeRule :: "Input \<Rightarrow> string \<times> bool" where
  "VulnScanCheck_AuthoritativeRule inp =
     (if in_RepoID inp = [] \<or> in_Branch inp = [] then ([], False) else (''vulnerable_dependency'', True))"

definition require_lines :: "mod_parser \<Rightarrow> string \<Rightarrow> string \<rightharpoonup> int" where
  "require_lines parse content =
     (case parse content of
        Inl _ \<Rightarrow> Map.empty
      | Inr f \<Rightarrow> foldl (\<lambda>m r. case gr_Line r of Some l \<Rightarrow> if l > 0 then m(gr_Path r \<mapsto> l) else m | None \<Rightarrow> m)
                   Map.empty (gf_Require f))"

definition VulnScanCheck_Run ::
  "(nat \<Rightarrow> nat) \<Rightarrow> mod_parser \<Rightarrow> (string \<Rightarrow> read_outcome) \<Rightarrow> VulnScanCheck \<Rightarrow> Input \<Rightarrow> Finding option list result" where
  "VulnScanCheck_Run unicodeUpper parse readFile c inp =
     (case (vc_src c, vc_repoRoot c) of
        (Some src, Some repoRoot) \<Rightarrow>
          (case repoRoot (in_RepoID inp) of
             Inl e \<Rightarrow> Inl (Wrap ''vuln-scan: resolve repo root: %w'' [] e)
           | Inr root \<Rightarrow>
               (case readFile (path_Join2 root ''go.mod'') of
                  NotExist \<Rightarrow> Inr []
                | ReadFailed e \<Rightarrow> Inl (Wrap ''vuln-scan: read go.mod: %w'' [] e)
                | Content content \<Rightarrow>
                    (case ReadGoMod parse content of
                       Inl e \<Rightarrow> Inl (Wrap ''vuln-scan: parse go.mod: %w'' [] e)
                     | Inr deps \<Rightarrow>
                         ScanManifestDeps unicodeUpper src (in_RepoID inp) (in_Branch inp) ''go.mod'' deps (require_lines parse content))))
      | _ \<Rightarrow> Inl (Errorf ''vuln-scan: nil dependency'' []))"

definition vuln_check :: "(nat \<Rightarrow> nat) \<Rightarrow> mod_parser \<Rightarrow> (string \<Rightarrow> read_outcome) \<Rightarrow> VulnScanCheck \<Rightarrow> Check" where
  "vuln_check unicodeUpper parse readFile c =
     \<lparr>ck_Name = ''vuln-scan'', ck_Run = (\<lambda>inp. Returned (VulnScanCheck_Run unicodeUpper parse readFile c inp)),
      ck_AuthoritativeRule = Some VulnScanCheck_AuthoritativeRule\<rparr>"

text \<open>The advisory cache as a source; its scan always returns (\<open>Adapter_Scan_returns\<close>).\<close>

definition osv_source :: "semver_pkg \<Rightarrow> dir_outcome \<Rightarrow> (nat \<Rightarrow> err option) \<Rightarrow> (string \<Rightarrow> advisory result) \<Rightarrow> VulnSource" where
  "osv_source sv dir ctx load =
     \<lparr>vs_Refresh = None,
      vs_Scan = (\<lambda>deps. case Adapter_Scan sv dir ctx load deps of Some r \<Rightarrow> r | None \<Rightarrow> Inl (Errs ''no result''))\<rparr>"

section \<open>The refresh schedule\<close>

record Refresher =
  rf_interval :: int
  rf_callback :: bool
  rf_firstRefreshDone :: bool

definition DefaultInterval :: int where
  "DefaultInterval = 24 * 3600 * 1000000000"

definition WithInterval :: "int \<Rightarrow> Refresher \<Rightarrow> Refresher" where
  "WithInterval d r = (if d > 0 then r\<lparr>rf_interval := d\<rparr> else r)"

definition WithOnFirstRefreshOk :: "bool \<Rightarrow> Refresher \<Rightarrow> Refresher" where
  "WithOnFirstRefreshOk cb r = r\<lparr>rf_callback := cb\<rparr>"

definition SetOnFirstRefreshOk :: "bool \<Rightarrow> Refresher \<Rightarrow> Refresher" where
  "SetOnFirstRefreshOk cb r = r\<lparr>rf_callback := cb\<rparr>"

definition NewRefresher :: "VulnSource option \<Rightarrow> (Refresher \<Rightarrow> Refresher) list \<Rightarrow> Refresher result" where
  "NewRefresher source opts =
     (case source of
        None \<Rightarrow> Inl (Wrap ''vulnrefresh.NewRefresher: source is nil: %w'' [] (Errs ''vulnrefresh: missing required dependency''))
      | Some _ \<Rightarrow> Inr (foldl (\<lambda>r opt. opt r) \<lparr>rf_interval = DefaultInterval, rf_callback = False, rf_firstRefreshDone = False\<rparr> opts))"

text \<open>One refresh with its outcome; the second component says whether the callback fired.\<close>

definition refresh :: "err option \<Rightarrow> Refresher \<Rightarrow> Refresher \<times> bool" where
  "refresh outcome r =
     (case outcome of
        Some _ \<Rightarrow> (r, False)
      | None \<Rightarrow> if \<not> rf_firstRefreshDone r then (r\<lparr>rf_firstRefreshDone := True\<rparr>, rf_callback r) else (r, False))"

text \<open>A run: the refresh on entry and one per tick until the context ends, and how often the callback fired.\<close>

fun refresh_run :: "err option list \<Rightarrow> Refresher \<Rightarrow> Refresher \<times> nat" where
  "refresh_run [] r = (r, 0)"
| "refresh_run (o1 # os) r =
     (case refresh o1 r of (r', fired) \<Rightarrow>
        case refresh_run os r' of (r'', n) \<Rightarrow> (r'', (if fired then 1 else 0) + n))"

lemma refresh_fires_once:
  "snd (refresh_run outcomes r) = (if rf_callback r \<and> \<not> rf_firstRefreshDone r \<and> None \<in> set outcomes then 1 else 0)"
proof (induction outcomes arbitrary: r)
  case (Cons o1 os)
  show ?case by (cases o1) (simp_all add: Cons refresh_def split_beta)
qed simp

section \<open>What the check reports\<close>

lemma mapSeverity_valid [simp]: "Severity_valid (mapSeverity up label)"
  by (simp add: mapSeverity_def Let_def)

lemma vuln_finding_eq:
  assumes "manifestPath \<noteq> []"
  shows "vuln_finding up repoID branch manifestPath lineFor v =
    Inr ((blank_finding
      \<lparr>fs_RepoID = repoID, fs_Branch = branch, fs_Severity = mapSeverity up (vf_Severity v), fs_Layer = LayerSecurity,
       fs_Rule = ''vulnerable_dependency'', fs_Message = vuln_message manifestPath lineFor v\<rparr>)
      \<lparr>f_FilePath := Some manifestPath, f_findingKey := repoID @ [NUL] @ vf_AdvisoryID v @ vf_Package v,
       f_FindingID := DeriveFindingID ''vulnerable_dependency'' manifestPath (repoID @ [NUL] @ vf_AdvisoryID v @ vf_Package v)\<rparr>)"
  unfolding vuln_finding_def using assms by (subst NewFinding_file_key) simp_all

definition vuln_id :: "string \<Rightarrow> VulnFinding \<Rightarrow> string" where
  "vuln_id repoID v = DeriveFindingID ''vulnerable_dependency'' ''go.mod'' (repoID @ [NUL] @ vf_AdvisoryID v @ vf_Package v)"

lemma vuln_collect_ids:
  "f_FindingID ` {f. Some f \<in> set (collect_ok (vuln_finding up repoID branch ''go.mod'' lineFor) vulns)} = vuln_id repoID ` set vulns"
  by (force simp: set_collect_ok vuln_finding_eq vuln_id_def)

lemma vuln_collect_ours:
  "Some f \<in> set (collect_ok (vuln_finding up repoID branch ''go.mod'' lineFor) vulns)
   \<Longrightarrow> f_State f = FindingStateOpen \<and> f_RepoID f = repoID \<and> f_Branch f = branch \<and> f_Rule f = ''vulnerable_dependency''"
  by (auto simp: set_collect_ok vuln_finding_eq blank_finding_def)

text \<open>The advisories of the cache, in the order of its files.\<close>

definition cached_advisories :: "(string \<Rightarrow> advisory result) \<Rightarrow> (string \<times> bool) list \<Rightarrow> advisory list result" where
  "cached_advisories load es = map_r (\<lambda>e. load (fst e)) (filter (\<lambda>(name, isDir). \<not> isDir \<and> HasSuffix name ''.json'') es)"

lemma scan_entries_ok:
  "cached_advisories load es = Inr advs
   \<Longrightarrow> scan_entries sv (\<lambda>_. None) load byPkg n es = Inr (concat (map (\<lambda>adv. matchAdvisory sv adv byPkg) advs))"
proof (induction es arbitrary: n advs)
  case Nil
  then show ?case by (simp add: cached_advisories_def)
next
  case (Cons e es)
  obtain name isDir where e: "e = (name, isDir)" by (cases e)
  show ?case
  proof (cases "\<not> isDir \<and> HasSuffix name ''.json''")
    case False
    then show ?thesis using Cons e by (auto simp: cached_advisories_def)
  next
    case True
    then obtain adv rest where "load name = Inr adv" "cached_advisories load es = Inr rest" "advs = adv # rest"
      using Cons.prems e by (auto simp: cached_advisories_def split: sum.splits)
    then show ?thesis using Cons.IH [of rest] True e by (simp add: bind_r_def)
  qed
qed

text \<open>All matches of the cached advisories with the dependencies.\<close>

definition all_matches :: "semver_pkg \<Rightarrow> advisory list \<Rightarrow> Dependency list \<Rightarrow> VulnFinding list" where
  "all_matches sv advs deps = concat (map (\<lambda>adv. matchAdvisory sv adv (byPackage deps)) advs)"

lemma in_all_matches:
  "f \<in> set (all_matches sv advs deps) \<longleftrightarrow>
     (\<exists>adv \<in> set advs. \<exists>aff \<in> set (ad_Affected adv). \<exists>dep \<in> set deps.
        is_go (oa_Ecosystem aff) \<and> is_go (dq_Ecosystem dep) \<and> dq_Name dep = oa_Name aff
        \<and> versionAffected sv (dq_Version dep) (oa_Ranges aff) \<and> f = vuln_match sv adv aff dep)"
  by (auto simp: all_matches_def matchAdvisory_def byPackage_def)

lemma Adapter_Scan_returns: "\<exists>r. Adapter_Scan sv dir ctx load deps = Some r"
proof (cases dir)
  case (Entries es)
  show ?thesis
  proof (cases "scan_entries sv ctx load (byPackage deps) 0 es")
    case (Inr fs)
    then show ?thesis using dedupe_ident [of fs] Entries by (auto simp: Adapter_Scan_def)
  qed (simp add: Adapter_Scan_def Entries)
qed (simp_all add: Adapter_Scan_def)

text \<open>A scan of the cache returns the representatives of all matches.\<close>

lemma osv_scan_exact:
  assumes "cached_advisories load es = Inr advs"
  shows "\<exists>out. vs_Scan (osv_source sv (Entries es) (\<lambda>_. None) load) deps = Inr out
    \<and> map ident out = map (\<lambda>i. ident (all_matches sv advs deps ! i))
        (filter (representative (all_matches sv advs deps)) [0..<length (all_matches sv advs deps)])"
proof (cases "list_all (\<lambda>d. \<not> is_go (dq_Ecosystem d)) deps")
  case True
  then have "all_matches sv advs deps = []"
    using in_all_matches [of "hd (all_matches sv advs deps)" sv advs deps] list.set_sel(1) [of "all_matches sv advs deps"]
    by (auto simp: list_all_iff)
  then show ?thesis using True by (simp add: osv_source_def Adapter_Scan_def)
next
  case False
  obtain out where out: "dedupeAliased (all_matches sv advs deps) = Some out"
    "map ident out = map (\<lambda>i. ident (all_matches sv advs deps ! i))
        (filter (representative (all_matches sv advs deps)) [0..<length (all_matches sv advs deps)])"
    using dedupe_ident by blast
  have "scan_entries sv (\<lambda>_. None) load (byPackage deps) 0 es = Inr (all_matches sv advs deps)"
    using scan_entries_ok [OF assms] by (simp add: all_matches_def)
  then have "vs_Scan (osv_source sv (Entries es) (\<lambda>_. None) load) deps = Inr out"
    using False out(1) by (simp add: osv_source_def Adapter_Scan_def)
  then show ?thesis using out(2) by blast
qed

lemma vuln_id_ident [simp]: "vuln_id repoID (ident x) = vuln_id repoID x"
  by (simp add: vuln_id_def)

lemma ident_ids:
  assumes "map ident xs = map (\<lambda>i. ident (ys ! i)) is"
  shows "vuln_id repoID ` set xs = (\<lambda>i. vuln_id repoID (ys ! i)) ` set is"
proof -
  have "map (vuln_id repoID) (map ident xs) = map (vuln_id repoID) (map (\<lambda>i. ident (ys ! i)) is)" using assms by simp
  then have "map (vuln_id repoID) xs = map (\<lambda>i. vuln_id repoID (ys ! i)) is" by (simp add: o_def)
  then show ?thesis by (metis list.set_map)
qed

text \<open>
  C10. After the vulnerability check ran through the runner on a repository with a manifest, the open
  findings of its rule are exactly those of the representatives of all matches between the cached
  advisories and the required modules. In particular every required module in an affected range has
  an open finding, under the advisory itself or one that a chain of aliases connects to it.
\<close>

theorem vuln_findings_exact:
  assumes "gm_wf t" and "in_RepoID inp \<noteq> []" and "in_Branch inp \<noteq> []"
    and "repoRoot (in_RepoID inp) = Inr root" and "readFile (path_Join2 root ''go.mod'') = Content content"
    and "ReadGoMod parse content = Inr deps" and "cached_advisories load es = Inr advs"
  shows "\<exists>t'. runOne (\<lambda>_. None) (\<lambda>_. None) now inp
        (vuln_check up parse readFile \<lparr>vc_src = Some (osv_source sv (Entries es) (\<lambda>_. None) load), vc_repoRoot = Some repoRoot\<rparr>) (Some t) = Some t'
    \<and> {fid. repo_opened t' fid (in_Branch inp) = Some (in_RepoID inp, ''vulnerable_dependency'')}
       = (\<lambda>i. vuln_id (in_RepoID inp) (all_matches sv advs deps ! i)) ` {i. representative (all_matches sv advs deps) i}
    \<and> (\<forall>adv \<in> set advs. \<forall>aff \<in> set (ad_Affected adv). \<forall>dep \<in> set deps.
        is_go (oa_Ecosystem aff) \<and> dq_Name dep = oa_Name aff \<and> versionAffected sv (dq_Version dep) (oa_Ranges aff)
        \<longrightarrow> (\<exists>i j. all_matches sv advs deps ! i = vuln_match sv adv aff dep \<and> same_vuln (all_matches sv advs deps) i j
              \<and> repo_opened t' (vuln_id (in_RepoID inp) (all_matches sv advs deps ! j)) (in_Branch inp)
                = Some (in_RepoID inp, ''vulnerable_dependency'')))"
proof -
  let ?raw = "all_matches sv advs deps"
  let ?src = "osv_source sv (Entries es) (\<lambda>_. None) load"
  let ?c = "vuln_check up parse readFile \<lparr>vc_src = Some ?src, vc_repoRoot = Some repoRoot\<rparr>"
  let ?new = "vuln_finding up (in_RepoID inp) (in_Branch inp) ''go.mod'' (require_lines parse content)"
  obtain out where out: "vs_Scan ?src deps = Inr out"
    "map ident out = map (\<lambda>i. ident (?raw ! i)) (filter (representative ?raw) [0..<length ?raw])"
    using osv_scan_exact [OF assms(7)] by blast
  have run: "ck_Run ?c inp = Returned (Inr (collect_ok ?new out))"
    using assms(4-6) out(1) by (simp add: vuln_check_def VulnScanCheck_Run_def ScanManifestDeps_def)
  have auth: "ck_AuthoritativeRule ?c = Some VulnScanCheck_AuthoritativeRule" "VulnScanCheck_AuthoritativeRule inp = (''vulnerable_dependency'', True)"
    using assms(2,3) by (simp_all add: vuln_check_def VulnScanCheck_AuthoritativeRule_def)
  have ours: "f_State f = FindingStateOpen \<and> f_RepoID f = in_RepoID inp \<and> f_Branch f = in_Branch inp \<and> f_Rule f = ''vulnerable_dependency''"
    if "Some f \<in> set (collect_ok ?new out)" for f
    using that by (rule vuln_collect_ours)
  obtain t' where t': "runOne (\<lambda>_. None) (\<lambda>_. None) now inp ?c (Some t) = Some t'"
    "\<And>fid. repo_opened t' fid (in_Branch inp) = Some (in_RepoID inp, ''vulnerable_dependency'')
       \<longleftrightarrow> fid \<in> f_FindingID ` {f. Some f \<in> set (collect_ok ?new out)}"
    using runOne_reconciles [OF assms(1) run auth _ ours, of now] by blast
  have reps: "set (filter (representative ?raw) [0..<length ?raw]) = {i. representative ?raw i}" by (auto simp: representative_def)
  have opened: "repo_opened t' fid (in_Branch inp) = Some (in_RepoID inp, ''vulnerable_dependency'')
      \<longleftrightarrow> fid \<in> (\<lambda>i. vuln_id (in_RepoID inp) (?raw ! i)) ` {i. representative ?raw i}" for fid
    unfolding t'(2) vuln_collect_ids ident_ids [OF out(2)] reps ..
  have covered: "\<exists>i j. ?raw ! i = vuln_match sv adv aff dep \<and> same_vuln ?raw i j
      \<and> repo_opened t' (vuln_id (in_RepoID inp) (?raw ! j)) (in_Branch inp) = Some (in_RepoID inp, ''vulnerable_dependency'')"
    if "adv \<in> set advs" "aff \<in> set (ad_Affected adv)" "dep \<in> set deps" "is_go (oa_Ecosystem aff)" "dq_Name dep = oa_Name aff"
      "versionAffected sv (dq_Version dep) (oa_Ranges aff)" for adv aff dep
  proof -
    have "dq_Ecosystem dep = ''Go''" using assms(6) that(3) by (auto simp: ReadGoMod_def split: sum.splits)
    then have "vuln_match sv adv aff dep \<in> set ?raw" using that by (auto simp: in_all_matches is_go_def)
    then obtain i where i: "i < length ?raw" "?raw ! i = vuln_match sv adv aff dep" by (auto simp: in_set_conv_nth)
    obtain j where "representative ?raw j" "same_vuln ?raw i j" using representative_exists [OF i(1)] by blast
    then show ?thesis using i(2) opened by blast
  qed
  show ?thesis using t'(1) opened covered by (intro exI [of _ t'] conjI) auto
qed

text \<open>
  C36. A scan without an advisory cache counts as a complete one: when the cache directory is missing,
  the check returns no finding, and because it is the authority for its rule the runner closes
  every open finding of the repository and branch, although no dependency has changed.
\<close>

theorem missing_cache_closes_findings:
  assumes "gm_wf t" and "in_RepoID inp \<noteq> []" and "in_Branch inp \<noteq> []"
    and "repoRoot (in_RepoID inp) = Inr root" and "readFile (path_Join2 root ''go.mod'') = Content content"
    and "ReadGoMod parse content = Inr deps"
  shows "\<exists>t'. runOne (\<lambda>_. None) (\<lambda>_. None) now inp
        (vuln_check up parse readFile \<lparr>vc_src = Some (osv_source sv NoDir ctx load), vc_repoRoot = Some repoRoot\<rparr>) (Some t) = Some t'
    \<and> (\<forall>fid. repo_opened t' fid (in_Branch inp) \<noteq> Some (in_RepoID inp, ''vulnerable_dependency''))"
proof -
  let ?c = "vuln_check up parse readFile \<lparr>vc_src = Some (osv_source sv NoDir ctx load), vc_repoRoot = Some repoRoot\<rparr>"
  have run: "ck_Run ?c inp = Returned (Inr [])"
    using assms(4-6) by (simp add: vuln_check_def VulnScanCheck_Run_def ScanManifestDeps_def osv_source_def Adapter_Scan_def)
  have auth: "ck_AuthoritativeRule ?c = Some VulnScanCheck_AuthoritativeRule" "VulnScanCheck_AuthoritativeRule inp = (''vulnerable_dependency'', True)"
    using assms(2,3) by (simp_all add: vuln_check_def VulnScanCheck_AuthoritativeRule_def)
  show ?thesis using runOne_reconciles [OF assms(1) run auth, of now] by auto
qed

section \<open>Applications\<close>

definition sample_manifest :: mod_parser where
  "sample_manifest content = Inr \<lparr>gf_Module = Some ''m'', gf_Require = [\<lparr>gr_Path = ''p'', gr_Version = ''v1'', gr_Line = Some 3\<rparr>]\<rparr>"

definition sample_advisory :: advisory where
  "sample_advisory = \<lparr>ad_ID = ''GHSA-1'', ad_Aliases = [], ad_Summary = ''s'',
     ad_Affected = [\<lparr>oa_Ecosystem = ''Go'', oa_Name = ''p'', oa_Ranges = [two_fixes]\<rparr>], ad_Severity = [], ad_DatabaseSeverity = ''HIGH''\<rparr>"

definition sample_dep :: Dependency where
  "sample_dep = \<lparr>dq_Ecosystem = ''Go'', dq_Name = ''p'', dq_Version = ''v1''\<rparr>"

lemma sample_manifest_deps: "ReadGoMod sample_manifest ''x'' = Inr [sample_dep]"
  by (simp add: ReadGoMod_def sample_manifest_def sample_dep_def)

lemma sample_input_scope: "in_RepoID sample_input \<noteq> []" "in_Branch sample_input \<noteq> []"
  by (simp_all add: sample_input_def)

theorem vuln_findings_exact_witness:
  "\<exists>t'. runOne (\<lambda>_. None) (\<lambda>_. None) 5 sample_input
      (vuln_check id sample_manifest (\<lambda>_. Content ''x'')
        \<lparr>vc_src = Some (osv_source unary_semver (Entries [(''GHSA-1.json'', False)]) (\<lambda>_. None) (\<lambda>_. Inr sample_advisory)),
         vc_repoRoot = Some (\<lambda>_. Inr ''root'')\<rparr>) (Some []) = Some t'
     \<and> (\<exists>fid. repo_opened t' fid (in_Branch sample_input) = Some (in_RepoID sample_input, ''vulnerable_dependency''))"
proof -
  have cache: "cached_advisories (\<lambda>_. Inr sample_advisory) [(''GHSA-1.json'', False)] = Inr [sample_advisory]" by code_simp
  have match: "is_go (oa_Ecosystem aff) \<and> dq_Name sample_dep = oa_Name aff \<and> versionAffected unary_semver (dq_Version sample_dep) (oa_Ranges aff)"
    if "aff \<in> set (ad_Affected sample_advisory)" for aff
  proof -
    have "aff = \<lparr>oa_Ecosystem = ''Go'', oa_Name = ''p'', oa_Ranges = [two_fixes]\<rparr>" using that by (simp add: sample_advisory_def)
    moreover have "versionAffected unary_semver ''v1'' [two_fixes]" by code_simp
    ultimately show ?thesis by (simp add: is_go_def sample_dep_def)
  qed
  obtain aff where aff: "aff \<in> set (ad_Affected sample_advisory)" by (simp add: sample_advisory_def)
  note exact = vuln_findings_exact [where t = "[]" and inp = sample_input and repoRoot = "\<lambda>_. Inr ''root''" and now = 5 and up = id
      and readFile = "\<lambda>_. Content ''x''" and sv = unary_semver, OF gm_wf_Nil sample_input_scope refl refl sample_manifest_deps cache]
  then show ?thesis using match [OF aff] aff by fastforce
qed

theorem missing_cache_closes_findings_witness:
  "repo_opened [((''f1'', ''main''), Finding_Repo.sample_row ''vulnerable_dependency'')] ''f1'' ''main'' = Some (''r'', ''vulnerable_dependency'')
   \<and> (\<exists>t'. runOne (\<lambda>_. None) (\<lambda>_. None) 5 sample_input
        (vuln_check id sample_manifest (\<lambda>_. Content ''x'')
          \<lparr>vc_src = Some (osv_source unary_semver NoDir (\<lambda>_. None) (\<lambda>_. Inr sample_advisory)), vc_repoRoot = Some (\<lambda>_. Inr ''root'')\<rparr>)
        (Some [((''f1'', ''main''), Finding_Repo.sample_row ''vulnerable_dependency'')]) = Some t'
      \<and> repo_opened t' ''f1'' ''main'' \<noteq> Some (''r'', ''vulnerable_dependency''))"
proof -
  let ?t = "[((''f1'', ''main''), Finding_Repo.sample_row ''vulnerable_dependency'')]"
  have t: "gm_wf ?t" by simp
  have "repo_opened ?t ''f1'' ''main'' = Some (''r'', ''vulnerable_dependency'')" by code_simp
  moreover have "in_Branch sample_input = ''main''" "in_RepoID sample_input = ''r''" by (simp_all add: sample_input_def)
  ultimately show ?thesis
    using missing_cache_closes_findings [where inp = sample_input and repoRoot = "\<lambda>_. Inr ''root''" and now = 5 and up = id
      and readFile = "\<lambda>_. Content ''x''" and sv = unary_semver and ctx = "\<lambda>_. None" and load = "\<lambda>_. Inr sample_advisory",
      OF t sample_input_scope refl refl sample_manifest_deps] by auto
qed

end
