(* ===== verification/Spec2Isabelle.thy ===== *)
theory Spec2Isabelle
  imports Domain_Task Staging_Interleaving Cold_Scan Duplicates Vuln_Scan
begin

text \<open>
  A verification development for \<^emph>\<open>veska\<close>, a daemon that keeps a graph of the symbols of source
  repositories and a table of findings about them.

  \<^bold>\<open>The program.\<close> A watcher or a scan hands file contents to the \<^emph>\<open>ingester\<close>, which parses them and
  puts the result into the \<^emph>\<open>staging area\<close>; a \<^emph>\<open>gate\<close> pauses and invalidates saves during a branch
  switch. On a commit the \<^emph>\<open>promoter\<close> hands what is staged to the promotion store in one
  transaction, runs the structural \<^emph>\<open>checks\<close> and leaves rows in a \<^emph>\<open>work queue\<close>, whose lanes are
  drained by pollers; one lane is the \<^emph>\<open>revalidation\<close> of findings whose anchor drifted. At start-up
  the \<^emph>\<open>resync\<close> replays missed commits or runs a \<^emph>\<open>cold scan\<close>. Queries such as the \<^emph>\<open>blast radius\<close>
  read the promoted graph. All source paths below are relative to \<open>src/internal\<close>.

  \<^bold>\<open>Theories and what they model.\<close>
  \<^item> \<open>Prelude\<close>: errors and \<open>errors.Is\<close>, fallible results, functional options, Go's map (an
    association list whose order is the iteration order, so theorems hold for every order), a SQL
    update as a map update, slices, strings, bounded reachability. Locales \<open>option_builder\<close>
    and \<open>go_map\<close>.
  \<^item> \<open>Hashing\<close> and \<open>Runes\<close>: SHA-256 with hexadecimal encoding, UTF-8 decoding and trimming, which
    the identities and summaries of the domain are computed with.
  \<^item> \<open>Domain_Finding\<close> (\<open>core/domain/finding.go\<close>, \<open>actor.go\<close>, \<open>suppression.go\<close>), \<open>Domain_Node\<close>
    (\<open>node.go\<close>, \<open>edge.go\<close>, \<open>graph.go\<close>, \<open>parse_result.go\<close>, \<open>embed_text.go\<close>), \<open>Domain_Task\<close>
    (\<open>task.go\<close>, over an explicit heap because the set and its callers share task pointers).
  \<^item> \<open>Staging\<close> (\<open>application/staging\<close>): area and gate, with the 64-bit generation as a word; the
    locale \<open>staged_overlay\<close> is the contract the promoter and the resync rely on.
    \<open>Staging_Interleaving\<close> is a step relation of any number of savers and branch switches at the
    granularity of the locks.
  \<^item> \<open>Ingest\<close> (\<open>application/ingester.go\<close>, \<open>findingemitter.go\<close>): saves and the calls they make to
    the finding sink.
  \<^item> \<open>Finding_Repo\<close> (\<open>infrastructure/sqlite/finding_repo.go\<close>): the findings table; locale
    \<open>finding_storage\<close>.
  \<^item> \<open>Checks\<close> (\<open>application/checks\<close>, \<open>application/pathfilter\<close>): the checks over their query ports,
    the registry and the runner.
  \<^item> \<open>Work_Queue\<close> (\<open>core/ports/queue.go\<close>, \<open>platform/pollloop\<close>, \<open>infrastructure/sqlite/queue\<close>): one
    tick of a lane and the drain loop.
  \<^item> \<open>Revalidate\<close> (\<open>application/revalidate\<close>, \<open>infrastructure/sqlite/revalidate_repo.go\<close>): the rule
    dispatch, the handler, the SQL adapter; locale \<open>predicate_source\<close>.
  \<^item> \<open>Promotion\<close> (\<open>application/promoter.go\<close>, \<open>promotion_store.go\<close>), \<open>Resync\<close>
    (\<open>branchreconcile.go\<close>, \<open>scan_tracker.go\<close>, \<open>resync.go\<close>), \<open>Cold_Scan\<close> (\<open>coldscan.go\<close>).
  \<^item> \<open>Blast_Radius\<close> (\<open>application/blastradius\<close>, \<open>infrastructure/sqlite/edge_reader_repo.go\<close>): the
    bounded search; locale \<open>edge_reader\<close>.
  \<^item> \<open>Graph_Tables\<close> (the tables the migrations of \<open>infrastructure/sqlite\<close> declare): rows, statements
    with their conflict clauses, constraints and cascades. \<open>Promotion_Store\<close>
    (\<open>infrastructure/sqlite/promotion_*.go\<close>, \<open>snippet.go\<close>): the transaction that writes a batch, with
    the outcome of each statement by its number; \<open>Go_Path\<close> holds what it uses of \<open>path/filepath\<close>.
    \<open>Promotion_Integrity\<close> has the locales \<open>promotion_rows\<close>, \<open>promotion_files\<close>, \<open>promotion_later\<close> and
    \<open>promotion_statements\<close> (what the statements of a phase keep, the phase keeps) and says which edges
    a batch may write, \<open>Promotion_Effect\<close> what a promotion leaves behind.
  \<^item> \<open>Cycle_Search\<close> and \<open>Cycle_Gate\<close> (\<open>application/diffgate/cyclegate.go\<close>): the iterative search for
    strongly connected components and the gate on net-new dependency cycles.
  \<^item> \<open>Diff_Gate\<close> (\<open>application/diffgate/changesource.go\<close>, \<open>indexer.go\<close>, \<open>changednodes.go\<close>,
    \<open>verify.go\<close>, \<open>guard.go\<close>, \<open>gate.go\<close>): a candidate change as an overlay on the promoted graph and
    the verdict on it; it interprets \<open>predicate_source\<close> on the candidate. \<open>Graph_Queries\<close>
    (\<open>infrastructure/sqlite/deadcode_repo.go\<close>, \<open>contractdrift_repo.go\<close>, \<open>coverage_repo.go\<close>,
    \<open>exportedsymbol_repo.go\<close>, \<open>cycle_edges_repo.go\<close>, \<open>node_lookup_repo.go\<close>): the queries that the checks
    and the gates read the tables with. \<open>Blanket_Gates\<close> (\<open>apigate.go\<close>, \<open>clonegate.go\<close>,
    \<open>coveragegate.go\<close>, \<open>securitygate.go\<close>): the gates on a change as a whole.
  \<^item> \<open>Union_Find\<close> and \<open>Duplicates\<close> (\<open>application/duplicates\<close>, \<open>infrastructure/sqlite/clone_repo.go\<close>): the
    disjoint sets with path compression, whose promise is the locale \<open>disjoint_sets\<close>, and the exact,
    structural and near clusters built on them. Scores are \<open>float32\<close> bit patterns that are only compared.

  \<^item> \<open>Go_Regexp\<close> and \<open>Secrets_Scanner\<close> (\<open>infrastructure/secretsscanner\<close>,
    \<open>application/checks/secretsscan.go\<close>): a matcher for the expressions of the rules, whose matches are
    also derivations of an inductive relation, the scanner with its redaction, and the check on its hits.
  \<^item> \<open>Osv_Source\<close> (\<open>infrastructure/vulnsource\<close>) and \<open>Vuln_Scan\<close> (\<open>application/checks/vulnscan.go\<close>,
    \<open>application/manifest\<close>, \<open>application/vulnrefresh\<close>): the advisory cache, version ranges, the
    deduplication of aliases, a second instance of \<open>disjoint_sets\<close> on a parent array, and the check.

  \<^bold>\<open>Conventions.\<close> A struct is a record whose fields carry a short prefix, a pointer that may be nil is
  an option, an error return is the left side of a sum. A call that may fail outside the modelled
  code (a SQL statement, a git command, a read of a file) gets its outcome as an argument, so that
  every error return is a branch of the definition. A table is a map from its primary key to its
  rows. The time of a call is an argument. What other goroutines do during a call is an argument
  (\<open>meanwhile\<close>) or, for the staging area, a step relation.

  \<^bold>\<open>What the lemmas show.\<close> Constructors are characterized by their options, and a finding is
  closed by the first permitted attempt (domain); staging, promotion and resync compose: what is staged is promoted exactly once and the
  replay of missed commits ends with the tree of the last one; the findings table is reconciled
  exactly by authoritative checks and by the sweep; the queue keeps its attempt budget under any
  fault and its lanes drain; the blast radius is sound, bounded and, without its hub gate, exact. A
  promotion leaves everything outside its batch untouched whatever fails, and when it
  succeeds the graph shows exactly the staged nodes, the old edges that touch none of its files and
  edges that the batch itself wrote; the component search is exact and the cycle
  gate fails exactly on net-new cycles. Each gate on a candidate change is characterized exactly: it
  passes if and only if the stated condition on the base tables and the candidate holds, and a
  dimension that could not be checked never passes; the drift query after a promotion reports the
  changes of that promotion. Near duplicates are exactly the connected components of the
  similarity edges, and the clusters of all tiers are disjoint. The vulnerability check leaves open
  exactly one finding per matched vulnerability; the secret a
  rule matched does not occur in the line its finding stores.
  Some theorems state what the code does where it falls short of its documentation: the race of
  the staging guard, files dropped or kept by a promotion or a replay, rows stuck in progress,
  rows shared between repositories, the hub gate counting duplicates, and the inbound calls that a
  promotion of the callee's file deletes, which makes live symbols look dead, and the clones without a
  structural hash, which no cluster of a hash tier contains, a second secret on a line, which is stored
  in the clear, an advisory lost by a compaction in place, and a missing cache that closes findings.

  \<^bold>\<open>Termination and bounds.\<close> All definitions are total except the poll loop (\<open>drain\<close>) and
  the lookup in the disjoint sets (\<open>uf_find\<close>), partial functions for which termination is a theorem. The hop loop of the blast radius recurses on the
  number of hops left, which the source bounds by \<open>MaxDepth\<close>; the loop of the component search
  decreases a lexicographic measure of unvisited nodes, pending successors and frames; the fixpoint
  of the scope guard decreases the number of new nodes not yet admitted.

  \<^bold>\<open>Not modelled.\<close> The entropy of a token (floating point, a parameter of the scanner), the tree-sitter parsers (a parameter of the ingester), git (a parameter of the
  resync), the embedding and language models, the vector store, the links and the ranking scores
  computed from it (floating point), the MCP server, the command line and the daemon's construction (plumbing), logging,
  metrics other than the revalidation counters, and tracing.
\<close>

end
